(* ===== verification/Prelude.thy ===== *)
theory Prelude
  imports Main "HOL-Library.AList" "HOL-Library.Word" "HOL-Library.Sublist"
begin

text \<open>
  Shared vocabulary of the development: the parts of the Rust standard library the crate
  uses (saturating integer arithmetic, \<open>Duration\<close>, \<open>Instant\<close>, \<open>str::split\<close>,
  \<open>VecDeque\<close>/\<open>Vec\<close> helpers), the concurrent hash map \<open>DashMap\<close> as an association
  list with distinct keys, the \<open>keyed_store\<close> interface its clients rely on, and the
  \<open>inv_machine\<close> interface that turns a per-operation invariant into an invariant of every
  sequence of operations.

  Conventions. An \<open>Instant\<close> is a number of nanoseconds on the monotonic clock and every
  operation that calls \<open>Instant::now()\<close> takes the reading as an argument \<open>now\<close>; a
  \<open>Duration\<close> is a number of nanoseconds bounded by \<open>DURATION_MAX\<close>; wall-clock readings
  are milliseconds (\<open>u64\<close>). The iteration order of a \<open>DashMap\<close> is the order of the
  association list, which no theorem relies on: statements are about \<open>dm_get\<close>, that is,
  about the finite map.
\<close>

named_theorems recv_defs \<open>what polling a receiver of a channel unfolds to\<close>

subsection \<open>Machine integers\<close>

type_synonym u64w = "64 word"

definition u32_max :: nat where
  "u32_max = 2 ^ 32 - 1"

definition u64_max :: nat where
  "u64_max = 2 ^ 64 - 1"

text \<open>\<open>saturating_pow\<close>, \<open>saturating_mul\<close>, \<open>saturating_add\<close>, \<open>saturating_sub\<close> at width
  64 and 32, and \<open>u64::try_from(_).unwrap_or(u64::MAX)\<close>.\<close>

definition sat64 :: "nat \<Rightarrow> nat" where
  "sat64 n = min n u64_max"

definition sat32 :: "nat \<Rightarrow> nat" where
  "sat32 n = min n u32_max"

lemma sat64_le [simp]: "sat64 n \<le> u64_max"
  by (simp add: sat64_def)

lemma sat32_le [simp]: "sat32 n \<le> u32_max"
  by (simp add: sat32_def)

lemma sat64_id: "n \<le> u64_max \<Longrightarrow> sat64 n = n"
  by (simp add: sat64_def)

lemma sat32_id: "n \<le> u32_max \<Longrightarrow> sat32 n = n"
  by (simp add: sat32_def)

subsection \<open>Durations and instants\<close>

type_synonym duration = nat
type_synonym instant = nat

definition DURATION_MAX :: duration where
  "DURATION_MAX = u64_max * 1000000000 + 999999999"

definition from_millis :: "nat \<Rightarrow> duration" where
  "from_millis ms = ms * 1000000"

definition from_secs :: "nat \<Rightarrow> duration" where
  "from_secs s = s * 1000000000"

definition as_millis :: "duration \<Rightarrow> nat" where
  "as_millis d = d div 1000000"

definition millis_u64 :: "duration \<Rightarrow> nat" where
  "millis_u64 d = sat64 (as_millis d)"

definition duration_saturating_mul :: "duration \<Rightarrow> nat \<Rightarrow> duration" where
  "duration_saturating_mul d k = min (d * k) DURATION_MAX"

text \<open>\<open>Instant::elapsed\<close> saturates at zero; \<open>Instant::checked_sub\<close> fails below the clock's
  origin.\<close>

definition elapsed :: "instant \<Rightarrow> instant \<Rightarrow> duration" where
  "elapsed now t = now - t"

definition instant_checked_sub :: "instant \<Rightarrow> duration \<Rightarrow> instant option" where
  "instant_checked_sub t d = (if d \<le> t then Some (t - d) else None)"

lemma as_millis_from_millis [simp]: "as_millis (from_millis ms) = ms"
  by (simp add: as_millis_def from_millis_def)

lemma from_millis_mono: "a \<le> b \<Longrightarrow> from_millis a \<le> from_millis b"
  by (simp add: from_millis_def)

lemma from_millis_as_millis_le: "from_millis (as_millis d) \<le> d"
  by (simp add: as_millis_def from_millis_def)

lemma from_millis_less_iff [simp]: "from_millis a < from_millis b \<longleftrightarrow> a < b"
  by (simp add: from_millis_def)

subsection \<open>Results\<close>

text \<open>\<open>Result<T, E>\<close>: \<open>Inl\<close> is \<open>Err\<close>, \<open>Inr\<close> is \<open>Ok\<close>.\<close>

type_synonym ('e, 'a) result = "'e + 'a"

fun is_ok :: "('e, 'a) result \<Rightarrow> bool" where
  "is_ok (Inl e) = False"
| "is_ok (Inr a) = True"

subsection \<open>Bounded buffers\<close>

text \<open>Dropping the oldest element of a full buffer before pushing a new one.\<close>

definition push_bounded :: "nat \<Rightarrow> 'a list \<Rightarrow> 'a \<Rightarrow> 'a list" where
  "push_bounded cap xs x = (if cap \<le> length xs then tl xs else xs) @ [x]"

text \<open>The last \<open>n\<close> elements of a list.\<close>

definition last_n :: "nat \<Rightarrow> 'a list \<Rightarrow> 'a list" where
  "last_n n xs = drop (length xs - n) xs"

lemma length_last_n [simp]: "length (last_n n xs) = min n (length xs)"
  by (simp add: last_n_def)

lemma last_n_all: "length xs \<le> n \<Longrightarrow> last_n n xs = xs"
  by (simp add: last_n_def)

lemma last_n_Nil [simp]: "last_n n [] = []"
  by (simp add: last_n_def)

lemma last_n_Cons: "n \<le> length xs \<Longrightarrow> last_n n (x # xs) = last_n n xs"
  by (simp add: last_n_def Suc_diff_le)

lemma push_bounded_last_n:
  assumes "0 < cap"
  shows "push_bounded cap (last_n cap xs) x = last_n cap (xs @ [x])"
proof (cases "cap \<le> length xs")
  case True
  then have "push_bounded cap (last_n cap xs) x = drop (Suc (length xs - cap)) xs @ [x]"
    by (simp add: push_bounded_def last_n_def drop_Suc tl_drop)
  also have "\<dots> = last_n cap (xs @ [x])"
    using True assms by (simp add: last_n_def Suc_diff_le)
  finally show ?thesis .
next
  case False
  then show ?thesis by (simp add: push_bounded_def last_n_def)
qed

lemma length_push_bounded: "0 < cap \<Longrightarrow> length xs \<le> cap \<Longrightarrow> length (push_bounded cap xs x) \<le> cap"
  by (auto simp: push_bounded_def)

lemma map_upt_Cons: "f a # map f [Suc a ..< Suc a + n] = map f [a ..< a + Suc n]"
  by (simp add: upt_conv_Cons del: upt_Suc)

subsection \<open>\<open>Iterator::position\<close> and \<open>Vec::remove\<close>\<close>

fun position :: "('a \<Rightarrow> bool) \<Rightarrow> 'a list \<Rightarrow> nat option" where
  "position P [] = None"
| "position P (x # xs) = (if P x then Some 0 else map_option Suc (position P xs))"

definition remove_at :: "nat \<Rightarrow> 'a list \<Rightarrow> 'a list" where
  "remove_at i xs = take i xs @ drop (Suc i) xs"

lemma position_Some:
  "position P xs = Some i \<Longrightarrow> i < length xs \<and> P (xs ! i) \<and> (\<forall>j<i. \<not> P (xs ! j))"
proof (induction xs arbitrary: i)
  case Nil
  then show ?case by simp
next
  case (Cons x xs)
  then show ?case
    by (auto split: if_splits simp: less_Suc_eq_0_disj)
qed

lemma position_None: "position P xs = None \<longleftrightarrow> (\<forall>x\<in>set xs. \<not> P x)"
  by (induction xs) auto

subsection \<open>\<open>DashMap\<close>\<close>

type_synonym ('k, 'v) dashmap = "('k \<times> 'v) list"

definition dm_get :: "('k, 'v) dashmap \<Rightarrow> 'k \<Rightarrow> 'v option" where
  "dm_get m k = map_of m k"

definition dm_insert :: "'k \<Rightarrow> 'v \<Rightarrow> ('k, 'v) dashmap \<Rightarrow> ('k, 'v) dashmap" where
  "dm_insert k v m = AList.update k v m"

definition dm_remove :: "'k \<Rightarrow> ('k, 'v) dashmap \<Rightarrow> ('k, 'v) dashmap" where
  "dm_remove k m = AList.delete k m"

definition dm_contains :: "('k, 'v) dashmap \<Rightarrow> 'k \<Rightarrow> bool" where
  "dm_contains m k = (dm_get m k \<noteq> None)"

definition dm_retain :: "('k \<Rightarrow> 'v \<Rightarrow> bool) \<Rightarrow> ('k, 'v) dashmap \<Rightarrow> ('k, 'v) dashmap" where
  "dm_retain P m = filter (\<lambda>(k, v). P k v) m"

text \<open>\<open>if let Some(mut e) = map.get_mut(k) { f(e) }\<close>.\<close>

definition dm_modify :: "'k \<Rightarrow> ('v \<Rightarrow> 'v) \<Rightarrow> ('k, 'v) dashmap \<Rightarrow> ('k, 'v) dashmap" where
  "dm_modify k f m = (case dm_get m k of None \<Rightarrow> m | Some v \<Rightarrow> dm_insert k (f v) m)"

definition dm_keys :: "('k, 'v) dashmap \<Rightarrow> 'k list" where
  "dm_keys m = map fst m"

definition dm_wf :: "('k, 'v) dashmap \<Rightarrow> bool" where
  "dm_wf m = distinct (map fst m)"

lemma dm_wf_Nil [simp]: "dm_wf []"
  by (simp add: dm_wf_def)

lemma dm_get_Nil [simp]: "dm_get [] k = None"
  by (simp add: dm_get_def)

lemma dm_get_insert [simp]: "dm_get (dm_insert k v m) k' = (if k' = k then Some v else dm_get m k')"
  by (simp add: dm_get_def dm_insert_def update_conv')

lemma dm_get_remove [simp]: "dm_get (dm_remove k m) k' = (if k' = k then None else dm_get m k')"
  by (simp add: dm_get_def dm_remove_def delete_conv')

lemma dm_get_modify [simp]:
  "dm_get (dm_modify k f m) k' = (if k' = k then map_option f (dm_get m k) else dm_get m k')"
  by (simp add: dm_modify_def split: option.split)

lemma dm_wf_insert [simp, intro]: "dm_wf m \<Longrightarrow> dm_wf (dm_insert k v m)"
  by (simp add: dm_wf_def dm_insert_def distinct_update)

lemma dm_wf_remove [simp, intro]: "dm_wf m \<Longrightarrow> dm_wf (dm_remove k m)"
  by (simp add: dm_wf_def dm_remove_def distinct_delete)

lemma dm_wf_modify [simp, intro]: "dm_wf m \<Longrightarrow> dm_wf (dm_modify k f m)"
  by (simp add: dm_modify_def split: option.split)

lemma dm_wf_retain [simp, intro]: "dm_wf m \<Longrightarrow> dm_wf (dm_retain P m)"
  by (induction m) (auto simp: dm_wf_def dm_retain_def)

lemma dm_get_retain:
  "dm_wf m \<Longrightarrow>
   dm_get (dm_retain P m) k =
     (case dm_get m k of None \<Rightarrow> None | Some v \<Rightarrow> if P k v then Some v else None)"
proof (induction m)
  case Nil
  then show ?case by (simp add: dm_retain_def)
next
  case (Cons kv m)
  obtain k' v' where kv: "kv = (k', v')" by (cases kv)
  from Cons.prems kv have wf: "dm_wf m" and notin: "k' \<notin> fst ` set m"
    by (auto simp: dm_wf_def)
  from notin have none: "map_of m k' = None"
    by (simp add: map_of_eq_None_iff)
  from Cons.IH [OF wf] show ?case
    using none kv by (auto simp: dm_get_def dm_retain_def split: option.splits)
qed

lemma dm_get_Some_iff: "dm_wf m \<Longrightarrow> dm_get m k = Some v \<longleftrightarrow> (k, v) \<in> set m"
  by (simp add: dm_get_def dm_wf_def)

lemma dm_keys_get: "k \<in> set (dm_keys m) \<longleftrightarrow> dm_get m k \<noteq> None"
  by (simp add: dm_keys_def dm_get_def map_of_eq_None_iff)

lemma dm_keys_distinct: "dm_wf m \<Longrightarrow> distinct (dm_keys m)"
  by (simp add: dm_wf_def dm_keys_def)

lemma dm_remove_absent: "dm_get m k = None \<Longrightarrow> dm_remove k m = m"
  by (simp add: dm_get_def dm_remove_def map_of_eq_None_iff delete_idem)

lemma dm_insert_same: "dm_get m k = Some v \<Longrightarrow> dm_insert k v m = m"
  by (simp add: dm_get_def dm_insert_def update_triv)

lemma dm_modify_absent: "dm_get m k = None \<Longrightarrow> dm_modify k f m = m"
  by (simp add: dm_modify_def)

lemma dm_contains_iff: "dm_contains m k \<longleftrightarrow> k \<in> set (dm_keys m)"
  by (simp add: dm_contains_def dm_keys_get)

text \<open>
  The contract a client of a keyed store relies on. Loops over collected keys (the shape of
  every bulk operation of the crate) are reasoned about once here: modifying every listed key
  touches the listed keys and no other, whatever the order of the list.
\<close>

locale keyed_store =
  fixes get :: "'m \<Rightarrow> 'k \<Rightarrow> 'v option"
    and modify :: "'k \<Rightarrow> ('v \<Rightarrow> 'v) \<Rightarrow> 'm \<Rightarrow> 'm"
    and remove :: "'k \<Rightarrow> 'm \<Rightarrow> 'm"
  assumes get_modify: "get (modify k f m) k' = (if k' = k then map_option f (get m k) else get m k')"
    and get_remove: "get (remove k m) k' = (if k' = k then None else get m k')"
begin

lemma get_fold_modify:
  assumes "\<And>v. f (f v) = f v"
  shows "get (fold (\<lambda>k. modify k f) ks m) k =
           (if k \<in> set ks then map_option f (get m k) else get m k)"
  using assms
  by (induction ks arbitrary: m) (auto simp: get_modify option.map_comp comp_def)

lemma get_fold_remove:
  "get (fold remove ks m) k = (if k \<in> set ks then None else get m k)"
  by (induction ks arbitrary: m) (auto simp: get_remove)

lemma fold_modify_order:
  assumes "\<And>v. f (f v) = f v" and "set ks = set ks'"
  shows "get (fold (\<lambda>k. modify k f) ks m) = get (fold (\<lambda>k. modify k f) ks' m)"
  using assms by (auto simp: get_fold_modify)

end

interpretation dash: keyed_store dm_get dm_modify dm_remove
  by unfold_locales simp_all

text \<open>A component of the state that every step of a loop updates on its own.\<close>

lemma fold_proj: "(\<And>x s. p (f x s) = g x (p s)) \<Longrightarrow> p (fold f xs s) = fold g xs (p s)"
  by (induction xs arbitrary: s) simp_all

lemma fold_keeps: "P c \<Longrightarrow> (\<And>x c. P c \<Longrightarrow> P (f x c)) \<Longrightarrow> P (fold f xs c)"
  by (induction xs arbitrary: c) auto

lemma fold_idle: "(\<And>x. x \<in> set xs \<Longrightarrow> f x = (\<lambda>y. y)) \<Longrightarrow> fold f xs z = z"
  by (induction xs arbitrary: z) auto

subsection \<open>Machines with an invariant\<close>

text \<open>
  A component with an initial state, a deterministic step per operation, and an invariant each
  operation keeps. Its lemmas lift the per-operation argument to whole sequences of operations.
\<close>

locale inv_machine =
  fixes init :: "'s" and step :: "'op \<Rightarrow> 's \<Rightarrow> 's" and inv :: "'s \<Rightarrow> bool"
  assumes inv_init: "inv init"
    and inv_step: "inv s \<Longrightarrow> inv (step a s)"
begin

lemma inv_fold: "inv s \<Longrightarrow> inv (fold step as s)"
  by (induction as arbitrary: s) (auto intro: inv_step)

lemma inv_run: "inv (fold step as init)"
  by (rule inv_fold [OF inv_init])

end

end
