(* ===== verification/Query_Key.thy ===== *)
theory Query_Key
  imports Prelude
begin

text \<open>
  \<open>src/key.rs\<close>: hierarchical query keys. A key carries its segments and the pre-computed
  cache key, the segments joined with \<open>::\<close>. The theory also models \<open>str::split\<close> at \<open>::\<close>,
  which \<open>client.rs\<close>, \<open>hydration.rs\<close> and \<open>devtools.rs\<close> use to rebuild a key from a cache
  key, and shows when the rebuilt key is the original one.
\<close>

record query_key =
  segments :: "string list"
  cache_key :: string

text \<open>The separator of \<open>format!("{}::{}", ...)\<close>.\<close>

definition SEP :: string where
  "SEP = ''::''"

definition QueryKey_new :: "string \<Rightarrow> query_key" where
  "QueryKey_new segment = \<lparr>segments = [segment], cache_key = segment\<rparr>"

definition QueryKey_segment :: "query_key \<Rightarrow> string \<Rightarrow> query_key" where
  "QueryKey_segment k name =
     \<lparr>segments = segments k @ [name], cache_key = cache_key k @ SEP @ name\<rparr>"

definition QueryKey_with :: "query_key \<Rightarrow> string \<Rightarrow> string \<Rightarrow> query_key" where
  "QueryKey_with k label value =
     (let param = label @ ''='' @ value
      in \<lparr>segments = segments k @ [param], cache_key = cache_key k @ SEP @ param\<rparr>)"

text \<open>\<open>self.segments[..n] == prefix[..]\<close> after the length guard.\<close>

definition QueryKey_starts_with :: "query_key \<Rightarrow> query_key \<Rightarrow> bool" where
  "QueryKey_starts_with k pre =
     (length (segments k) \<ge> length (segments pre)
      \<and> take (length (segments pre)) (segments k) = segments pre)"

definition QueryKey_from_segments :: "string list \<Rightarrow> query_key" where
  "QueryKey_from_segments segs =
     (case segs of
        [] \<Rightarrow> \<lparr>segments = [], cache_key = []\<rparr>
      | first # rest \<Rightarrow> foldl QueryKey_segment (QueryKey_new first) rest)"

text \<open>\<open>s.split("::")\<close>: leftmost, non-overlapping matches; \<open>cur\<close> holds the current piece
  reversed.\<close>

fun split_sep :: "string \<Rightarrow> string \<Rightarrow> string list" where
  "split_sep cur [] = [rev cur]"
| "split_sep cur [c] = [rev (c # cur)]"
| "split_sep cur (c # d # s) =
     (if c = CHR '':'' \<and> d = CHR '':'' then rev cur # split_sep [] s
      else split_sep (c # cur) (d # s))"

definition str_split :: "string \<Rightarrow> string list" where
  "str_split s = split_sep [] s"

text \<open>\<open>QueryKey::from_segments(cache_key.split("::"))\<close>, as \<open>entry_snapshot\<close> writes it.\<close>

definition rebuild_key :: "string \<Rightarrow> query_key" where
  "rebuild_key s = QueryKey_from_segments (str_split s)"

subsection \<open>Joining\<close>

fun join_sep :: "string list \<Rightarrow> string" where
  "join_sep [] = []"
| "join_sep [x] = x"
| "join_sep (x # y # xs) = x @ SEP @ join_sep (y # xs)"

lemma join_sep_Cons: "xs \<noteq> [] \<Longrightarrow> join_sep (x # xs) = x @ SEP @ join_sep xs"
  by (cases xs) auto

lemma join_sep_snoc: "xs \<noteq> [] \<Longrightarrow> join_sep (xs @ [x]) = join_sep xs @ SEP @ x"
  by (induction xs rule: join_sep.induct) auto

text \<open>The representation invariant of a key: the cache key is the join of the segments.\<close>

definition key_wf :: "query_key \<Rightarrow> bool" where
  "key_wf k \<longleftrightarrow> cache_key k = join_sep (segments k) \<and> segments k \<noteq> []"

lemma key_wf_new [simp, intro]: "key_wf (QueryKey_new s)"
  by (simp add: key_wf_def QueryKey_new_def)

lemma key_wf_segment [simp, intro]: "key_wf k \<Longrightarrow> key_wf (QueryKey_segment k s)"
  by (simp add: key_wf_def QueryKey_segment_def join_sep_snoc)

lemma key_wf_with [simp, intro]: "key_wf k \<Longrightarrow> key_wf (QueryKey_with k l v)"
  by (simp add: key_wf_def QueryKey_with_def Let_def join_sep_snoc)

lemma segments_foldl_segment:
  "segments (foldl QueryKey_segment k xs) = segments k @ xs"
  by (induction xs arbitrary: k) (auto simp: QueryKey_segment_def)

lemma key_wf_foldl: "key_wf k \<Longrightarrow> key_wf (foldl QueryKey_segment k xs)"
  by (induction xs arbitrary: k) auto

lemma segments_from_segments [simp]: "segments (QueryKey_from_segments xs) = xs"
  by (cases xs) (auto simp: QueryKey_from_segments_def QueryKey_new_def segments_foldl_segment)

lemma cache_key_from_segments [simp]: "cache_key (QueryKey_from_segments xs) = join_sep xs"
proof (cases xs)
  case Nil
  then show ?thesis by (simp add: QueryKey_from_segments_def)
next
  case (Cons y ys)
  have "key_wf (foldl QueryKey_segment (QueryKey_new y) ys)"
    by (rule key_wf_foldl) simp
  with Cons show ?thesis
    using segments_from_segments [of xs]
    by (simp add: key_wf_def QueryKey_from_segments_def)
qed

lemma key_wf_from_segments [simp]: "xs \<noteq> [] \<Longrightarrow> key_wf (QueryKey_from_segments xs)"
  by (simp add: key_wf_def)

lemma query_key_eqI: "segments a = segments b \<Longrightarrow> cache_key a = cache_key b \<Longrightarrow> a = (b::query_key)"
  by simp

lemma key_wf_eq_from_segments: "key_wf k \<Longrightarrow> k = QueryKey_from_segments (segments k)"
  by (rule query_key_eqI) (auto simp: key_wf_def)

subsection \<open>Splitting\<close>

lemma split_sep_nonempty [simp]: "split_sep cur s \<noteq> []"
  by (induction cur s rule: split_sep.induct) auto

lemma join_split_sep: "join_sep (split_sep cur s) = rev cur @ s"
  by (induction cur s rule: split_sep.induct) (auto simp: join_sep_Cons SEP_def)

lemma split_sep_piece:
  "CHR '':'' \<notin> set x \<Longrightarrow> split_sep cur x = [rev cur @ x]"
  by (induction cur x rule: split_sep.induct) auto

lemma split_sep_piece_sep:
  "CHR '':'' \<notin> set x \<Longrightarrow> split_sep cur (x @ SEP @ s) = (rev cur @ x) # split_sep [] s"
proof (induction x arbitrary: cur)
  case Nil
  then show ?case by (simp add: SEP_def)
next
  case (Cons c x)
  have "x @ SEP @ s \<noteq> []" by (simp add: SEP_def)
  then obtain d r where dr: "x @ SEP @ s = d # r" by (cases "x @ SEP @ s") auto
  from Cons.prems have "c \<noteq> CHR '':''" by auto
  then have "split_sep cur ((c # x) @ SEP @ s) = split_sep (c # cur) (x @ SEP @ s)"
    using dr by simp
  with Cons show ?case by simp
qed

lemma split_join_sep:
  "xs \<noteq> [] \<Longrightarrow> \<forall>x\<in>set xs. CHR '':'' \<notin> set x \<Longrightarrow> split_sep [] (join_sep xs) = xs"
proof (induction xs rule: join_sep.induct)
  case (3 x y xs)
  then show ?case by (simp add: split_sep_piece_sep)
qed (auto simp: split_sep_piece)

lemma cache_key_rebuild [simp]: "cache_key (rebuild_key s) = s"
  by (simp add: rebuild_key_def str_split_def join_split_sep)

lemma key_wf_rebuild [simp]: "key_wf (rebuild_key s)"
  by (simp add: rebuild_key_def str_split_def)

text \<open>A key none of whose segments holds a colon.\<close>

definition key_clean :: "query_key \<Rightarrow> bool" where
  "key_clean k \<longleftrightarrow> (\<forall>x\<in>set (segments k). CHR '':'' \<notin> set x)"

lemma rebuild_clean: "key_wf k \<Longrightarrow> key_clean k \<Longrightarrow> rebuild_key (cache_key k) = k"
  by (metis key_clean_def key_wf_def key_wf_eq_from_segments rebuild_key_def split_join_sep
      str_split_def)

lemma starts_with_prefix: "QueryKey_starts_with k p \<longleftrightarrow> prefix (segments p) (segments k)"
  unfolding QueryKey_starts_with_def
  by (metis prefix_def append_eq_conv_conj prefix_length_le take_is_prefix)

lemma join_sep_prefix:
  "prefix xs ys \<Longrightarrow> prefix (join_sep xs) (join_sep ys)"
proof (induction xs arbitrary: ys rule: join_sep.induct)
  case (2 x)
  then obtain zs where "ys = x # zs" by (auto simp: prefix_def)
  then show ?case by (cases zs) (auto simp: prefix_def)
next
  case (3 x y xs)
  then obtain zs where ys: "ys = x # y # xs @ zs" by (auto simp: prefix_def)
  with "3.IH" [of "y # xs @ zs"] show ?case by (auto simp: prefix_def)
qed simp

lemma starts_with_cache_key:
  "key_wf k \<Longrightarrow> key_wf p \<Longrightarrow> QueryKey_starts_with k p \<Longrightarrow> prefix (cache_key p) (cache_key k)"
  by (simp add: key_wf_def starts_with_prefix join_sep_prefix)

end
