(* ===== verification/Query_Error.thy ===== *)
theory Query_Error
  imports Prelude
begin

text \<open>
  \<open>src/error.rs\<close> (the error enum, its constructors and its \<open>Display\<close> text) and
  \<open>src/updater.rs\<close> (value-or-function updates).
\<close>

datatype query_error =
    Network string
  | Serialization string
  | Cancelled (revert: bool) (silent: bool)
  | Timeout string
  | MissingQueryFn
  | PausedErr
  | UndefinedData
  | Redacted
  | Custom string

definition QueryError_network :: "string \<Rightarrow> query_error" where
  "QueryError_network msg = Network msg"

definition QueryError_serialization :: "string \<Rightarrow> query_error" where
  "QueryError_serialization msg = Serialization msg"

definition QueryError_cancelled :: query_error where
  "QueryError_cancelled = Cancelled False False"

definition QueryError_cancelled_revert :: query_error where
  "QueryError_cancelled_revert = Cancelled True False"

definition QueryError_cancelled_silent :: query_error where
  "QueryError_cancelled_silent = Cancelled False True"

definition QueryError_timeout :: "string \<Rightarrow> query_error" where
  "QueryError_timeout msg = Timeout msg"

definition QueryError_custom :: "string \<Rightarrow> query_error" where
  "QueryError_custom msg = Custom msg"

fun is_cancelled :: "query_error \<Rightarrow> bool" where
  "is_cancelled (Cancelled r s) = True"
| "is_cancelled _ = False"

text \<open>The \<open>#[error(...)]\<close> messages (\<open>to_string\<close>).\<close>

fun QueryError_to_string :: "query_error \<Rightarrow> string" where
  "QueryError_to_string (Network m) = ''Network error: '' @ m"
| "QueryError_to_string (Serialization m) = ''Serialization error: '' @ m"
| "QueryError_to_string (Cancelled r s) = ''Query was cancelled''"
| "QueryError_to_string (Timeout m) = ''Timeout error: '' @ m"
| "QueryError_to_string MissingQueryFn = ''Missing queryFn''"
| "QueryError_to_string PausedErr = ''Fetch paused (offline)''"
| "QueryError_to_string UndefinedData = ''Query data cannot be undefined''"
| "QueryError_to_string Redacted = ''redacted''"
| "QueryError_to_string (Custom m) = m"

text \<open>\<open>From<io::Error>\<close>: the I/O error enters as its \<open>to_string\<close> text.\<close>

definition QueryError_from_io :: "string \<Rightarrow> query_error" where
  "QueryError_from_io err_text = Network err_text"

lemma is_cancelled_cancelled [simp]: "is_cancelled QueryError_cancelled"
  by (simp add: QueryError_cancelled_def)

lemma is_cancelled_iff: "is_cancelled e \<longleftrightarrow> (\<exists>r s. e = Cancelled r s)"
  by (cases e) auto

subsection \<open>Updaters\<close>

datatype 'a updater = Value 'a | Function "'a option \<Rightarrow> 'a option"

fun Updater_apply :: "'a updater \<Rightarrow> 'a option \<Rightarrow> 'a option" where
  "Updater_apply (Value v) previous = Some v"
| "Updater_apply (Function f) previous = f previous"

definition functional_update :: "'a updater \<Rightarrow> 'a option \<Rightarrow> 'a option" where
  "functional_update updater previous = Updater_apply updater previous"

subsection \<open>\<open>cancellable_fetch\<close>\<close>

text \<open>
  \<open>src/cancellation.rs\<close>. \<open>cancelled_before\<close> is \<open>token.is_cancelled()\<close> at the call;
  \<open>race\<close> is what \<open>token.run_until_cancelled(fetch_fn())\<close> resolves to: \<open>None\<close> when the
  token is cancelled first, otherwise the fetch result.
\<close>

definition cancellable_fetch ::
  "bool \<Rightarrow> (query_error, 'a) result option \<Rightarrow> (query_error, 'a) result" where
  "cancellable_fetch cancelled_before race =
     (if cancelled_before then Inl QueryError_cancelled
      else (case race of Some r \<Rightarrow> r | None \<Rightarrow> Inl QueryError_cancelled))"

end
