(* ===== verification/Query_State.thy ===== *)
theory Query_State
  imports Query_Error
begin

text \<open>
  \<open>src/state.rs\<close>: the query and mutation state enums, the aggregate status enums and every
  accessor derived from them.
\<close>

datatype query_status = QS_Pending | QS_Error | QS_Success

fun QueryStatus_as_str :: "query_status \<Rightarrow> string" where
  "QueryStatus_as_str QS_Pending = ''pending''"
| "QueryStatus_as_str QS_Error = ''error''"
| "QueryStatus_as_str QS_Success = ''success''"

datatype fetch_status = FS_Idle | FS_Fetching | FS_Paused

fun FetchStatus_as_str :: "fetch_status \<Rightarrow> string" where
  "FetchStatus_as_str FS_Idle = ''idle''"
| "FetchStatus_as_str FS_Fetching = ''fetching''"
| "FetchStatus_as_str FS_Paused = ''paused''"

datatype mutation_status = MS_Idle | MS_Pending | MS_Success | MS_Error

fun MutationStatus_as_str :: "mutation_status \<Rightarrow> string" where
  "MutationStatus_as_str MS_Idle = ''idle''"
| "MutationStatus_as_str MS_Pending = ''pending''"
| "MutationStatus_as_str MS_Success = ''success''"
| "MutationStatus_as_str MS_Error = ''error''"

datatype fetch_direction = Forward | Backward

fun FetchDirection_as_str :: "fetch_direction \<Rightarrow> string" where
  "FetchDirection_as_str Forward = ''forward''"
| "FetchDirection_as_str Backward = ''backward''"

subsection \<open>Query states\<close>

datatype 'a query_state =
    Idle
  | Loading
  | LoadingWithPlaceholder 'a
  | Refetching 'a
  | Success 'a
  | Stale 'a
  | Error (err: query_error) (stale_data: "'a option")

fun QueryState_data :: "'a query_state \<Rightarrow> 'a option" where
  "QueryState_data Idle = None"
| "QueryState_data Loading = None"
| "QueryState_data (LoadingWithPlaceholder d) = Some d"
| "QueryState_data (Refetching d) = Some d"
| "QueryState_data (Success d) = Some d"
| "QueryState_data (Stale d) = Some d"
| "QueryState_data (Error e sd) = sd"

text \<open>\<open>data_mut\<close>: writing \<open>f\<close> of the data through the mutable reference, if there is one.\<close>

fun QueryState_data_mut :: "('a \<Rightarrow> 'a) \<Rightarrow> 'a query_state \<Rightarrow> 'a query_state" where
  "QueryState_data_mut f Idle = Idle"
| "QueryState_data_mut f Loading = Loading"
| "QueryState_data_mut f (LoadingWithPlaceholder d) = LoadingWithPlaceholder (f d)"
| "QueryState_data_mut f (Refetching d) = Refetching (f d)"
| "QueryState_data_mut f (Success d) = Success (f d)"
| "QueryState_data_mut f (Stale d) = Stale (f d)"
| "QueryState_data_mut f (Error e sd) = Error e (map_option f sd)"

fun QueryState_is_loading :: "'a query_state \<Rightarrow> bool" where
  "QueryState_is_loading Loading = True"
| "QueryState_is_loading (LoadingWithPlaceholder d) = True"
| "QueryState_is_loading _ = False"

fun QueryState_is_refetching :: "'a query_state \<Rightarrow> bool" where
  "QueryState_is_refetching (Refetching d) = True"
| "QueryState_is_refetching _ = False"

fun QueryState_is_success :: "'a query_state \<Rightarrow> bool" where
  "QueryState_is_success (Success d) = True"
| "QueryState_is_success _ = False"

fun QueryState_is_stale :: "'a query_state \<Rightarrow> bool" where
  "QueryState_is_stale (Stale d) = True"
| "QueryState_is_stale _ = False"

fun QueryState_is_error :: "'a query_state \<Rightarrow> bool" where
  "QueryState_is_error (Error e sd) = True"
| "QueryState_is_error _ = False"

fun QueryState_error :: "'a query_state \<Rightarrow> query_error option" where
  "QueryState_error (Error e sd) = Some e"
| "QueryState_error _ = None"

definition QueryState_has_data :: "'a query_state \<Rightarrow> bool" where
  "QueryState_has_data s = (QueryState_data s \<noteq> None)"

fun QueryState_is_idle :: "'a query_state \<Rightarrow> bool" where
  "QueryState_is_idle Idle = True"
| "QueryState_is_idle _ = False"

fun QueryState_status :: "'a query_state \<Rightarrow> query_status" where
  "QueryState_status Idle = QS_Pending"
| "QueryState_status Loading = QS_Pending"
| "QueryState_status (LoadingWithPlaceholder d) = QS_Pending"
| "QueryState_status (Refetching d) = QS_Success"
| "QueryState_status (Success d) = QS_Success"
| "QueryState_status (Stale d) = QS_Success"
| "QueryState_status (Error e sd) = QS_Error"

fun QueryState_fetch_status :: "'a query_state \<Rightarrow> fetch_status" where
  "QueryState_fetch_status Idle = FS_Idle"
| "QueryState_fetch_status (Success d) = FS_Idle"
| "QueryState_fetch_status (Stale d) = FS_Idle"
| "QueryState_fetch_status (Error e sd) = FS_Idle"
| "QueryState_fetch_status Loading = FS_Fetching"
| "QueryState_fetch_status (LoadingWithPlaceholder d) = FS_Fetching"
| "QueryState_fetch_status (Refetching d) = FS_Fetching"

definition QueryState_map :: "('a \<Rightarrow> 'b) \<Rightarrow> 'a query_state \<Rightarrow> 'b option" where
  "QueryState_map f s = map_option f (QueryState_data s)"

definition QueryState_data_cloned :: "'a query_state \<Rightarrow> 'a option" where
  "QueryState_data_cloned s = QueryState_data s"

text \<open>\<open>unwrap\<close> panics without data: \<open>None\<close> is the panic.\<close>

fun QueryState_unwrap :: "'a query_state \<Rightarrow> 'a option" where
  "QueryState_unwrap (LoadingWithPlaceholder d) = Some d"
| "QueryState_unwrap (Refetching d) = Some d"
| "QueryState_unwrap (Success d) = Some d"
| "QueryState_unwrap (Stale d) = Some d"
| "QueryState_unwrap (Error e (Some d)) = Some d"
| "QueryState_unwrap _ = None"

subsection \<open>Mutation states\<close>

datatype 'a mutation_state = MIdle | MLoading | MSuccess 'a | MError query_error

fun MutationState_is_idle :: "'a mutation_state \<Rightarrow> bool" where
  "MutationState_is_idle MIdle = True"
| "MutationState_is_idle _ = False"

fun MutationState_is_loading :: "'a mutation_state \<Rightarrow> bool" where
  "MutationState_is_loading MLoading = True"
| "MutationState_is_loading _ = False"

fun MutationState_is_success :: "'a mutation_state \<Rightarrow> bool" where
  "MutationState_is_success (MSuccess d) = True"
| "MutationState_is_success _ = False"

fun MutationState_is_error :: "'a mutation_state \<Rightarrow> bool" where
  "MutationState_is_error (MError e) = True"
| "MutationState_is_error _ = False"

fun MutationState_data :: "'a mutation_state \<Rightarrow> 'a option" where
  "MutationState_data (MSuccess d) = Some d"
| "MutationState_data _ = None"

fun MutationState_error :: "'a mutation_state \<Rightarrow> query_error option" where
  "MutationState_error (MError e) = Some e"
| "MutationState_error _ = None"

definition MutationState_data_cloned :: "'a mutation_state \<Rightarrow> 'a option" where
  "MutationState_data_cloned s = MutationState_data s"

fun MutationState_status :: "'a mutation_state \<Rightarrow> mutation_status" where
  "MutationState_status MIdle = MS_Idle"
| "MutationState_status MLoading = MS_Pending"
| "MutationState_status (MSuccess d) = MS_Success"
| "MutationState_status (MError e) = MS_Error"

subsection \<open>Facts shared by the observers\<close>

lemma unwrap_eq_data: "QueryState_unwrap s = QueryState_data s"
  by (cases s) (auto split: option.split, metis QueryState_unwrap.simps(5,8) option.exhaust)

lemma success_status_has_data:
  "QueryState_status s = QS_Success \<Longrightarrow> QueryState_has_data s"
  by (cases s) (auto simp: QueryState_has_data_def)

lemma data_data_mut [simp]: "QueryState_data (QueryState_data_mut f s) = map_option f (QueryState_data s)"
  by (cases s) auto

lemma status_data_mut [simp]: "QueryState_status (QueryState_data_mut f s) = QueryState_status s"
  by (cases s) auto

end
