(* ===== verification/Query_Filters.thy ===== *)
theory Query_Filters
  imports Query_Key Query_State
begin

text \<open>
  \<open>src/filters.rs\<close>: the filters that select cached queries and mutations, their builders, the
  snapshots they are matched against and the two matching functions. User predicates are
  functions of the model.
\<close>

datatype query_type = QT_All | QT_Active | QT_Inactive

datatype refetch_type = RF_All | RF_Active | RF_Inactive | RF_None

record query_snapshot =
  qs_key :: query_key
  qs_is_active :: bool
  qs_is_stale :: bool
  qs_fetch_status :: fetch_status
  qs_status :: query_status
  qs_has_data :: bool

definition QuerySnapshot_new ::
  "query_key \<Rightarrow> bool \<Rightarrow> bool \<Rightarrow> fetch_status \<Rightarrow> query_status \<Rightarrow> bool \<Rightarrow> query_snapshot" where
  "QuerySnapshot_new key active stale fs st has_data =
     \<lparr>qs_key = key, qs_is_active = active, qs_is_stale = stale, qs_fetch_status = fs,
      qs_status = st, qs_has_data = has_data\<rparr>"

record query_filters =
  qf_query_key :: "query_key option"
  qf_exact :: bool
  qf_query_type :: query_type
  qf_stale :: bool
  qf_fetch_status :: "fetch_status option"
  qf_status :: "query_status option"
  qf_predicate :: "(query_snapshot \<Rightarrow> bool) option"

definition QueryFilters_all :: query_filters where
  "QueryFilters_all =
     \<lparr>qf_query_key = None, qf_exact = False, qf_query_type = QT_All, qf_stale = False,
      qf_fetch_status = None, qf_status = None, qf_predicate = None\<rparr>"

definition QueryFilters_with_key :: "query_key \<Rightarrow> query_filters" where
  "QueryFilters_with_key k = QueryFilters_all\<lparr>qf_query_key := Some k\<rparr>"

definition QueryFilters_exact :: "query_filters \<Rightarrow> query_filters" where
  "QueryFilters_exact f = f\<lparr>qf_exact := True\<rparr>"

definition QueryFilters_active :: "query_filters \<Rightarrow> query_filters" where
  "QueryFilters_active f = f\<lparr>qf_query_type := QT_Active\<rparr>"

definition QueryFilters_inactive :: "query_filters \<Rightarrow> query_filters" where
  "QueryFilters_inactive f = f\<lparr>qf_query_type := QT_Inactive\<rparr>"

definition QueryFilters_stale :: "query_filters \<Rightarrow> query_filters" where
  "QueryFilters_stale f = f\<lparr>qf_stale := True\<rparr>"

definition QueryFilters_fetch_status :: "fetch_status \<Rightarrow> query_filters \<Rightarrow> query_filters" where
  "QueryFilters_fetch_status s f = f\<lparr>qf_fetch_status := Some s\<rparr>"

definition QueryFilters_status :: "query_status \<Rightarrow> query_filters \<Rightarrow> query_filters" where
  "QueryFilters_status s f = f\<lparr>qf_status := Some s\<rparr>"

definition QueryFilters_predicate :: "(query_snapshot \<Rightarrow> bool) \<Rightarrow> query_filters \<Rightarrow> query_filters" where
  "QueryFilters_predicate p f = f\<lparr>qf_predicate := Some p\<rparr>"

definition is_stale_only :: "query_filters \<Rightarrow> bool" where
  "is_stale_only f = qf_stale f"

record invalidate_query_filters =
  iq_filters :: query_filters
  iq_refetch_type :: refetch_type

definition InvalidateQueryFilters_new :: invalidate_query_filters where
  "InvalidateQueryFilters_new = \<lparr>iq_filters = QueryFilters_all, iq_refetch_type = RF_Active\<rparr>"

definition InvalidateQueryFilters_filters ::
  "query_filters \<Rightarrow> invalidate_query_filters \<Rightarrow> invalidate_query_filters" where
  "InvalidateQueryFilters_filters f i = i\<lparr>iq_filters := f\<rparr>"

definition InvalidateQueryFilters_refetch_type ::
  "refetch_type \<Rightarrow> invalidate_query_filters \<Rightarrow> invalidate_query_filters" where
  "InvalidateQueryFilters_refetch_type t i = i\<lparr>iq_refetch_type := t\<rparr>"

record refetch_query_filters =
  rq_filters :: query_filters
  rq_cancel_refetch :: bool
  rq_throw_on_error :: bool

text \<open>The derived \<open>Default\<close> next to \<open>new\<close>: they differ on \<open>cancel_refetch\<close>.\<close>

definition RefetchQueryFilters_default :: refetch_query_filters where
  "RefetchQueryFilters_default =
     \<lparr>rq_filters = QueryFilters_all, rq_cancel_refetch = False, rq_throw_on_error = False\<rparr>"

definition RefetchQueryFilters_new :: refetch_query_filters where
  "RefetchQueryFilters_new =
     \<lparr>rq_filters = QueryFilters_all, rq_cancel_refetch = True, rq_throw_on_error = False\<rparr>"

definition RefetchQueryFilters_filters ::
  "query_filters \<Rightarrow> refetch_query_filters \<Rightarrow> refetch_query_filters" where
  "RefetchQueryFilters_filters f r = r\<lparr>rq_filters := f\<rparr>"

definition RefetchQueryFilters_cancel_refetch ::
  "bool \<Rightarrow> refetch_query_filters \<Rightarrow> refetch_query_filters" where
  "RefetchQueryFilters_cancel_refetch b r = r\<lparr>rq_cancel_refetch := b\<rparr>"

definition RefetchQueryFilters_throw_on_error ::
  "bool \<Rightarrow> refetch_query_filters \<Rightarrow> refetch_query_filters" where
  "RefetchQueryFilters_throw_on_error b r = r\<lparr>rq_throw_on_error := b\<rparr>"

record mutation_snapshot =
  msn_mutation_key :: "query_key option"
  msn_status :: mutation_status
  msn_is_paused :: bool

definition MutationSnapshot_new ::
  "query_key option \<Rightarrow> mutation_status \<Rightarrow> bool \<Rightarrow> mutation_snapshot" where
  "MutationSnapshot_new k s p = \<lparr>msn_mutation_key = k, msn_status = s, msn_is_paused = p\<rparr>"

record mutation_filters =
  mf_mutation_key :: "query_key option"
  mf_exact :: bool
  mf_status :: "mutation_status option"
  mf_is_paused :: "bool option"
  mf_predicate :: "(mutation_snapshot \<Rightarrow> bool) option"

definition MutationFilters_all :: mutation_filters where
  "MutationFilters_all =
     \<lparr>mf_mutation_key = None, mf_exact = False, mf_status = None, mf_is_paused = None,
      mf_predicate = None\<rparr>"

definition MutationFilters_with_key :: "query_key \<Rightarrow> mutation_filters" where
  "MutationFilters_with_key k = MutationFilters_all\<lparr>mf_mutation_key := Some k\<rparr>"

definition MutationFilters_exact :: "mutation_filters \<Rightarrow> mutation_filters" where
  "MutationFilters_exact f = f\<lparr>mf_exact := True\<rparr>"

definition MutationFilters_status :: "mutation_status \<Rightarrow> mutation_filters \<Rightarrow> mutation_filters" where
  "MutationFilters_status s f = f\<lparr>mf_status := Some s\<rparr>"

definition MutationFilters_paused :: "mutation_filters \<Rightarrow> mutation_filters" where
  "MutationFilters_paused f = f\<lparr>mf_is_paused := Some True\<rparr>"

definition MutationFilters_predicate ::
  "(mutation_snapshot \<Rightarrow> bool) \<Rightarrow> mutation_filters \<Rightarrow> mutation_filters" where
  "MutationFilters_predicate p f = f\<lparr>mf_predicate := Some p\<rparr>"

definition EMPTY_KEY :: query_key where
  "EMPTY_KEY = QueryKey_new ''''"

definition key_matches :: "query_key option \<Rightarrow> query_key \<Rightarrow> bool \<Rightarrow> bool" where
  "key_matches filter_key candidate exact =
     (case filter_key of
        None \<Rightarrow> True
      | Some f \<Rightarrow> if exact then f = candidate else QueryKey_starts_with candidate f)"

definition match_query :: "query_snapshot \<Rightarrow> query_filters \<Rightarrow> bool" where
  "match_query snapshot filters =
     (case qf_predicate filters of
        Some p \<Rightarrow> p snapshot
      | None \<Rightarrow>
          if \<not> key_matches (qf_query_key filters) (qs_key snapshot) (qf_exact filters) then False
          else if qf_query_type filters = QT_Active \<and> \<not> qs_is_active snapshot then False
          else if qf_query_type filters = QT_Inactive \<and> qs_is_active snapshot then False
          else if qf_stale filters \<and> \<not> qs_is_stale snapshot then False
          else if (case qf_fetch_status filters of None \<Rightarrow> False
                   | Some fs \<Rightarrow> qs_fetch_status snapshot \<noteq> fs) then False
          else if (case qf_status filters of None \<Rightarrow> False
                   | Some st \<Rightarrow> qs_status snapshot \<noteq> st) then False
          else True)"

definition match_mutation :: "mutation_snapshot \<Rightarrow> mutation_filters \<Rightarrow> bool" where
  "match_mutation snapshot filters =
     (case mf_predicate filters of
        Some p \<Rightarrow> p snapshot
      | None \<Rightarrow>
          if \<not> key_matches (mf_mutation_key filters)
                (case msn_mutation_key snapshot of None \<Rightarrow> EMPTY_KEY | Some k \<Rightarrow> k)
                (mf_exact filters) then False
          else if (case mf_status filters of None \<Rightarrow> False
                   | Some st \<Rightarrow> msn_status snapshot \<noteq> st) then False
          else if (case mf_is_paused filters of None \<Rightarrow> False
                   | Some p \<Rightarrow> msn_is_paused snapshot \<noteq> p) then False
          else True)"

lemma match_query_all [simp]: "match_query s QueryFilters_all"
  by (simp add: match_query_def QueryFilters_all_def key_matches_def)

lemma match_query_with_key:
  "match_query s (QueryFilters_with_key k) = QueryKey_starts_with (qs_key s) k"
  by (simp add: match_query_def QueryFilters_with_key_def QueryFilters_all_def key_matches_def)

lemma match_query_exact_key:
  "match_query s (QueryFilters_exact (QueryFilters_with_key k)) = (qs_key s = k)"
  by (auto simp: match_query_def QueryFilters_with_key_def QueryFilters_all_def
      QueryFilters_exact_def key_matches_def)

lemma match_mutation_all [simp]: "match_mutation s MutationFilters_all"
  by (simp add: match_mutation_def MutationFilters_all_def key_matches_def)

end
