(* ===== verification/Network.thy ===== *)
theory Network
  imports Prelude
begin

text \<open>
  \<open>src/watch.rs\<close> (the version-counted watch cell), \<open>src/network.rs\<close> (network modes and the
  online manager built on it) and \<open>src/focus_manager.rs\<close>. A waker is represented by the id of
  the watcher that registered it; \<open>Watch_send\<close> returns the ids it wakes. The version is a
  64-bit counter bumped once per write and is kept as a natural number.
\<close>

subsection \<open>Watch cells\<close>

record 'a watch =
  w_value :: 'a
  w_version :: nat
  w_alive :: bool
  w_next_id :: nat
  w_waiters :: "nat list"

record watcher =
  wr_last_seen :: nat
  wr_id :: nat

definition Watch_new :: "'a \<Rightarrow> 'a watch \<times> watcher" where
  "Watch_new initial =
     (\<lparr>w_value = initial, w_version = 0, w_alive = True, w_next_id = 2, w_waiters = []\<rparr>,
      \<lparr>wr_last_seen = 0, wr_id = 1\<rparr>)"

definition Watch_subscribe :: "'a watch \<Rightarrow> 'a watch \<times> watcher" where
  "Watch_subscribe w =
     (w\<lparr>w_next_id := w_next_id w + 1\<rparr>,
      \<lparr>wr_last_seen = w_version w, wr_id = w_next_id w\<rparr>)"

definition Watch_send :: "'a \<Rightarrow> 'a watch \<Rightarrow> 'a watch \<times> nat list" where
  "Watch_send v w =
     (w\<lparr>w_value := v, w_version := w_version w + 1, w_waiters := []\<rparr>, w_waiters w)"

definition Watcher_borrow :: "'a watch \<Rightarrow> watcher \<Rightarrow> watcher \<times> 'a" where
  "Watcher_borrow w r = (r\<lparr>wr_last_seen := w_version w\<rparr>, w_value w)"

definition Watcher_peek :: "'a watch \<Rightarrow> watcher \<Rightarrow> 'a" where
  "Watcher_peek w r = w_value w"

definition Watcher_has_changed :: "'a watch \<Rightarrow> watcher \<Rightarrow> bool" where
  "Watcher_has_changed w r = (w_alive w \<and> w_version w \<noteq> wr_last_seen r)"

definition Watcher_clone :: "'a watch \<Rightarrow> watcher \<Rightarrow> 'a watch \<times> watcher" where
  "Watcher_clone w r =
     (w\<lparr>w_next_id := w_next_id w + 1\<rparr>, \<lparr>wr_last_seen = wr_last_seen r, wr_id = w_next_id w\<rparr>)"

datatype change_poll = ChangedOk | ChangeError | ChangePending

text \<open>\<open>Changed::poll\<close>: \<open>waiters.insert(id, waker)\<close> replaces an earlier registration.\<close>

definition Changed_poll :: "'a watch \<Rightarrow> watcher \<Rightarrow> change_poll \<times> 'a watch \<times> watcher" where
  "Changed_poll w r =
     (if w_version w \<noteq> wr_last_seen r then (ChangedOk, w, r\<lparr>wr_last_seen := w_version w\<rparr>)
      else if \<not> w_alive w then (ChangeError, w, r)
      else (ChangePending, w\<lparr>w_waiters := List.insert (wr_id r) (w_waiters w)\<rparr>, r))"

subsection \<open>Network modes\<close>

datatype network_mode = Online | Always | OfflineFirst

fun can_fetch :: "network_mode \<Rightarrow> bool \<Rightarrow> bool" where
  "can_fetch Online online = online"
| "can_fetch Always online = True"
| "can_fetch OfflineFirst online = True"

fun can_retry :: "network_mode \<Rightarrow> bool \<Rightarrow> bool" where
  "can_retry Online online = online"
| "can_retry OfflineFirst online = online"
| "can_retry Always online = True"

record online_manager =
  om_online :: bool
  om_tx :: "bool watch"

definition OnlineManager_new :: online_manager where
  "OnlineManager_new = \<lparr>om_online = True, om_tx = fst (Watch_new True)\<rparr>"

definition OnlineManager_is_online :: "online_manager \<Rightarrow> bool" where
  "OnlineManager_is_online m = om_online m"

definition OnlineManager_set_online :: "bool \<Rightarrow> online_manager \<Rightarrow> online_manager" where
  "OnlineManager_set_online b m =
     (if OnlineManager_is_online m \<noteq> b
      then m\<lparr>om_online := b, om_tx := fst (Watch_send b (om_tx m))\<rparr>
      else m)"

definition OnlineManager_subscribe :: "online_manager \<Rightarrow> online_manager \<times> watcher" where
  "OnlineManager_subscribe m =
     (let (tx, r) = Watch_subscribe (om_tx m) in (m\<lparr>om_tx := tx\<rparr>, r))"

subsection \<open>Focus manager\<close>

record focus_manager =
  fm_focused :: bool

definition FocusManager_new :: focus_manager where
  "FocusManager_new = \<lparr>fm_focused = True\<rparr>"

definition FocusManager_is_focused :: "focus_manager \<Rightarrow> bool" where
  "FocusManager_is_focused m = fm_focused m"

definition FocusManager_set_focused :: "bool \<Rightarrow> focus_manager \<Rightarrow> focus_manager" where
  "FocusManager_set_focused b m = m\<lparr>fm_focused := b\<rparr>"

subsection \<open>The watch cell never loses a change\<close>

lemma can_retry_can_fetch: "can_retry m b \<Longrightarrow> can_fetch m b"
  by (cases m) auto

text \<open>A watcher never claims to have seen a version the cell has not reached.\<close>

definition watch_ok :: "'a watch \<Rightarrow> watcher \<Rightarrow> bool" where
  "watch_ok w r \<longleftrightarrow> wr_last_seen r \<le> w_version w"

text \<open>A sequence of writes; the last one wins.\<close>

definition send_all :: "'a list \<Rightarrow> 'a watch \<Rightarrow> 'a watch" where
  "send_all vs w = fold (\<lambda>v w. fst (Watch_send v w)) vs w"

lemma send_all_Cons [simp]: "send_all (v # vs) w = send_all vs (fst (Watch_send v w))"
  by (simp add: send_all_def)

lemma send_all_Nil [simp]: "send_all [] w = w"
  by (simp add: send_all_def)

lemma send_all_version: "w_version (send_all vs w) = w_version w + length vs"
  by (induction vs arbitrary: w) (auto simp: Watch_send_def)

lemma send_all_alive: "w_alive (send_all vs w) = w_alive w"
  by (induction vs arbitrary: w) (auto simp: Watch_send_def)

lemma send_all_value: "w_value (send_all vs w) = (if vs = [] then w_value w else last vs)"
  by (induction vs arbitrary: w) (auto simp: Watch_send_def)

text \<open>
  The watch cell is a coalescing, loss-free change signal. When \<open>changed()\<close> parks a
  watcher, the watcher is registered, the first write that follows wakes it, and after any
  non-empty burst of writes its next poll resolves exactly once with \<open>Ok\<close>: the poll after
  that parks again, and \<open>borrow\<close> reads the last value written.
\<close>

theorem watch_changed_loss_free:
  assumes parked: "Changed_poll w r = (ChangePending, w', r')"
    and burst: "vs \<noteq> []"
  shows "wr_id r \<in> set (snd (Watch_send (hd vs) w'))
     \<and> (\<exists>r2. Changed_poll (send_all vs w') r' = (ChangedOk, send_all vs w', r2)
          \<and> (\<exists>w3. Changed_poll (send_all vs w') r2 = (ChangePending, w3, r2))
          \<and> snd (Watcher_borrow (send_all vs w') r2) = last vs)"
proof (intro conjI)
  from parked have eq: "w_version w = wr_last_seen r" "w_alive w"
    and w': "w' = w\<lparr>w_waiters := List.insert (wr_id r) (w_waiters w)\<rparr>" and r': "r' = r"
    by (auto simp: Changed_poll_def split: if_splits)
  then show "wr_id r \<in> set (snd (Watch_send (hd vs) w'))"
    by (simp add: Watch_send_def)
  have "0 < length vs" using burst by simp
  then have "w_version (send_all vs w') \<noteq> wr_last_seen r'" and "w_alive (send_all vs w')"
    using eq w' r' by (simp_all add: send_all_version send_all_alive)
  then show "\<exists>r2. Changed_poll (send_all vs w') r' = (ChangedOk, send_all vs w', r2)
          \<and> (\<exists>w3. Changed_poll (send_all vs w') r2 = (ChangePending, w3, r2))
          \<and> snd (Watcher_borrow (send_all vs w') r2) = last vs"
    using burst by (auto simp: Changed_poll_def Watcher_borrow_def send_all_value)
qed

text \<open>A watcher parked on a fresh connectivity cell, then two writes.\<close>

theorem watch_changed_loss_free_witness:
  "\<exists>w r w' r'. Changed_poll (w::bool watch) r = (ChangePending, w', r')
     \<and> wr_id r \<in> set (snd (Watch_send False w'))
     \<and> snd (Watcher_borrow (send_all [False, True] w') r') = True"
proof -
  let ?w = "fst (Watch_new True)" and ?r = "snd (Watch_new True)"
  have park: "Changed_poll ?w ?r = (ChangePending, ?w\<lparr>w_waiters := [1]\<rparr>, ?r)"
    by (simp add: Changed_poll_def Watch_new_def)
  show ?thesis
    using park watch_changed_loss_free [OF park, of "[False, True]"]
    by (auto simp: Watcher_borrow_def)
qed

end
