(* ===== verification/Query_Options.thy ===== *)
theory Query_Options
  imports Network
begin

text \<open>
  \<open>src/options.rs\<close>: retry configuration and its delay curve, placeholder data, refetch
  triggers, the query option record with its defaults and builder methods, and
  \<open>is_stale_by_time\<close>. A boxed closure of the source is a HOL function; \<open>enabled_fn\<close> is the
  answer the closure gives when the operation at hand calls it.
\<close>

definition DEFAULT_GC_TIME :: duration where
  "DEFAULT_GC_TIME = from_secs 300"

definition MAX_RETRY_DELAY :: duration where
  "MAX_RETRY_DELAY = from_secs 30"

definition BASE_RETRY_DELAY :: duration where
  "BASE_RETRY_DELAY = from_millis 1000"

subsection \<open>Retry configuration\<close>

record retry_config =
  max_retries :: nat
  base_delay :: duration
  exponential_backoff :: bool
  max_delay :: duration

definition RetryConfig_default :: retry_config where
  "RetryConfig_default =
     \<lparr>max_retries = 3, base_delay = BASE_RETRY_DELAY, exponential_backoff = True,
      max_delay = MAX_RETRY_DELAY\<rparr>"

definition RetryConfig_new :: "nat \<Rightarrow> retry_config" where
  "RetryConfig_new n =
     \<lparr>max_retries = n, base_delay = BASE_RETRY_DELAY, exponential_backoff = True,
      max_delay = MAX_RETRY_DELAY\<rparr>"

definition RetryConfig_base_delay :: "duration \<Rightarrow> retry_config \<Rightarrow> retry_config" where
  "RetryConfig_base_delay d c = c\<lparr>base_delay := d\<rparr>"

definition RetryConfig_exponential_backoff :: "bool \<Rightarrow> retry_config \<Rightarrow> retry_config" where
  "RetryConfig_exponential_backoff b c = c\<lparr>exponential_backoff := b\<rparr>"

definition RetryConfig_max_delay :: "duration \<Rightarrow> retry_config \<Rightarrow> retry_config" where
  "RetryConfig_max_delay d c = c\<lparr>max_delay := d\<rparr>"

definition delay_for_attempt :: "retry_config \<Rightarrow> nat \<Rightarrow> duration" where
  "delay_for_attempt c attempt =
     (if exponential_backoff c then
        let multiplier = sat32 (2 ^ attempt);
            delay = duration_saturating_mul (base_delay c) multiplier
        in min delay (max_delay c)
      else min (base_delay c) (max_delay c))"

definition RetryConfig_should_retry :: "retry_config \<Rightarrow> nat \<Rightarrow> bool" where
  "RetryConfig_should_retry c attempt = (attempt < max_retries c)"

subsection \<open>Placeholder data\<close>

datatype 'a placeholder_data = PValue 'a | PFunction "'a option \<Rightarrow> 'a"

text \<open>\<open>keep_previous\<close> takes the \<open>Default\<close> value of the data type as its argument.\<close>

definition PlaceholderData_keep_previous :: "'a \<Rightarrow> 'a placeholder_data" where
  "PlaceholderData_keep_previous dflt =
     PFunction (\<lambda>previous. case previous of Some d \<Rightarrow> d | None \<Rightarrow> dflt)"

fun PlaceholderData_resolve :: "'a placeholder_data \<Rightarrow> 'a option \<Rightarrow> 'a" where
  "PlaceholderData_resolve (PValue v) previous = v"
| "PlaceholderData_resolve (PFunction f) previous = f previous"

subsection \<open>Refetch triggers\<close>

datatype refetch_trigger = RT_Enabled | RT_Disabled | RT_Always

fun allows_refetch :: "refetch_trigger \<Rightarrow> bool \<Rightarrow> bool" where
  "allows_refetch RT_Enabled stale = stale"
| "allows_refetch RT_Disabled stale = False"
| "allows_refetch RT_Always stale = True"

definition RefetchTrigger_is_enabled :: "refetch_trigger \<Rightarrow> bool" where
  "RefetchTrigger_is_enabled t = (t \<noteq> RT_Disabled)"

subsection \<open>Query options\<close>

record query_options =
  stale_time :: duration
  stale_time_static :: bool
  gc_time :: duration
  retry :: retry_config
  enabled :: bool
  enabled_fn :: "(unit \<Rightarrow> bool) option"
  refetch_on_window_focus :: refetch_trigger
  refetch_on_reconnect :: refetch_trigger
  refetch_on_mount :: refetch_trigger
  refetch_interval :: duration
  refetch_interval_in_background :: bool
  structural_sharing :: bool
  net_mode :: network_mode
  retry_on_mount :: bool
  throw_on_error :: bool
  notify_on_change_props :: "string list option"
  meta :: "(string, string) dashmap"

definition QueryOptions_default :: query_options where
  "QueryOptions_default =
     \<lparr>stale_time = 0, stale_time_static = False, gc_time = DEFAULT_GC_TIME,
      retry = RetryConfig_default, enabled = True, enabled_fn = None,
      refetch_on_window_focus = RT_Enabled, refetch_on_reconnect = RT_Enabled,
      refetch_on_mount = RT_Enabled, refetch_interval = 0,
      refetch_interval_in_background = False, structural_sharing = True, net_mode = Online,
      retry_on_mount = True, throw_on_error = False, notify_on_change_props = None, meta = []\<rparr>"

definition QueryOptions_stale_time :: "duration \<Rightarrow> query_options \<Rightarrow> query_options" where
  "QueryOptions_stale_time d opts = opts\<lparr>stale_time := d, stale_time_static := False\<rparr>"

definition QueryOptions_stale_time_static :: "query_options \<Rightarrow> query_options" where
  "QueryOptions_stale_time_static opts = opts\<lparr>stale_time_static := True\<rparr>"

definition QueryOptions_gc_time :: "duration \<Rightarrow> query_options \<Rightarrow> query_options" where
  "QueryOptions_gc_time d opts = opts\<lparr>gc_time := d\<rparr>"

definition QueryOptions_retry :: "retry_config \<Rightarrow> query_options \<Rightarrow> query_options" where
  "QueryOptions_retry c opts = opts\<lparr>retry := c\<rparr>"

definition QueryOptions_enabled :: "bool \<Rightarrow> query_options \<Rightarrow> query_options" where
  "QueryOptions_enabled b opts = opts\<lparr>enabled := b\<rparr>"

definition QueryOptions_enabled_fn :: "(unit \<Rightarrow> bool) \<Rightarrow> query_options \<Rightarrow> query_options" where
  "QueryOptions_enabled_fn f opts = opts\<lparr>enabled_fn := Some f\<rparr>"

definition QueryOptions_is_enabled :: "query_options \<Rightarrow> bool" where
  "QueryOptions_is_enabled opts =
     (enabled opts \<and> (case enabled_fn opts of None \<Rightarrow> True | Some f \<Rightarrow> f ()))"

definition QueryOptions_refetch_on_window_focus ::
  "refetch_trigger \<Rightarrow> query_options \<Rightarrow> query_options" where
  "QueryOptions_refetch_on_window_focus t opts = opts\<lparr>refetch_on_window_focus := t\<rparr>"

definition QueryOptions_refetch_on_reconnect ::
  "refetch_trigger \<Rightarrow> query_options \<Rightarrow> query_options" where
  "QueryOptions_refetch_on_reconnect t opts = opts\<lparr>refetch_on_reconnect := t\<rparr>"

definition QueryOptions_refetch_on_mount ::
  "refetch_trigger \<Rightarrow> query_options \<Rightarrow> query_options" where
  "QueryOptions_refetch_on_mount t opts = opts\<lparr>refetch_on_mount := t\<rparr>"

definition QueryOptions_refetch_interval :: "duration \<Rightarrow> query_options \<Rightarrow> query_options" where
  "QueryOptions_refetch_interval d opts = opts\<lparr>refetch_interval := d\<rparr>"

definition QueryOptions_refetch_interval_in_background ::
  "bool \<Rightarrow> query_options \<Rightarrow> query_options" where
  "QueryOptions_refetch_interval_in_background b opts =
     opts\<lparr>refetch_interval_in_background := b\<rparr>"

definition QueryOptions_structural_sharing :: "bool \<Rightarrow> query_options \<Rightarrow> query_options" where
  "QueryOptions_structural_sharing b opts = opts\<lparr>structural_sharing := b\<rparr>"

definition QueryOptions_network_mode :: "network_mode \<Rightarrow> query_options \<Rightarrow> query_options" where
  "QueryOptions_network_mode m opts = opts\<lparr>net_mode := m\<rparr>"

definition QueryOptions_retry_on_mount :: "bool \<Rightarrow> query_options \<Rightarrow> query_options" where
  "QueryOptions_retry_on_mount b opts = opts\<lparr>retry_on_mount := b\<rparr>"

definition QueryOptions_throw_on_error :: "bool \<Rightarrow> query_options \<Rightarrow> query_options" where
  "QueryOptions_throw_on_error b opts = opts\<lparr>throw_on_error := b\<rparr>"

definition QueryOptions_notify_on_change_props ::
  "string list \<Rightarrow> query_options \<Rightarrow> query_options" where
  "QueryOptions_notify_on_change_props ps opts = opts\<lparr>notify_on_change_props := Some ps\<rparr>"

definition QueryOptions_meta :: "string \<Rightarrow> string \<Rightarrow> query_options \<Rightarrow> query_options" where
  "QueryOptions_meta k v opts = opts\<lparr>meta := dm_insert k v (meta opts)\<rparr>"

definition is_stale_by_time :: "instant \<Rightarrow> query_options \<Rightarrow> instant \<Rightarrow> bool" where
  "is_stale_by_time now opts fetched_at =
     (if stale_time_static opts then False
      else if stale_time opts = 0 then False
      else elapsed now fetched_at > stale_time opts)"

subsection \<open>Delay curve\<close>

lemma delay_for_attempt_le_max: "delay_for_attempt c n \<le> max_delay c"
  by (simp add: delay_for_attempt_def Let_def)

lemma delay_for_attempt_mono: "m \<le> n \<Longrightarrow> delay_for_attempt c m \<le> delay_for_attempt c n"
proof (cases "exponential_backoff c")
  case True
  assume "m \<le> n"
  then have "(2::nat) ^ m \<le> 2 ^ n" by (simp add: power_increasing)
  then have "sat32 (2 ^ m) \<le> sat32 (2 ^ n)"
    unfolding sat32_def by (rule min.mono) simp
  then have "base_delay c * sat32 (2 ^ m) \<le> base_delay c * sat32 (2 ^ n)"
    by (rule mult_le_mono2)
  then have "duration_saturating_mul (base_delay c) (sat32 (2 ^ m))
             \<le> duration_saturating_mul (base_delay c) (sat32 (2 ^ n))"
    unfolding duration_saturating_mul_def by (rule min.mono) simp
  then show ?thesis
    using True unfolding delay_for_attempt_def Let_def by (simp add: min.coboundedI1)
next
  case False
  then show ?thesis by (simp add: delay_for_attempt_def)
qed

text \<open>The shortest configured delay is reached at attempt zero.\<close>

lemma delay_for_attempt_0:
  "base_delay c \<le> DURATION_MAX \<Longrightarrow> delay_for_attempt c 0 = min (base_delay c) (max_delay c)"
  by (simp add: delay_for_attempt_def Let_def sat32_def u32_max_def duration_saturating_mul_def)

end
