(* ===== verification/Infinite_Data.thy ===== *)
theory Infinite_Data
  imports Query_Options Query_Key
begin

text \<open>
  The data part of \<open>src/infinite.rs\<close> and the type-erased values of the cache. A cached value is
  \<open>Arc<dyn PartialEqAny>\<close> in the code; here it is a value of the universe \<open>'v dynval\<close> together
  with its \<open>TypeId\<close>: strings (the type the hydration and persistence layers treat specially),
  values of any other plain type (numbered), and \<open>InfiniteData<T, P>\<close> pages. A downcast succeeds
  exactly when the stored value has the requested type. \<open>PartialEq\<close> of user types is a parameter.
\<close>

subsection \<open>Infinite data\<close>

record 'v infinite_data =
  pages :: "'v list"
  page_params :: "'v list"

definition InfiniteData_new :: "'v infinite_data" where
  "InfiniteData_new = \<lparr>pages = [], page_params = []\<rparr>"

text \<open>The \<open>PartialEq\<close> of infinite data over those of pages and parameters.\<close>

definition InfiniteData_eq ::
  "('v \<Rightarrow> 'v \<Rightarrow> bool) \<Rightarrow> ('v \<Rightarrow> 'v \<Rightarrow> bool) \<Rightarrow> 'v infinite_data \<Rightarrow> 'v infinite_data \<Rightarrow> bool" where
  "InfiniteData_eq teq peq self other \<longleftrightarrow>
     list_all2 teq (pages self) (pages other) \<and> list_all2 peq (page_params self) (page_params other)"

lemma InfiniteData_eq_identity [simp]: "InfiniteData_eq (=) (=) d d' \<longleftrightarrow> d = d'"
  by (cases d; cases d') (simp add: InfiniteData_eq_def list.rel_eq)

definition with_first_page :: "'v \<Rightarrow> 'v \<Rightarrow> 'v infinite_data" where
  "with_first_page page param = \<lparr>pages = [page], page_params = [param]\<rparr>"

definition push_page :: "'v \<Rightarrow> 'v \<Rightarrow> 'v infinite_data \<Rightarrow> 'v infinite_data" where
  "push_page page param d = \<lparr>pages = pages d @ [page], page_params = page_params d @ [param]\<rparr>"

definition page_count :: "'v infinite_data \<Rightarrow> nat" where
  "page_count d = length (pages d)"

definition last_page :: "'v infinite_data \<Rightarrow> 'v option" where
  "last_page d = (if pages d = [] then None else Some (last (pages d)))"

definition first_page :: "'v infinite_data \<Rightarrow> 'v option" where
  "first_page d = (case pages d of [] \<Rightarrow> None | p # ps \<Rightarrow> Some p)"

text \<open>\<open>while pages.len() > max { pages.remove(0); page_params.remove(0); }\<close>: \<open>Vec::remove\<close> panics
  (\<open>None\<close>) when the parameters run out before the pages do.\<close>

function trim_front :: "nat \<Rightarrow> 'v infinite_data \<Rightarrow> 'v infinite_data option" where
  "trim_front mx d =
     (if length (pages d) > mx then
        (case page_params d of
           [] \<Rightarrow> None
         | p # ps \<Rightarrow> trim_front mx \<lparr>pages = tl (pages d), page_params = ps\<rparr>)
      else Some d)"
  by auto
termination by (relation "measure (\<lambda>(mx, d). length (pages d))") auto

declare trim_front.simps [simp del]

text \<open>\<open>while pages.len() > max { pages.pop(); page_params.pop(); }\<close>: \<open>Vec::pop\<close> does not panic.\<close>

function trim_back :: "nat \<Rightarrow> 'v infinite_data \<Rightarrow> 'v infinite_data" where
  "trim_back mx d =
     (if length (pages d) > mx then
        trim_back mx \<lparr>pages = butlast (pages d), page_params = butlast (page_params d)\<rparr>
      else d)"
  by auto
termination by (relation "measure (\<lambda>(mx, d). length (pages d))") auto

declare trim_back.simps [simp del]

definition inf_wf :: "'v infinite_data \<Rightarrow> bool" where
  "inf_wf d \<longleftrightarrow> length (pages d) = length (page_params d)"

lemma trim_front_last_n:
  "inf_wf d \<Longrightarrow>
   trim_front mx d = Some \<lparr>pages = last_n mx (pages d), page_params = last_n mx (page_params d)\<rparr>"
proof (induction mx d rule: trim_front.induct)
  case (1 mx d)
  show ?case
  proof (cases "length (pages d) > mx")
    case False
    then show ?thesis
      using "1.prems" by (simp add: trim_front.simps [of mx d] last_n_all inf_wf_def)
  next
    case True
    then obtain q qs p ps where e: "pages d = q # qs" "page_params d = p # ps"
      using "1.prems" by (cases "pages d"; cases "page_params d") (auto simp: inf_wf_def)
    have len: "mx \<le> length qs" "mx \<le> length ps" using "1.prems" True e by (auto simp: inf_wf_def)
    have "trim_front mx d = trim_front mx \<lparr>pages = qs, page_params = ps\<rparr>"
      using True e by (subst trim_front.simps) simp
    also have "\<dots> = Some \<lparr>pages = last_n mx qs, page_params = last_n mx ps\<rparr>"
      using "1.IH" [OF True e(2)] "1.prems" e by (simp add: inf_wf_def)
    finally show ?thesis using len e by (simp add: last_n_Cons)
  qed
qed

lemma trim_back_take:
  "inf_wf d \<Longrightarrow>
   trim_back mx d = \<lparr>pages = take mx (pages d), page_params = take mx (page_params d)\<rparr>"
proof (induction mx d rule: trim_back.induct)
  case (1 mx d)
  show ?case
  proof (cases "length (pages d) > mx")
    case False
    then show ?thesis using "1.prems" by (simp add: trim_back.simps [of mx d] inf_wf_def)
  next
    case True
    then show ?thesis
      using "1.IH" [OF True] "1.prems"
      by (subst trim_back.simps) (simp add: inf_wf_def take_butlast)
  qed
qed

subsection \<open>Infinite queries\<close>

text \<open>The fetch function of the code is supplied per execution by the environment of the
  executor model, so the record has every other field.\<close>

record 'v infinite_query =
  iq_key :: query_key
  initial_page_param :: 'v
  iq_get_next_page_param :: "('v \<Rightarrow> 'v list \<Rightarrow> 'v option) option"
  iq_get_previous_page_param :: "('v \<Rightarrow> 'v list \<Rightarrow> 'v option) option"
  iq_max_pages :: "nat option"
  iq_options :: query_options

definition InfiniteQuery_new :: "query_key \<Rightarrow> 'v \<Rightarrow> 'v infinite_query" where
  "InfiniteQuery_new key param =
     \<lparr>iq_key = key, initial_page_param = param, iq_get_next_page_param = None,
      iq_get_previous_page_param = None, iq_max_pages = None, iq_options = QueryOptions_default\<rparr>"

definition InfiniteQuery_get_next_page_param ::
  "('v \<Rightarrow> 'v list \<Rightarrow> 'v option) \<Rightarrow> 'v infinite_query \<Rightarrow> 'v infinite_query" where
  "InfiniteQuery_get_next_page_param f q = q\<lparr>iq_get_next_page_param := Some f\<rparr>"

definition InfiniteQuery_get_previous_page_param ::
  "('v \<Rightarrow> 'v list \<Rightarrow> 'v option) \<Rightarrow> 'v infinite_query \<Rightarrow> 'v infinite_query" where
  "InfiniteQuery_get_previous_page_param f q = q\<lparr>iq_get_previous_page_param := Some f\<rparr>"

definition InfiniteQuery_max_pages :: "nat \<Rightarrow> 'v infinite_query \<Rightarrow> 'v infinite_query" where
  "InfiniteQuery_max_pages n q = q\<lparr>iq_max_pages := Some n\<rparr>"

definition InfiniteQuery_options :: "query_options \<Rightarrow> 'v infinite_query \<Rightarrow> 'v infinite_query" where
  "InfiniteQuery_options opts q = q\<lparr>iq_options := opts\<rparr>"

definition has_next_page :: "'v infinite_query \<Rightarrow> 'v infinite_data option \<Rightarrow> bool" where
  "has_next_page q data =
     (case data of None \<Rightarrow> False
      | Some d \<Rightarrow> (case iq_get_next_page_param q of None \<Rightarrow> False
         | Some f \<Rightarrow> (case last_page d of None \<Rightarrow> False | Some p \<Rightarrow> f p (pages d) \<noteq> None)))"

definition has_previous_page :: "'v infinite_query \<Rightarrow> 'v infinite_data option \<Rightarrow> bool" where
  "has_previous_page q data =
     (case data of None \<Rightarrow> False
      | Some d \<Rightarrow> (case iq_get_previous_page_param q of None \<Rightarrow> False
         | Some f \<Rightarrow> (case first_page d of None \<Rightarrow> False | Some p \<Rightarrow> f p (pages d) \<noteq> None)))"

subsection \<open>Type-erased values\<close>

datatype type_id = T_String | T_Other nat | T_Infinite nat nat

datatype 'v dynval = StrV string | OtherV nat 'v | InfV nat nat "'v infinite_data"

fun value_type :: "'v dynval \<Rightarrow> type_id" where
  "value_type (StrV s) = T_String"
| "value_type (OtherV t v) = T_Other t"
| "value_type (InfV t p d) = T_Infinite t p"

text \<open>\<open>as_any().downcast_ref::<T>()\<close>.\<close>

definition downcast :: "type_id \<Rightarrow> 'v dynval \<Rightarrow> 'v dynval option" where
  "downcast ty v = (if value_type v = ty then Some v else None)"

text \<open>\<open>eq_any\<close> over the \<open>PartialEq\<close> \<open>peq\<close> of the values' own types.\<close>

definition eq_any :: "('v dynval \<Rightarrow> 'v dynval \<Rightarrow> bool) \<Rightarrow> 'v dynval \<Rightarrow> 'v dynval \<Rightarrow> bool" where
  "eq_any peq self other =
     (case downcast (value_type self) other of None \<Rightarrow> False | Some o' \<Rightarrow> peq o' self)"

lemma downcast_Some [simp]: "downcast ty v = Some w \<longleftrightarrow> w = v \<and> value_type v = ty"
  by (auto simp: downcast_def)

end
