(* ===== verification/Broadcast_Bus.thy ===== *)
theory Broadcast_Bus
  imports Prelude
begin

text \<open>
  The bounded broadcast channel of \<open>bus.rs\<close>. The state behind the shared mutex is the record
  \<open>bus\<close>; one operation under the lock is one function on it. A task's waker is a number, and an
  operation that wakes tasks returns the list of wakers it took. Sequence numbers and miss
  counters are natural numbers (they are \<open>u64\<close> in the code and only ever incremented).

  The lemmas relate the queues to the stream of sent values: what a receiver observes explains
  a prefix of the stream, a lag notice stands for exactly the values that were dropped, and the
  sender count tracks the live handles (except through \<open>Receiver::clone\<close>).
\<close>

subsection \<open>State and operations\<close>

datatype recv_error = RE_Closed | RE_Lagged nat

datatype try_recv_error = TE_Empty | TE_Closed | TE_Lagged nat

record 'a recv_state =
  rs_queue :: "'a list"
  rs_waker :: "nat option"
  rs_missed :: nat
  rs_alive :: bool

record 'a bus =
  capacity :: nat
  next_id :: nat
  senders_alive :: bool
  sender_count :: nat
  receivers :: "(nat, 'a recv_state) dashmap"

definition fresh_recv :: "'a recv_state" where
  "fresh_recv = \<lparr>rs_queue = [], rs_waker = None, rs_missed = 0, rs_alive = True\<rparr>"

definition Sender_channel :: "nat \<Rightarrow> 'a bus \<times> nat" where
  "Sender_channel cap =
     (\<lparr>capacity = max cap 1, next_id = 1, senders_alive = True, sender_count = 1,
       receivers = dm_insert 0 fresh_recv []\<rparr>, 0)"

definition Sender_subscribe :: "'a bus \<Rightarrow> 'a bus \<times> nat" where
  "Sender_subscribe b =
     (b\<lparr>next_id := next_id b + 1, receivers := dm_insert (next_id b) fresh_recv (receivers b)\<rparr>,
      next_id b)"

text \<open>The body of the loop of \<open>Sender::send\<close> for one receiver.\<close>

definition send_state :: "nat \<Rightarrow> 'a \<Rightarrow> 'a recv_state \<Rightarrow> 'a recv_state" where
  "send_state cap v s =
     (if \<not> rs_alive s then s
      else s\<lparr>rs_missed := (if cap \<le> length (rs_queue s) then rs_missed s + 1 else rs_missed s),
             rs_queue := push_bounded cap (rs_queue s) v,
             rs_waker := None\<rparr>)"

definition waker_list :: "'a recv_state \<Rightarrow> nat list" where
  "waker_list s = (case rs_waker s of None \<Rightarrow> [] | Some w \<Rightarrow> [w])"

definition send_wakers :: "'a bus \<Rightarrow> nat list" where
  "send_wakers b =
     concat (map (waker_list \<circ> snd) (filter (\<lambda>p. rs_alive (snd p)) (receivers b)))"

definition Sender_send :: "'a \<Rightarrow> 'a bus \<Rightarrow> 'a bus \<times> nat list" where
  "Sender_send v b =
     (b\<lparr>receivers := map (\<lambda>(i, s). (i, send_state (capacity b) v s)) (receivers b)\<rparr>, send_wakers b)"

definition receiver_count :: "'a bus \<Rightarrow> nat" where
  "receiver_count b = length (filter (\<lambda>(i, s). rs_alive s) (receivers b))"

definition Sender_clone :: "'a bus \<Rightarrow> 'a bus" where
  "Sender_clone b = b\<lparr>sender_count := sender_count b + 1\<rparr>"

definition all_wakers :: "'a bus \<Rightarrow> nat list" where
  "all_wakers b = concat (map (waker_list \<circ> snd) (receivers b))"

definition Sender_drop :: "'a bus \<Rightarrow> 'a bus \<times> nat list" where
  "Sender_drop b =
     (let b' = b\<lparr>sender_count := sender_count b - 1\<rparr>
      in if sender_count b' = 0
         then (b'\<lparr>senders_alive := False,
                  receivers := map (\<lambda>(i, s). (i, s\<lparr>rs_waker := None\<rparr>)) (receivers b)\<rparr>,
               all_wakers b)
         else (b', []))"

text \<open>\<open>poll_state\<close> on the state of one registered receiver.\<close>

definition poll_recv ::
  "bool \<Rightarrow> nat option \<Rightarrow> 'a recv_state \<Rightarrow> (try_recv_error, 'a) result \<times> 'a recv_state" where
  "poll_recv alive waker s =
     (if rs_missed s > 0 then (Inl (TE_Lagged (rs_missed s)), s\<lparr>rs_missed := 0\<rparr>)
      else case rs_queue s of
             v # q \<Rightarrow> (Inr v, s\<lparr>rs_queue := q\<rparr>)
           | [] \<Rightarrow>
               if \<not> alive then (Inl TE_Closed, s\<lparr>rs_alive := False\<rparr>)
               else (Inl TE_Empty, case waker of None \<Rightarrow> s | Some w \<Rightarrow> s\<lparr>rs_waker := Some w\<rparr>))"

definition poll_state ::
  "nat \<Rightarrow> nat option \<Rightarrow> 'a bus \<Rightarrow> (try_recv_error, 'a) result \<times> 'a bus" where
  "poll_state i waker b =
     (case dm_get (receivers b) i of
        None \<Rightarrow> (Inl TE_Closed, b)
      | Some s \<Rightarrow>
          (let (r, s') = poll_recv (senders_alive b) waker s
           in (r, b\<lparr>receivers := dm_insert i s' (receivers b)\<rparr>)))"

definition try_recv :: "nat \<Rightarrow> 'a bus \<Rightarrow> (try_recv_error, 'a) result \<times> 'a bus" where
  "try_recv i b = poll_state i None b"

datatype 'a poll = Pending | Ready 'a

definition Recv_poll :: "nat \<Rightarrow> nat \<Rightarrow> 'a bus \<Rightarrow> (recv_error, 'a) result poll \<times> 'a bus" where
  "Recv_poll i w b =
     (case poll_state i (Some w) b of
        (Inr v, b') \<Rightarrow> (Ready (Inr v), b')
      | (Inl TE_Empty, b') \<Rightarrow> (Pending, b')
      | (Inl TE_Closed, b') \<Rightarrow> (Ready (Inl RE_Closed), b')
      | (Inl (TE_Lagged n), b') \<Rightarrow> (Ready (Inl (RE_Lagged n)), b'))"

definition Receiver_poll_next ::
  "nat \<Rightarrow> nat \<Rightarrow> 'a bus \<Rightarrow> (recv_error, 'a) result option poll \<times> 'a bus" where
  "Receiver_poll_next i w b =
     (case Recv_poll i w b of
        (Ready (Inr v), b') \<Rightarrow> (Ready (Some (Inr v)), b')
      | (Ready (Inl (RE_Lagged n)), b') \<Rightarrow> (Ready (Some (Inl (RE_Lagged n))), b')
      | (Ready (Inl RE_Closed), b') \<Rightarrow> (Ready None, b')
      | (Pending, b') \<Rightarrow> (Pending, b'))"

definition Receiver_drop :: "nat \<Rightarrow> 'a bus \<Rightarrow> 'a bus" where
  "Receiver_drop i b = b\<lparr>receivers := dm_remove i (receivers b)\<rparr>"

text \<open>\<open>Receiver::clone\<close> subscribes through a temporary \<open>Sender\<close> built without \<open>Sender::clone\<close>;
  the temporary is dropped at the end of the expression.\<close>

definition Receiver_clone :: "'a bus \<Rightarrow> ('a bus \<times> nat list) \<times> nat" where
  "Receiver_clone b = (let (b', i) = Sender_subscribe b in (Sender_drop b', i))"

lemmas bus_op_defs = Sender_channel_def Sender_subscribe_def Sender_send_def Sender_clone_def
  Sender_drop_def poll_state_def try_recv_def Receiver_drop_def Receiver_clone_def Let_def

declare poll_state_def [recv_defs] poll_recv_def [recv_defs] try_recv_def [recv_defs] Recv_poll_def [recv_defs]

subsection \<open>Operations as one step function\<close>

datatype 'a bus_op =
    OpSubscribe | OpSend 'a | OpCloneSender | OpDropSender
  | OpRecv nat | OpPoll nat nat | OpDropReceiver nat | OpCloneReceiver

fun bus_step :: "'a bus_op \<Rightarrow> 'a bus \<Rightarrow> 'a bus" where
  "bus_step OpSubscribe b = fst (Sender_subscribe b)"
| "bus_step (OpSend v) b = fst (Sender_send v b)"
| "bus_step OpCloneSender b = Sender_clone b"
| "bus_step OpDropSender b = fst (Sender_drop b)"
| "bus_step (OpRecv i) b = snd (try_recv i b)"
| "bus_step (OpPoll i w) b = snd (poll_state i (Some w) b)"
| "bus_step (OpDropReceiver i) b = Receiver_drop i b"
| "bus_step OpCloneReceiver b = fst (fst (Receiver_clone b))"

text \<open>What receiver \<open>i\<close> observes of one operation: a value, or a lag notice.\<close>

datatype 'a observed = Got 'a | Skipped nat

fun observe :: "nat \<Rightarrow> 'a bus_op \<Rightarrow> 'a bus \<Rightarrow> 'a observed list" where
  "observe i (OpRecv j) b =
     (if i = j then case fst (try_recv i b) of Inr v \<Rightarrow> [Got v] | Inl (TE_Lagged n) \<Rightarrow> [Skipped n]
                    | Inl e \<Rightarrow> [] else [])"
| "observe i (OpPoll j w) b =
     (if i = j then case fst (poll_state i (Some w) b) of Inr v \<Rightarrow> [Got v]
                    | Inl (TE_Lagged n) \<Rightarrow> [Skipped n] | Inl e \<Rightarrow> [] else [])"
| "observe i op b = []"

fun observations :: "nat \<Rightarrow> 'a bus_op list \<Rightarrow> 'a bus \<Rightarrow> 'a observed list" where
  "observations i [] b = []"
| "observations i (op # ops) b = observe i op b @ observations i ops (bus_step op b)"

fun sent_values :: "'a bus_op list \<Rightarrow> 'a list" where
  "sent_values [] = []"
| "sent_values (OpSend v # ops) = v # sent_values ops"
| "sent_values (op # ops) = sent_values ops"

text \<open>The specification: observations explain a prefix of the stream of sent values, a lag notice
  standing for that many values; the remainder is what is still to come.\<close>

fun explain :: "'a observed list \<Rightarrow> 'a list \<Rightarrow> 'a list option" where
  "explain [] xs = Some xs"
| "explain (Got v # os) xs = (case xs of [] \<Rightarrow> None | x # xs' \<Rightarrow> if x = v then explain os xs' else None)"
| "explain (Skipped n # os) xs = (if n \<le> length xs then explain os (drop n xs) else None)"

subsection \<open>The invariant\<close>

definition recv_wf :: "nat \<Rightarrow> 'a recv_state \<Rightarrow> bool" where
  "recv_wf cap s \<longleftrightarrow> length (rs_queue s) \<le> cap
     \<and> (rs_missed s > 0 \<longrightarrow> length (rs_queue s) = cap)
     \<and> (\<not> rs_alive s \<longrightarrow> rs_queue s = [] \<and> rs_missed s = 0)"

definition bus_wf :: "'a bus \<Rightarrow> bool" where
  "bus_wf b \<longleftrightarrow> 0 < capacity b \<and> dm_wf (receivers b)
     \<and> (\<forall>(i, s) \<in> set (receivers b). i < next_id b \<and> recv_wf (capacity b) s)
     \<and> (senders_alive b \<longrightarrow> 0 < sender_count b)"

lemma bus_wfI:
  assumes "0 < capacity b" "dm_wf (receivers b)"
    and "\<And>i s. dm_get (receivers b) i = Some s \<Longrightarrow> i < next_id b \<and> recv_wf (capacity b) s"
    and "senders_alive b \<Longrightarrow> 0 < sender_count b"
  shows "bus_wf b"
  using assms by (auto simp: bus_wf_def dm_get_Some_iff)

lemma bus_wfD:
  assumes "bus_wf b"
  shows "0 < capacity b" "dm_wf (receivers b)" "senders_alive b \<Longrightarrow> 0 < sender_count b"
    "dm_get (receivers b) i = Some s \<Longrightarrow> i < next_id b"
    "dm_get (receivers b) i = Some s \<Longrightarrow> recv_wf (capacity b) s"
  using assms by (auto simp: bus_wf_def dm_get_Some_iff)

lemma dm_get_map_values [simp]:
  "dm_get (map (\<lambda>(i, s). (i, f s)) m) i = map_option f (dm_get m i)"
  by (induction m) (auto simp: dm_get_def)

lemma dm_wf_map_values [simp]: "dm_wf (map (\<lambda>(i, s). (i, f s)) m) = dm_wf m"
  by (simp add: dm_wf_def comp_def case_prod_beta)

lemma fresh_recv_wf [simp]: "recv_wf cap fresh_recv"
  by (simp add: recv_wf_def fresh_recv_def)

lemma send_state_wf: "0 < cap \<Longrightarrow> recv_wf cap s \<Longrightarrow> recv_wf cap (send_state cap v s)"
  by (auto simp: recv_wf_def send_state_def push_bounded_def)

lemma poll_recv_wf: "recv_wf cap s \<Longrightarrow> recv_wf cap (snd (poll_recv a w s))"
  by (auto simp: recv_wf_def poll_recv_def split: list.splits option.splits)

text \<open>The state of one receiver after an operation, as a function of its state before.\<close>

lemma get_poll_state:
  "dm_get (receivers (snd (poll_state j w b))) i =
     (if i = j then map_option (\<lambda>s. snd (poll_recv (senders_alive b) w s)) (dm_get (receivers b) i)
      else dm_get (receivers b) i)"
  by (auto simp: poll_state_def split: option.splits prod.splits)

lemma poll_state_frame [simp]:
  "capacity (snd (poll_state j w b)) = capacity b"
  "next_id (snd (poll_state j w b)) = next_id b"
  "senders_alive (snd (poll_state j w b)) = senders_alive b"
  "sender_count (snd (poll_state j w b)) = sender_count b"
  "dm_wf (receivers b) \<Longrightarrow> dm_wf (receivers (snd (poll_state j w b)))"
  by (auto simp: poll_state_def split: option.splits prod.splits)

lemma get_Sender_drop:
  "dm_get (receivers (fst (Sender_drop b))) i =
     map_option (\<lambda>s. if sender_count b - 1 = 0 then s\<lparr>rs_waker := None\<rparr> else s)
       (dm_get (receivers b) i)"
  by (auto simp: Sender_drop_def Let_def option.map_ident)

lemma Sender_drop_frame [simp]:
  "capacity (fst (Sender_drop b)) = capacity b"
  "next_id (fst (Sender_drop b)) = next_id b"
  "sender_count (fst (Sender_drop b)) = sender_count b - 1"
  "senders_alive (fst (Sender_drop b)) = (senders_alive b \<and> sender_count b - 1 \<noteq> 0)"
  "dm_wf (receivers (fst (Sender_drop b))) = dm_wf (receivers b)"
  by (auto simp: Sender_drop_def Let_def)

text \<open>Every effect on one receiver's state is one of five.\<close>

lemma bus_step_get:
  "dm_get (receivers (bus_step op b)) i =
     (case op of
        OpSubscribe \<Rightarrow> if i = next_id b then Some fresh_recv else dm_get (receivers b) i
      | OpSend v \<Rightarrow> map_option (send_state (capacity b) v) (dm_get (receivers b) i)
      | OpCloneSender \<Rightarrow> dm_get (receivers b) i
      | OpDropSender \<Rightarrow> dm_get (receivers (fst (Sender_drop b))) i
      | OpRecv j \<Rightarrow> dm_get (receivers (snd (poll_state j None b))) i
      | OpPoll j w \<Rightarrow> dm_get (receivers (snd (poll_state j (Some w) b))) i
      | OpDropReceiver j \<Rightarrow> if i = j then None else dm_get (receivers b) i
      | OpCloneReceiver \<Rightarrow> dm_get (receivers (fst (Sender_drop (fst (Sender_subscribe b))))) i)"
  by (cases op)
    (simp_all add: Sender_subscribe_def Sender_send_def Sender_clone_def try_recv_def
      Receiver_drop_def Receiver_clone_def)

lemma bus_step_frame:
  "capacity (bus_step op b) = capacity b" "next_id b \<le> next_id (bus_step op b)"
  "senders_alive (bus_step op b) \<Longrightarrow> senders_alive b"
  by (cases op; auto simp: Sender_subscribe_def Sender_send_def Sender_clone_def try_recv_def
      Receiver_drop_def Receiver_clone_def)+

lemma recv_wf_waker [simp]: "recv_wf cap (s\<lparr>rs_waker := w\<rparr>) = recv_wf cap s"
  by (simp add: recv_wf_def)

lemma bus_wf_subscribe: "bus_wf b \<Longrightarrow> bus_wf (fst (Sender_subscribe b))"
  by (rule bus_wfI)
    (auto simp: Sender_subscribe_def dest: bus_wfD less_SucI split: if_splits)

lemma bus_wf_Sender_drop: "bus_wf b \<Longrightarrow> bus_wf (fst (Sender_drop b))"
  by (rule bus_wfI) (auto simp: get_Sender_drop dest: bus_wfD split: if_splits)

lemma bus_wf_poll_state: "bus_wf b \<Longrightarrow> bus_wf (snd (poll_state j w b))"
  by (rule bus_wfI) (auto simp: get_poll_state dest: bus_wfD intro: poll_recv_wf split: if_splits)

lemma bus_wf_step: "bus_wf b \<Longrightarrow> bus_wf (bus_step op b)"
proof (cases op)
  case (OpSend v)
  assume "bus_wf b"
  then show ?thesis
    unfolding OpSend
    by (intro bus_wfI) (auto simp: Sender_send_def dest: bus_wfD intro!: send_state_wf)
next
  case (OpDropReceiver j)
  assume "bus_wf b"
  then show ?thesis
    unfolding OpDropReceiver
    by (intro bus_wfI) (auto simp: Receiver_drop_def dest: bus_wfD split: if_splits)
next
  case OpCloneSender
  assume "bus_wf b"
  then show ?thesis
    unfolding OpCloneSender by (intro bus_wfI) (auto simp: Sender_clone_def dest: bus_wfD)
qed (auto simp: try_recv_def Receiver_clone_def case_prod_beta
    intro: bus_wf_subscribe bus_wf_Sender_drop bus_wf_poll_state)

lemma bus_wf_channel: "bus_wf (fst (Sender_channel cap))"
  by (rule bus_wfI) (auto simp: Sender_channel_def split: if_splits)

interpretation bus_m: inv_machine "fst (Sender_channel cap)" bus_step bus_wf for cap
  by unfold_locales (auto intro: bus_wf_channel bus_wf_step)

subsection \<open>Delivery\<close>

declare bus_step.simps [simp del]

lemma bus_step_gone:
  "i < next_id b \<Longrightarrow> dm_get (receivers b) i = None \<Longrightarrow> dm_get (receivers (bus_step op b)) i = None"
  by (cases op) (auto simp: bus_step_get get_Sender_drop get_poll_state Sender_subscribe_def)

lemma bus_run_gone:
  "i < next_id b \<Longrightarrow> dm_get (receivers b) i = None \<Longrightarrow>
   dm_get (receivers (fold bus_step ops b)) i = None"
proof (induction ops arbitrary: b)
  case Nil
  then show ?case by simp
next
  case (Cons op ops)
  then show ?case
    by (simp add: bus_step_gone less_le_trans [OF _ bus_step_frame(2)])
qed

lemma poll_recv_alive: "rs_alive (snd (poll_recv a w s)) \<Longrightarrow> rs_alive s"
  by (auto simp: poll_recv_def split: if_splits list.splits option.splits)

lemma send_state_alive [simp]: "rs_alive (send_state cap v s) = rs_alive s"
  by (simp add: send_state_def)

text \<open>A receiver the channel has marked dead stays dead: identifiers are never reused.\<close>

lemma bus_step_dead:
  assumes "i < next_id b" "dm_get (receivers b) i = Some s" "\<not> rs_alive s"
    "dm_get (receivers (bus_step op b)) i = Some s1"
  shows "\<not> rs_alive s1"
  using assms
  by (cases op)
    (auto simp: bus_step_get get_Sender_drop get_poll_state Sender_subscribe_def
      dest: poll_recv_alive split: if_splits)

lemma bus_run_dead:
  assumes "i < next_id b" "dm_get (receivers b) i = Some s" "\<not> rs_alive s"
    "dm_get (receivers (fold bus_step ops b)) i = Some s1"
  shows "\<not> rs_alive s1"
  using assms
proof (induction ops arbitrary: b s)
  case Nil
  then show ?case by simp
next
  case (Cons op ops)
  have lt: "i < next_id (bus_step op b)"
    using Cons.prems(1) bus_step_frame(2) less_le_trans by blast
  show ?case
  proof (cases "dm_get (receivers (bus_step op b)) i")
    case None
    then show ?thesis using Cons.prems(4) bus_run_gone [OF lt] by simp
  next
    case (Some s2)
    show ?thesis
      by (rule Cons.IH [OF lt Some bus_step_dead [OF Cons.prems(1-3) Some]])
        (use Cons.prems(4) in simp)
  qed
qed

definition lag_split :: "'a recv_state \<Rightarrow> 'a list \<Rightarrow> 'a list \<Rightarrow> bool" where
  "lag_split s D xs \<longleftrightarrow> length D = rs_missed s \<and> xs = D @ rs_queue s"

lemma explain_send:
  assumes "0 < cap" "rs_alive s" "recv_wf cap s" "lag_split s D xs"
  shows "\<exists>D'. lag_split (send_state cap v s) D' (xs @ [v])"
proof (cases "cap \<le> length (rs_queue s)")
  case True
  then obtain x q where q: "rs_queue s = x # q" using assms(1) by (cases "rs_queue s") auto
  then show ?thesis
    using assms True by (intro exI [of _ "D @ [x]"]) (simp add: lag_split_def send_state_def push_bounded_def)
next
  case False
  then show ?thesis
    using assms by (intro exI [of _ D]) (simp add: lag_split_def send_state_def push_bounded_def)
qed

lemma explain_poll:
  assumes "lag_split s D xs"
  shows "\<exists>D' xs'. lag_split (snd (poll_recv a w s)) D' xs'
           \<and> (\<forall>os rest. explain ((case fst (poll_recv a w s) of Inr v \<Rightarrow> [Got v]
                 | Inl (TE_Lagged n) \<Rightarrow> [Skipped n] | Inl e \<Rightarrow> []) @ os) (xs @ rest)
               = explain os (xs' @ rest))"
proof (cases "rs_missed s")
  case (Suc n)
  then show ?thesis
    using assms by (intro exI [of _ "[]"] exI [of _ "rs_queue s"])
      (auto simp: lag_split_def poll_recv_def)
next
  case 0
  then have xs: "xs = rs_queue s" using assms by (simp add: lag_split_def)
  show ?thesis
  proof (cases "rs_queue s")
    case Nil
    then show ?thesis
      using 0 xs by (intro exI [of _ "[]"]) (auto simp: lag_split_def poll_recv_def split: option.splits)
  next
    case (Cons v q)
    then show ?thesis
      using 0 xs by (intro exI [of _ "[]"] exI [of _ q]) (auto simp: lag_split_def poll_recv_def)
  qed
qed

lemma lag_split_waker [simp]: "lag_split (s\<lparr>rs_waker := w\<rparr>) D xs = lag_split s D xs"
  by (simp add: lag_split_def)

lemma fst_poll_state:
  "dm_get (receivers b) i = Some s \<Longrightarrow> fst (poll_state i w b) = fst (poll_recv (senders_alive b) w s)"
  by (simp add: poll_state_def split: prod.splits)

lemma explain_keep:
  "lag_split s D xs \<Longrightarrow>
   \<exists>D1 xs1. lag_split s D1 xs1 \<and> (\<forall>os rest. explain os (xs @ rest) = explain os (xs1 @ rest))"
  by blast

text \<open>One operation: what the receiver observes explains what left its window of the stream.\<close>

lemma explain_step:
  assumes "bus_wf b" "dm_get (receivers b) i = Some s" "rs_alive s" "lag_split s D xs"
    "dm_get (receivers (bus_step op b)) i = Some s1"
  shows "\<exists>D1 xs1. lag_split s1 D1 xs1
           \<and> (\<forall>os rest. explain (observe i op b @ os) (xs @ sent_values [op] @ rest)
                = explain os (xs1 @ rest))"
proof (cases op)
  case (OpSend v)
  obtain D' where "lag_split (send_state (capacity b) v s) D' (xs @ [v])"
    using explain_send [OF bus_wfD(1) [OF assms(1)] assms(3) bus_wfD(5) [OF assms(1,2)] assms(4)]
    by blast
  then show ?thesis
    using assms(2,5) OpSend by (intro exI [of _ D'] exI [of _ "xs @ [v]"]) (auto simp: bus_step_get)
next
  case (OpRecv j)
  then show ?thesis
    using assms explain_poll [OF assms(4), of "senders_alive b" None]
    by (cases "i = j") (auto simp: bus_step_get get_poll_state try_recv_def fst_poll_state)
next
  case (OpPoll j w)
  then show ?thesis
    using assms explain_poll [OF assms(4), of "senders_alive b" "Some w"]
    by (cases "i = j") (auto simp: bus_step_get get_poll_state fst_poll_state)
qed (use assms bus_wfD(4) [OF assms(1,2)] in
    \<open>auto simp: bus_step_get get_Sender_drop Sender_subscribe_def intro: explain_keep split: if_splits\<close>)

lemma sent_values_Cons: "sent_values (op # ops) = sent_values [op] @ sent_values ops"
  by (cases op) simp_all

lemma explain_run:
  assumes "bus_wf b" "dm_get (receivers b) i = Some s0" "lag_split s0 D xs"
    "dm_get (receivers (fold bus_step ops b)) i = Some s" "rs_alive s"
  shows "\<exists>D' xs'. lag_split s D' xs'
           \<and> explain (observations i ops b) (xs @ sent_values ops) = Some xs'"
  using assms(1-4)
proof (induction ops arbitrary: b s0 D xs)
  case Nil
  then show ?case by auto
next
  case (Cons op ops)
  have lt: "i < next_id b" by (rule bus_wfD(4) [OF Cons.prems(1,2)])
  have lt': "i < next_id (bus_step op b)" using lt bus_step_frame(2) less_le_trans by blast
  have fin: "dm_get (receivers (fold bus_step ops (bus_step op b))) i = Some s"
    using Cons.prems(4) by simp
  then obtain s1 where s1: "dm_get (receivers (bus_step op b)) i = Some s1"
    using bus_run_gone [OF lt'] by (metis not_None_eq)
  have "rs_alive s0"
    using bus_run_dead [OF lt Cons.prems(2) _ Cons.prems(4)] assms(5) by blast
  from explain_step [OF Cons.prems(1,2) this Cons.prems(3) s1]
  obtain D1 xs1 where st: "lag_split s1 D1 xs1"
    "\<And>os rest. explain (observe i op b @ os) (xs @ sent_values [op] @ rest) = explain os (xs1 @ rest)"
    by blast
  from Cons.IH [OF bus_wf_step [OF Cons.prems(1)] s1 st(1) fin] show ?case
    by (simp only: observations.simps sent_values_Cons [of op ops] st(2))
qed

text \<open>
  C5. The channel refines the stream specification. Take a receiver that has just subscribed and
  any sequence of channel operations (sends, receives and polls by anybody, subscriptions,
  sender and receiver clones and drops) after which it is still registered and alive. Then the
  values and lag notices it observed explain a prefix of the values sent in that time: the values
  came in order, each lag notice stands for exactly the values dropped, and the values not yet
  accounted for are the dropped ones still to be reported followed by its queue, which never
  holds more than \<open>capacity\<close> values.
\<close>

theorem bus_delivery:
  assumes "bus_wf b" and "dm_get (receivers b) i = Some fresh_recv"
    and "dm_get (receivers (fold bus_step ops b)) i = Some s" and "rs_alive s"
  shows "\<exists>dropped. explain (observations i ops b) (sent_values ops) = Some (dropped @ rs_queue s)
           \<and> length dropped = rs_missed s \<and> length (rs_queue s) \<le> capacity b"
proof -
  have "lag_split (fresh_recv :: 'a recv_state) [] []"
    by (simp add: lag_split_def fresh_recv_def)
  from explain_run [OF assms(1,2) this assms(3,4)]
  obtain D where D: "explain (observations i ops b) (sent_values ops) = Some (D @ rs_queue s)"
    "length D = rs_missed s"
    by (auto simp: lag_split_def)
  have wf: "bus_wf (fold bus_step ops b)" by (rule bus_m.inv_fold [OF assms(1)])
  have "capacity (fold bus_step ops b) = capacity b"
    by (induction ops arbitrary: b) (simp_all add: bus_step_frame(1))
  then show ?thesis
    using D bus_wfD(5) [OF wf assms(3)] by (auto simp: recv_wf_def)
qed

text \<open>Capacity two, three sends, then a lag notice and one value.\<close>

theorem bus_delivery_witness:
  "\<exists>dropped. explain (observations 0
        [OpSend (1::nat), OpSend 2, OpSend 3, OpRecv 0, OpRecv 0] (fst (Sender_channel 2)))
        (sent_values [OpSend 1, OpSend 2, OpSend 3, OpRecv 0, OpRecv 0]) = Some (dropped @ [3])
     \<and> length dropped = 0 \<and> length [3::nat] \<le> 2"
  using bus_delivery [of "fst (Sender_channel 2)" 0
      "[OpSend (1::nat), OpSend 2, OpSend 3, OpRecv 0, OpRecv 0]"
      "\<lparr>rs_queue = [3], rs_waker = None, rs_missed = 0, rs_alive = True\<rparr>"]
  by (simp add: bus_wf_channel)
    (simp add: bus_step.simps bus_op_defs send_state_def push_bounded_def fresh_recv_def poll_recv_def
      dm_insert_def dm_get_def split: prod.splits)

subsection \<open>Wake-ups\<close>

definition recv_parked :: "bool \<Rightarrow> 'a recv_state \<Rightarrow> bool" where
  "recv_parked open_chan s \<longleftrightarrow>
     (rs_waker s \<noteq> None \<longrightarrow> rs_queue s = [] \<and> rs_missed s = 0 \<and> rs_alive s \<and> open_chan)
     \<and> (\<not> rs_alive s \<longrightarrow> \<not> open_chan)"

definition bus_parked :: "'a bus \<Rightarrow> bool" where
  "bus_parked b \<longleftrightarrow> bus_wf b
     \<and> (\<forall>i s. dm_get (receivers b) i = Some s \<longrightarrow> recv_parked (senders_alive b) s)"

lemma bus_step_senders:
  "senders_alive (bus_step op b) =
     (senders_alive b \<and> (op \<in> {OpDropSender, OpCloneReceiver} \<longrightarrow> sender_count b - 1 \<noteq> 0))"
  by (cases op) (auto simp: bus_step.simps Sender_subscribe_def Sender_send_def Sender_clone_def
      try_recv_def Receiver_drop_def Receiver_clone_def)

lemma recv_parked_simps [simp]:
  "recv_parked a fresh_recv"
  "recv_parked a s \<Longrightarrow> recv_parked a (send_state cap v s)"
  "recv_parked a s \<Longrightarrow> recv_parked a (snd (poll_recv a w s))"
  "recv_parked False (s\<lparr>rs_waker := None\<rparr>)"
  by (auto simp: recv_parked_def fresh_recv_def send_state_def poll_recv_def
      split: list.splits option.splits)

lemma bus_parked_Sender_drop: "bus_parked b \<Longrightarrow> bus_parked (fst (Sender_drop b))"
  by (cases "sender_count b - 1 = 0")
    (auto simp: bus_parked_def bus_wf_Sender_drop get_Sender_drop option.map_ident)

lemma bus_parked_subscribe: "bus_parked b \<Longrightarrow> bus_parked (fst (Sender_subscribe b))"
  unfolding bus_parked_def
  by (auto simp: bus_wf_subscribe) (auto simp: Sender_subscribe_def split: if_splits)

lemma bus_parked_step:
  assumes "bus_parked b"
  shows "bus_parked (bus_step op b)"
proof (cases "op \<in> {OpSubscribe, OpDropSender, OpCloneReceiver}")
  case True
  then show ?thesis
    using assms
    by (auto simp: bus_step.simps Receiver_clone_def case_prod_beta
        intro!: bus_parked_Sender_drop bus_parked_subscribe)
next
  case False
  have "bus_wf (bus_step op b)" using assms bus_wf_step by (auto simp: bus_parked_def)
  then show ?thesis
    using assms False
    by (cases op) (auto simp: bus_parked_def bus_step_senders bus_step_get get_poll_state split: if_splits)
qed

lemma bus_parked_channel: "bus_parked (fst (Sender_channel cap))"
  unfolding bus_parked_def
  by (rule conjI [OF bus_wf_channel]) (auto simp: Sender_channel_def split: if_splits)

interpretation bus_parked_m: inv_machine "fst (Sender_channel cap)" bus_step bus_parked for cap
  by unfold_locales (auto intro: bus_parked_channel bus_parked_step)

lemma send_wakers_get:
  "dm_wf (receivers b) \<Longrightarrow> dm_get (receivers b) i = Some s \<Longrightarrow> rs_alive s \<Longrightarrow> rs_waker s = Some w
   \<Longrightarrow> w \<in> set (send_wakers b)"
  by (auto simp: send_wakers_def waker_list_def dm_get_Some_iff intro!: exI [of _ i] exI [of _ s])

lemma all_wakers_get:
  "dm_wf (receivers b) \<Longrightarrow> dm_get (receivers b) i = Some s \<Longrightarrow> rs_waker s = Some w
   \<Longrightarrow> w \<in> set (all_wakers b)"
  by (auto simp: all_wakers_def waker_list_def dm_get_Some_iff intro!: bexI [of _ "(i, s)"])

lemma send_poll_ready:
  assumes "bus_wf b" "dm_get (receivers b) i = Some s" "rs_alive s"
  shows "fst (Recv_poll i w (fst (Sender_send v b))) \<noteq> Pending"
  using assms
  by (auto simp: Recv_poll_def poll_state_def Sender_send_def poll_recv_def send_state_def
      push_bounded_def split: prod.splits sum.splits list.splits if_splits try_recv_error.splits)

text \<open>
  C35. No lost wake-up: in every state reached from a fresh channel by any sequence of operations,
  a receiver whose task is parked has nothing to receive and the channel is open; whatever makes
  something receivable wakes it. A send wakes it and its next poll is ready, and so does dropping
  the last sender, after which the poll reports \<open>Closed\<close>.
\<close>

theorem bus_no_lost_wakeup:
  assumes "b = fold bus_step ops (fst (Sender_channel cap))"
    and "dm_get (receivers b) i = Some s" and "rs_waker s = Some w"
  shows "rs_queue s = [] \<and> rs_missed s = 0 \<and> senders_alive b
     \<and> w \<in> set (snd (Sender_send v b)) \<and> fst (Recv_poll i w' (fst (Sender_send v b))) \<noteq> Pending
     \<and> (sender_count b = 1 \<longrightarrow> w \<in> set (snd (Sender_drop b))
          \<and> fst (Recv_poll i w' (fst (Sender_drop b))) = Ready (Inl RE_Closed))"
proof -
  have inv: "bus_parked b" unfolding assms(1) by (rule bus_parked_m.inv_run)
  then have wf: "bus_wf b" and pk: "recv_parked (senders_alive b) s"
    using assms(2) by (auto simp: bus_parked_def)
  then have s: "rs_queue s = []" "rs_missed s = 0" "rs_alive s" "senders_alive b"
    using assms(3) by (auto simp: recv_parked_def)
  have "w \<in> set (snd (Sender_send v b))"
    using send_wakers_get [OF bus_wfD(2) [OF wf] assms(2) s(3) assms(3)] by (simp add: Sender_send_def)
  moreover have "sender_count b = 1 \<Longrightarrow> w \<in> set (snd (Sender_drop b))"
    using all_wakers_get [OF bus_wfD(2) [OF wf] assms(2,3)] by (simp add: Sender_drop_def)
  moreover have "sender_count b = 1 \<Longrightarrow>
      fst (Recv_poll i w' (fst (Sender_drop b))) = Ready (Inl RE_Closed)"
    using s assms(2) by (simp add: recv_defs get_Sender_drop)
  ultimately show ?thesis
    using s send_poll_ready [OF wf assms(2) s(3)] by blast
qed

theorem bus_no_lost_wakeup_witness:
  "7 \<in> set (snd (Sender_send (5::nat) (bus_step (OpPoll 0 7) (fst (Sender_channel 4)))))"
  using bus_no_lost_wakeup [of "bus_step (OpPoll 0 7) (fst (Sender_channel 4))" "[OpPoll 0 7]" 4 0
      "\<lparr>rs_queue = [], rs_waker = Some 7, rs_missed = 0, rs_alive = True\<rparr>" 7 "5::nat" 0]
  by (simp add: bus_step.simps bus_op_defs fresh_recv_def poll_recv_def dm_insert_def dm_get_def)

subsection \<open>Sender accounting\<close>

text \<open>The number of live \<open>Sender\<close> handles after a sequence of operations, \<open>None\<close> when an operation
  uses a handle that no longer exists.\<close>

fun sender_handles :: "'a bus_op list \<Rightarrow> nat \<Rightarrow> nat option" where
  "sender_handles [] h = Some h"
| "sender_handles (OpCloneSender # ops) h = (if h = 0 then None else sender_handles ops (h + 1))"
| "sender_handles (OpDropSender # ops) h = (if h = 0 then None else sender_handles ops (h - 1))"
| "sender_handles (OpSubscribe # ops) h = (if h = 0 then None else sender_handles ops h)"
| "sender_handles (OpSend v # ops) h = (if h = 0 then None else sender_handles ops h)"
| "sender_handles (op # ops) h = sender_handles ops h"

lemma sender_accounting_gen:
  assumes "sender_handles ops h = Some h'" "OpCloneReceiver \<notin> set ops"
    "sender_count b = h" "senders_alive b = (h > 0)"
  shows "sender_count (fold bus_step ops b) = h' \<and> senders_alive (fold bus_step ops b) = (h' > 0)"
  using assms
proof (induction ops arbitrary: h b)
  case Nil
  then show ?case by simp
next
  case (Cons op ops)
  show ?case
    using Cons.prems Cons.IH [of _ "bus_step op b"]
    by (cases op)
      (auto simp: bus_step.simps Sender_subscribe_def Sender_send_def Sender_clone_def try_recv_def
        Receiver_drop_def split: if_splits)
qed

text \<open>
  As long as no receiver is cloned the channel closes exactly when its last sender handle is
  dropped: after any sequence of operations that only uses live handles, the sender count is the
  number of live handles and the channel is open iff that number is positive.
\<close>

theorem bus_sender_accounting:
  assumes "sender_handles ops 1 = Some h" and "OpCloneReceiver \<notin> set ops"
  shows "sender_count (fold bus_step ops (fst (Sender_channel cap))) = h
     \<and> senders_alive (fold bus_step ops (fst (Sender_channel cap))) = (h > 0)"
  by (rule sender_accounting_gen [OF assms]) (simp_all add: Sender_channel_def)

theorem bus_sender_accounting_witness:
  "sender_count (fold bus_step [OpCloneSender, OpSend (1::nat), OpDropSender]
       (fst (Sender_channel 8))) = 1
   \<and> senders_alive (fold bus_step [OpCloneSender, OpSend (1::nat), OpDropSender]
       (fst (Sender_channel 8))) = (1 > (0::nat))"
  by (rule bus_sender_accounting) simp_all

text \<open>
  \<open>Receiver::clone\<close> breaks that accounting: on a channel with one live sender it closes the
  channel. The clone itself observes \<open>Closed\<close> at its first receive, and values the surviving
  sender sends afterwards are never delivered to it.
\<close>

theorem Receiver_clone_closes_channel:
  assumes "sender_count b = 1"
  shows "\<not> senders_alive (fst (fst (Receiver_clone b)))
     \<and> fst (try_recv (snd (Receiver_clone b)) (fst (fst (Receiver_clone b)))) = Inl TE_Closed
     \<and> fst (try_recv (snd (Receiver_clone b)) (fst (Sender_send v
           (snd (try_recv (snd (Receiver_clone b)) (fst (fst (Receiver_clone b)))))))) = Inl TE_Closed"
  using assms
  by (simp add: bus_op_defs fresh_recv_def poll_recv_def send_state_def)

theorem Receiver_clone_closes_channel_witness:
  "\<not> senders_alive (fst (fst (Receiver_clone (fst (Sender_channel 16) :: nat bus))))"
  using Receiver_clone_closes_channel [of "fst (Sender_channel 16)" "0::nat"]
  by (simp add: Sender_channel_def)

subsection \<open>Consuming a receiver\<close>

text \<open>
  The number of polls a receiver can answer before it has to wait: loops that consume a channel
  terminate by it.
\<close>

definition backlog :: "nat \<Rightarrow> 'a bus \<Rightarrow> nat" where
  "backlog i b =
     (case dm_get (receivers b) i of
        None \<Rightarrow> 0
      | Some s \<Rightarrow> length (rs_queue s) + (if rs_missed s > 0 then 1 else 0))"

lemma Recv_poll_backlog:
  "Recv_poll i w b = (Ready (Inr v), b') \<Longrightarrow> backlog i b' < backlog i b"
  "Recv_poll i w b = (Ready (Inl (RE_Lagged n)), b') \<Longrightarrow> backlog i b' < backlog i b"
  by (auto simp: recv_defs backlog_def
      split: option.splits if_splits list.splits sum.splits try_recv_error.splits)

lemma Recv_poll_pending_backlog: "Recv_poll i w b = (Pending, b') \<Longrightarrow> backlog i b' = backlog i b"
  by (auto simp: recv_defs backlog_def
      split: option.splits if_splits list.splits sum.splits try_recv_error.splits)

lemma dm_get_map_snd: "dm_get (map (\<lambda>(i, s). (i, f s)) m) k = map_option f (dm_get m k)"
  by (induction m) (auto simp: dm_get_def)

lemma Recv_poll_ready:
  "dm_get (receivers b) i = Some s \<Longrightarrow> rs_missed s = 0 \<Longrightarrow> rs_queue s = v # q \<Longrightarrow>
   Recv_poll i w b = (Ready (Inr v), b\<lparr>receivers := dm_insert i (s\<lparr>rs_queue := q\<rparr>) (receivers b)\<rparr>)"
  by (simp add: recv_defs)

lemma Recv_poll_pending:
  "dm_get (receivers b) i = Some s \<Longrightarrow> rs_missed s = 0 \<Longrightarrow> rs_queue s = [] \<Longrightarrow> senders_alive b \<Longrightarrow>
   Recv_poll i w b = (Pending, b\<lparr>receivers := dm_insert i (s\<lparr>rs_waker := Some w\<rparr>) (receivers b)\<rparr>)"
  by (simp add: recv_defs)

lemma Recv_poll_closed:
  "dm_get (receivers b) i = Some s \<Longrightarrow> rs_missed s = 0 \<Longrightarrow> rs_queue s = [] \<Longrightarrow> \<not> senders_alive b \<Longrightarrow>
   Recv_poll i w b = (Ready (Inl RE_Closed), b\<lparr>receivers := dm_insert i (s\<lparr>rs_alive := False\<rparr>) (receivers b)\<rparr>)"
  by (simp add: recv_defs)

lemma Recv_poll_lagged:
  "dm_get (receivers b) i = Some s \<Longrightarrow> rs_missed s > 0 \<Longrightarrow>
   Recv_poll i w b = (Ready (Inl (RE_Lagged (rs_missed s))), b\<lparr>receivers := dm_insert i (s\<lparr>rs_missed := 0\<rparr>) (receivers b)\<rparr>)"
  by (simp add: recv_defs)

end
