(* ===== verification/Query_Client.thy ===== *)
theory Query_Client
  imports Query_Filters Infinite_Data Broadcast_Bus Network
begin

text \<open>
  \<open>src/client.rs\<close>: the cache, the in-flight table, the notification channels and the bulk
  operations of \<open>QueryClient\<close>. The record \<open>client\<close> has the shared state of all clones of one
  client; an operation is a function on it, the clock reading \<open>now\<close> and, where the code uses
  the \<open>PartialEq\<close> of a user type, that comparison being arguments. \<open>TypeId::of::<T>()\<close> of a
  generic operation is its argument \<open>ty\<close>.

  Cancelling a token and calling the abort closure of a runtime task are effects on code outside
  the crate; the two logs \<open>cl_cancelled\<close> and \<open>cl_aborted\<close> record them. \<open>cl_next_arc\<close> numbers
  the \<open>Arc\<close> allocations, so that structural sharing (keeping the old allocation) is visible.
  The \<open>AtomicUsize\<close> counters are 64-bit words and wrap around as \<open>fetch_add\<close>/\<open>fetch_sub\<close> do.
\<close>

subsection \<open>State\<close>

datatype query_state_variant = V_Idle | V_Loading | V_Refetching | V_Success | V_Stale | V_Error

record query_state_update =
  su_key :: string
  su_variant :: query_state_variant

datatype activity_event = FetchingCountChanged u64w | MutatingCountChanged u64w

record 'v cache_entry =
  ce_data :: "'v dynval"
  ce_arc :: nat
  ce_type_id :: type_id
  ce_fetched_at :: instant
  ce_last_accessed :: instant
  ce_options :: query_options
  ce_is_stale :: bool

record in_flight_task =
  if_abort :: nat
  if_cancel_token :: nat

record query_state_snapshot =
  qss_status :: query_status
  qss_fetch_status :: fetch_status
  qss_is_stale :: bool
  qss_has_data :: bool
  qss_data_updated_at :: "instant option"

text \<open>The task \<open>mount\<close> spawns: its stop cell, its two watchers and whether its loop still runs.\<close>

record reconnect_watcher =
  rw_stop :: "bool watch"
  rw_stop_rx :: watcher
  rw_rx :: watcher
  rw_running :: bool

record 'v client =
  cl_cache :: "(string, 'v cache_entry) dashmap"
  cl_in_flight :: "(string, in_flight_task) dashmap"
  cl_subscribers :: "(string, query_state_update bus) dashmap"
  cl_all_subscribers :: "query_state_update bus"
  cl_focus_manager :: focus_manager
  cl_online :: online_manager
  cl_default_options :: "query_options option"
  cl_is_restoring :: bool
  cl_mount_count :: u64w
  cl_reconnect_task :: "nat option"
  cl_fetching_count :: u64w
  cl_mutating_count :: u64w
  cl_activity_tx :: "activity_event bus"
  cl_watchers :: "reconnect_watcher list"
  cl_cancelled :: "nat list"
  cl_aborted :: "nat list"
  cl_next_arc :: nat

subsection \<open>Construction and notification\<close>

text \<open>\<open>bus::Sender::channel(n).0\<close>: the receiving half is dropped at once.\<close>

definition new_sender :: "nat \<Rightarrow> 'a bus" where
  "new_sender n = Receiver_drop 0 (fst (Sender_channel n))"

definition QueryClient_new :: "'v client" where
  "QueryClient_new =
     \<lparr>cl_cache = [], cl_in_flight = [], cl_subscribers = [], cl_all_subscribers = new_sender 64,
      cl_focus_manager = FocusManager_new, cl_online = OnlineManager_new,
      cl_default_options = None, cl_is_restoring = False, cl_mount_count = 0,
      cl_reconnect_task = None, cl_fetching_count = 0, cl_mutating_count = 0,
      cl_activity_tx = new_sender 16, cl_watchers = [], cl_cancelled = [], cl_aborted = [],
      cl_next_arc = 0\<rparr>"

definition QueryClient_clone :: "'v client \<Rightarrow> 'v client" where
  "QueryClient_clone c =
     c\<lparr>cl_activity_tx := Sender_clone (cl_activity_tx c),
       cl_all_subscribers := Sender_clone (cl_all_subscribers c)\<rparr>"

text \<open>The drop glue of a clone: its two \<open>Sender\<close> fields are dropped.\<close>

definition QueryClient_drop :: "'v client \<Rightarrow> 'v client" where
  "QueryClient_drop c =
     c\<lparr>cl_activity_tx := fst (Sender_drop (cl_activity_tx c)),
       cl_all_subscribers := fst (Sender_drop (cl_all_subscribers c))\<rparr>"

definition client_subscribe :: "string \<Rightarrow> 'v client \<Rightarrow> 'v client \<times> nat" where
  "client_subscribe k c =
     (let s = (case dm_get (cl_subscribers c) k of None \<Rightarrow> new_sender 16 | Some b \<Rightarrow> b);
          (s', i) = Sender_subscribe s
      in (c\<lparr>cl_subscribers := dm_insert k s' (cl_subscribers c)\<rparr>, i))"

definition client_subscribe_all :: "'v client \<Rightarrow> 'v client \<times> nat" where
  "client_subscribe_all c =
     (let (s', i) = Sender_subscribe (cl_all_subscribers c) in (c\<lparr>cl_all_subscribers := s'\<rparr>, i))"

definition notify_subscribers :: "string \<Rightarrow> query_state_variant \<Rightarrow> 'v client \<Rightarrow> 'v client" where
  "notify_subscribers k variant c =
     (let update = \<lparr>su_key = k, su_variant = variant\<rparr>
      in c\<lparr>cl_all_subscribers := fst (Sender_send update (cl_all_subscribers c)),
           cl_subscribers :=
             dm_modify k (\<lambda>b. fst (Sender_send update b)) (cl_subscribers c)\<rparr>)"

subsection \<open>Reading the cache\<close>

definition get_query_data :: "type_id \<Rightarrow> query_key \<Rightarrow> 'v client \<Rightarrow> 'v dynval option" where
  "get_query_data ty key c =
     (case dm_get (cl_cache c) (cache_key key) of
        None \<Rightarrow> None
      | Some e \<Rightarrow> if ce_type_id e \<noteq> ty then None else downcast ty (ce_data e))"

definition get_query_options :: "query_key \<Rightarrow> 'v client \<Rightarrow> query_options option" where
  "get_query_options key c = map_option ce_options (dm_get (cl_cache c) (cache_key key))"

definition get_infinite_data ::
  "nat \<Rightarrow> nat \<Rightarrow> query_key \<Rightarrow> 'v client \<Rightarrow> 'v infinite_data option" where
  "get_infinite_data t p key c =
     (case get_query_data (T_Infinite t p) key c of Some (InfV _ _ d) \<Rightarrow> Some d | _ \<Rightarrow> None)"

definition entry_is_stale :: "instant \<Rightarrow> 'v cache_entry \<Rightarrow> bool" where
  "entry_is_stale now e =
     (let time_stale = stale_time (ce_options e) \<noteq> 0
                       \<and> elapsed now (ce_fetched_at e) > stale_time (ce_options e)
      in time_stale \<or> ce_is_stale e)"

definition client_is_stale :: "instant \<Rightarrow> query_key \<Rightarrow> 'v client \<Rightarrow> bool" where
  "client_is_stale now key c =
     (case dm_get (cl_cache c) (cache_key key) of
        None \<Rightarrow> False
      | Some e \<Rightarrow>
          (let time_stale = stale_time (ce_options e) \<noteq> 0
                            \<and> elapsed now (ce_fetched_at e) > stale_time (ce_options e)
           in time_stale \<or> ce_is_stale e))"

subsection \<open>Writing the cache\<close>

definition merge_options :: "query_options \<Rightarrow> query_options \<Rightarrow> query_options" where
  "merge_options defaults provided =
     (let d = QueryOptions_default in
      defaults
        \<lparr>stale_time := (if stale_time provided \<noteq> stale_time d
                         then stale_time provided else stale_time defaults),
         stale_time_static := (if stale_time_static provided \<noteq> stale_time_static d
                         then stale_time_static provided else stale_time_static defaults),
         gc_time := (if gc_time provided \<noteq> gc_time d then gc_time provided else gc_time defaults),
         retry := (if retry provided \<noteq> retry d then retry provided else retry defaults),
         enabled := (if enabled provided \<noteq> enabled d then enabled provided else enabled defaults),
         enabled_fn := (if enabled_fn provided \<noteq> None
                         then enabled_fn provided else enabled_fn defaults),
         refetch_on_window_focus :=
           (if refetch_on_window_focus provided \<noteq> refetch_on_window_focus d
            then refetch_on_window_focus provided else refetch_on_window_focus defaults),
         refetch_on_reconnect :=
           (if refetch_on_reconnect provided \<noteq> refetch_on_reconnect d
            then refetch_on_reconnect provided else refetch_on_reconnect defaults),
         refetch_on_mount := (if refetch_on_mount provided \<noteq> refetch_on_mount d
                         then refetch_on_mount provided else refetch_on_mount defaults),
         refetch_interval := (if refetch_interval provided \<noteq> refetch_interval d
                         then refetch_interval provided else refetch_interval defaults),
         refetch_interval_in_background :=
           (if refetch_interval_in_background provided \<noteq> refetch_interval_in_background d
            then refetch_interval_in_background provided
            else refetch_interval_in_background defaults),
         structural_sharing := (if structural_sharing provided \<noteq> structural_sharing d
                         then structural_sharing provided else structural_sharing defaults),
         net_mode := (if net_mode provided \<noteq> net_mode d then net_mode provided else net_mode defaults),
         retry_on_mount := (if retry_on_mount provided \<noteq> retry_on_mount d
                         then retry_on_mount provided else retry_on_mount defaults),
         throw_on_error := (if throw_on_error provided \<noteq> throw_on_error d
                         then throw_on_error provided else throw_on_error defaults),
         notify_on_change_props := (if notify_on_change_props provided \<noteq> None
                         then notify_on_change_props provided else notify_on_change_props defaults),
         meta := (if meta provided \<noteq> [] then meta provided else meta defaults)\<rparr>)"

definition resolve_options :: "string \<Rightarrow> query_options \<Rightarrow> 'v client \<Rightarrow> query_options" where
  "resolve_options k options c =
     (if \<not> dm_contains (cl_cache c) k
      then (case cl_default_options c of
              Some defaults \<Rightarrow> merge_options defaults options | None \<Rightarrow> options)
      else options)"

definition set_query_data ::
  "('v dynval \<Rightarrow> 'v dynval \<Rightarrow> bool) \<Rightarrow> instant \<Rightarrow> query_key \<Rightarrow> 'v dynval \<Rightarrow> query_options
   \<Rightarrow> 'v client \<Rightarrow> 'v client" where
  "set_query_data peq now key data options c =
     (let k = cache_key key;
          opts = resolve_options k options c;
          fresh = (data, cl_next_arc c);
          final = (if structural_sharing opts
                   then (case dm_get (cl_cache c) k of
                           None \<Rightarrow> fresh
                         | Some old \<Rightarrow>
                             if ce_type_id old = value_type data \<and> eq_any peq data (ce_data old)
                             then (ce_data old, ce_arc old) else fresh)
                   else fresh);
          entry = \<lparr>ce_data = fst final, ce_arc = snd final, ce_type_id = value_type data,
                   ce_fetched_at = now, ce_last_accessed = now, ce_options = opts,
                   ce_is_stale = False\<rparr>
      in notify_subscribers k V_Success
           (c\<lparr>cl_next_arc := cl_next_arc c + 1, cl_cache := dm_insert k entry (cl_cache c)\<rparr>))"

definition set_infinite_data ::
  "('v dynval \<Rightarrow> 'v dynval \<Rightarrow> bool) \<Rightarrow> instant \<Rightarrow> query_key \<Rightarrow> nat \<Rightarrow> nat \<Rightarrow> 'v infinite_data
   \<Rightarrow> query_options \<Rightarrow> 'v client \<Rightarrow> 'v client" where
  "set_infinite_data peq now key t p d options c =
     set_query_data peq now key (InfV t p d) options c"

text \<open>The write-back the two page operations share: a new allocation, fresh timestamps, the stale
  flag kept.\<close>

definition store_pages ::
  "instant \<Rightarrow> string \<Rightarrow> 'v dynval \<Rightarrow> 'v client \<Rightarrow> 'v client" where
  "store_pages now k v c =
     notify_subscribers k V_Success
       (c\<lparr>cl_next_arc := cl_next_arc c + 1,
          cl_cache := dm_modify k (\<lambda>e. e\<lparr>ce_data := v, ce_arc := cl_next_arc c,
            ce_fetched_at := now, ce_last_accessed := now\<rparr>) (cl_cache c)\<rparr>)"

text \<open>\<open>None\<close> is a panic (\<open>Vec::remove\<close> on an empty parameter list).\<close>

definition append_infinite_page ::
  "instant \<Rightarrow> query_key \<Rightarrow> nat \<Rightarrow> nat \<Rightarrow> 'v \<Rightarrow> 'v \<Rightarrow> nat option \<Rightarrow> 'v client
   \<Rightarrow> ('v infinite_data option \<times> 'v client) option" where
  "append_infinite_page now key t p page param max_pages c =
     (case dm_get (cl_cache c) (cache_key key) of
        None \<Rightarrow> Some (None, c)
      | Some e \<Rightarrow>
          (case downcast (T_Infinite t p) (ce_data e) of
             Some (InfV _ _ d) \<Rightarrow>
               (case (case max_pages of
                        None \<Rightarrow> Some (push_page page param d)
                      | Some mx \<Rightarrow> trim_front mx (push_page page param d)) of
                  None \<Rightarrow> None
                | Some d' \<Rightarrow> Some (Some d', store_pages now (cache_key key) (InfV t p d') c))
           | _ \<Rightarrow> Some (None, c)))"

definition prepend_infinite_page ::
  "instant \<Rightarrow> query_key \<Rightarrow> nat \<Rightarrow> nat \<Rightarrow> 'v \<Rightarrow> 'v \<Rightarrow> nat option \<Rightarrow> 'v client
   \<Rightarrow> 'v infinite_data option \<times> 'v client" where
  "prepend_infinite_page now key t p page param max_pages c =
     (case dm_get (cl_cache c) (cache_key key) of
        None \<Rightarrow> (None, c)
      | Some e \<Rightarrow>
          (case downcast (T_Infinite t p) (ce_data e) of
             Some (InfV _ _ d) \<Rightarrow>
               (let d0 = \<lparr>pages = page # pages d, page_params = param # page_params d\<rparr>;
                    d' = (case max_pages of None \<Rightarrow> d0 | Some mx \<Rightarrow> trim_back mx d0)
                in (Some d', store_pages now (cache_key key) (InfV t p d') c))
           | _ \<Rightarrow> (None, c)))"

subsection \<open>In-flight tasks\<close>

text \<open>\<open>if let Some((_, task)) = in_flight.remove(k) { task.cancel_token.cancel(); (task.abort)(); }\<close>,
  with whether a task was there.\<close>

definition abort_in_flight :: "string \<Rightarrow> 'v client \<Rightarrow> bool \<times> 'v client" where
  "abort_in_flight k c =
     (case dm_get (cl_in_flight c) k of
        None \<Rightarrow> (False, c)
      | Some t \<Rightarrow>
          (True, c\<lparr>cl_in_flight := dm_remove k (cl_in_flight c),
                   cl_cancelled := cl_cancelled c @ [if_cancel_token t],
                   cl_aborted := cl_aborted c @ [if_abort t]\<rparr>))"

text \<open>\<open>if let Some(mut e) = cache.get_mut(k) { e.is_stale = true; }\<close>.\<close>

definition mark_stale :: "string \<Rightarrow> 'v client \<Rightarrow> 'v client" where
  "mark_stale k c = c\<lparr>cl_cache := dm_modify k (\<lambda>e. e\<lparr>ce_is_stale := True\<rparr>) (cl_cache c)\<rparr>"

definition invalidate_one :: "string \<Rightarrow> 'v client \<Rightarrow> 'v client" where
  "invalidate_one k c =
     (let c1 = snd (abort_in_flight k c)
      in if dm_contains (cl_cache c1) k then notify_subscribers k V_Stale (mark_stale k c1) else c1)"

definition invalidate_queries :: "query_key \<Rightarrow> 'v client \<Rightarrow> 'v client" where
  "invalidate_queries pattern c =
     (let ps = cache_key pattern;
          ks = filter (\<lambda>k. prefix ps k \<or> k = ps) (dm_keys (cl_cache c))
      in fold invalidate_one ks c)"

definition cancel_query :: "query_key \<Rightarrow> 'v client \<Rightarrow> 'v client" where
  "cancel_query key c =
     (case abort_in_flight (cache_key key) c of
        (True, c') \<Rightarrow> notify_subscribers (cache_key key) V_Error c'
      | (False, c') \<Rightarrow> c')"

definition is_in_flight :: "query_key \<Rightarrow> 'v client \<Rightarrow> bool" where
  "is_in_flight key c = dm_contains (cl_in_flight c) (cache_key key)"

definition set_in_flight :: "query_key \<Rightarrow> in_flight_task \<Rightarrow> 'v client \<Rightarrow> 'v client" where
  "set_in_flight key t c = c\<lparr>cl_in_flight := dm_insert (cache_key key) t (cl_in_flight c)\<rparr>"

definition clear_in_flight :: "query_key \<Rightarrow> 'v client \<Rightarrow> 'v client" where
  "clear_in_flight key c = c\<lparr>cl_in_flight := dm_remove (cache_key key) (cl_in_flight c)\<rparr>"

definition client_clear :: "'v client \<Rightarrow> 'v client" where
  "client_clear c =
     c\<lparr>cl_cancelled := cl_cancelled c @ map (if_cancel_token \<circ> snd) (cl_in_flight c),
       cl_aborted := cl_aborted c @ map (if_abort \<circ> snd) (cl_in_flight c),
       cl_in_flight := [], cl_cache := []\<rparr>"

definition gc_internal ::
  "instant \<Rightarrow> (string, 'v cache_entry) dashmap \<Rightarrow> (string, 'v cache_entry) dashmap" where
  "gc_internal now cache =
     dm_retain (\<lambda>k e. elapsed now (ce_last_accessed e) < gc_time (ce_options e)) cache"

definition client_gc :: "instant \<Rightarrow> 'v client \<Rightarrow> 'v client" where
  "client_gc now c = c\<lparr>cl_cache := gc_internal now (cl_cache c)\<rparr>"

definition refetch_stale_one :: "instant \<Rightarrow> string \<Rightarrow> 'v client \<Rightarrow> 'v client" where
  "refetch_stale_one now k c =
     (case dm_get (cl_cache c) k of
        None \<Rightarrow> c
      | Some e \<Rightarrow>
          (let is_stale = entry_is_stale now e
           in if is_stale \<and> allows_refetch (refetch_on_window_focus (ce_options e)) is_stale
              then notify_subscribers k V_Stale (mark_stale k c) else c))"

definition refetch_all_stale :: "instant \<Rightarrow> 'v client \<Rightarrow> 'v client" where
  "refetch_all_stale now c = fold (refetch_stale_one now) (dm_keys (cl_cache c)) c"

subsection \<open>Bulk operations\<close>

definition entry_snapshot :: "instant \<Rightarrow> string \<Rightarrow> 'v cache_entry \<Rightarrow> bool \<Rightarrow> query_snapshot" where
  "entry_snapshot now k e in_flight =
     \<lparr>qs_key = rebuild_key k,
      qs_is_active = (in_flight \<and> QueryOptions_is_enabled (ce_options e)),
      qs_is_stale = entry_is_stale now e,
      qs_fetch_status = (if in_flight then FS_Fetching else FS_Idle),
      qs_status = QS_Success, qs_has_data = True\<rparr>"

definition matching_entries ::
  "instant \<Rightarrow> query_filters \<Rightarrow> 'v client \<Rightarrow> (string \<times> query_snapshot) list" where
  "matching_entries now filters c =
     filter (\<lambda>(k, s). match_query s filters)
       (map (\<lambda>(k, e). (k, entry_snapshot now k e (dm_contains (cl_in_flight c) k))) (cl_cache c))"

definition query_snapshots :: "instant \<Rightarrow> query_filters \<Rightarrow> 'v client \<Rightarrow> query_snapshot list" where
  "query_snapshots now filters c = map snd (matching_entries now filters c)"

definition get_query_state :: "instant \<Rightarrow> query_key \<Rightarrow> 'v client \<Rightarrow> query_state_snapshot option" where
  "get_query_state now key c =
     (case dm_get (cl_cache c) (cache_key key) of
        None \<Rightarrow> None
      | Some e \<Rightarrow>
          Some \<lparr>qss_status = QS_Success,
                qss_fetch_status = (if dm_contains (cl_in_flight c) (cache_key key)
                                    then FS_Fetching else FS_Idle),
                qss_is_stale = entry_is_stale now e, qss_has_data = True,
                qss_data_updated_at = Some (ce_fetched_at e)\<rparr>)"

definition cancel_one :: "string \<Rightarrow> nat \<times> 'v client \<Rightarrow> nat \<times> 'v client" where
  "cancel_one k nc =
     (case abort_in_flight k (snd nc) of
        (True, c) \<Rightarrow> (fst nc + 1, notify_subscribers k V_Error c)
      | (False, c) \<Rightarrow> (fst nc, c))"

definition cancel_queries :: "instant \<Rightarrow> query_filters \<Rightarrow> 'v client \<Rightarrow> nat \<times> 'v client" where
  "cancel_queries now filters c = fold cancel_one (map fst (matching_entries now filters c)) (0, c)"

text \<open>The body \<open>reset_queries\<close> and \<open>remove_queries\<close> share, up to the variant notified.\<close>

definition drop_one :: "query_state_variant \<Rightarrow> string \<Rightarrow> nat \<times> 'v client \<Rightarrow> nat \<times> 'v client" where
  "drop_one variant k nc =
     (let c1 = snd (abort_in_flight k (snd nc));
          n = (if dm_contains (cl_cache c1) k then fst nc + 1 else fst nc);
          c2 = c1\<lparr>cl_cache := dm_remove k (cl_cache c1)\<rparr>
      in (n, notify_subscribers k variant c2))"

definition reset_queries :: "instant \<Rightarrow> query_filters \<Rightarrow> 'v client \<Rightarrow> nat \<times> 'v client" where
  "reset_queries now filters c =
     fold (drop_one V_Loading) (map fst (matching_entries now filters c)) (0, c)"

definition remove_queries :: "instant \<Rightarrow> query_filters \<Rightarrow> 'v client \<Rightarrow> nat \<times> 'v client" where
  "remove_queries now filters c =
     fold (drop_one V_Error) (map fst (matching_entries now filters c)) (0, c)"

definition trigger_refetch :: "string \<Rightarrow> 'v client \<Rightarrow> 'v client" where
  "trigger_refetch k c = notify_subscribers k V_Loading (mark_stale k (snd (abort_in_flight k c)))"

fun refetch_selected :: "refetch_type \<Rightarrow> query_snapshot \<Rightarrow> bool" where
  "refetch_selected RF_All s = True"
| "refetch_selected RF_Active s = qs_is_active s"
| "refetch_selected RF_Inactive s = (\<not> qs_is_active s)"
| "refetch_selected RF_None s = False"

definition invalidate_queries_filtered ::
  "instant \<Rightarrow> invalidate_query_filters \<Rightarrow> 'v client \<Rightarrow> nat \<times> 'v client" where
  "invalidate_queries_filtered now f c =
     (let matches = matching_entries now (iq_filters f) c;
          c1 = fold mark_stale (map fst matches) c;
          c2 = fold (\<lambda>(k, s) c. if refetch_selected (iq_refetch_type f) s
                                 then trigger_refetch k c else c) matches c1
      in (length matches, c2))"

definition refetch_one ::
  "bool \<Rightarrow> string \<times> query_snapshot \<Rightarrow> nat \<times> 'v client \<Rightarrow> nat \<times> 'v client" where
  "refetch_one cancel_refetch ks nc =
     (case dm_get (cl_cache (snd nc)) (fst ks) of
        None \<Rightarrow> nc
      | Some e \<Rightarrow>
          if \<not> QueryOptions_is_enabled (ce_options e)
             \<or> (stale_time_static (ce_options e) \<and> \<not> qs_is_stale (snd ks))
          then nc
          else (let c1 = (if cancel_refetch then snd (abort_in_flight (fst ks) (snd nc)) else snd nc)
                in (fst nc + 1, notify_subscribers (fst ks) V_Loading (mark_stale (fst ks) c1))))"

definition refetch_queries ::
  "instant \<Rightarrow> query_filters \<Rightarrow> refetch_query_filters \<Rightarrow> 'v client \<Rightarrow> nat \<times> 'v client" where
  "refetch_queries now filters opts c =
     fold (refetch_one (rq_cancel_refetch opts)) (matching_entries now filters c) (0, c)"

definition is_fetching_filtered :: "instant \<Rightarrow> query_filters \<Rightarrow> 'v client \<Rightarrow> nat" where
  "is_fetching_filtered now filters c =
     length (filter (\<lambda>(k, s). dm_contains (cl_in_flight c) k) (matching_entries now filters c))"

subsection \<open>Defaults, restore flag, mounting and activity\<close>

definition get_default_options :: "'v client \<Rightarrow> query_options" where
  "get_default_options c =
     (case cl_default_options c of None \<Rightarrow> QueryOptions_default | Some d \<Rightarrow> d)"

definition set_default_options :: "query_options \<Rightarrow> 'v client \<Rightarrow> 'v client" where
  "set_default_options d c = c\<lparr>cl_default_options := Some d\<rparr>"

definition client_is_restoring :: "'v client \<Rightarrow> bool" where
  "client_is_restoring c = cl_is_restoring c"

definition set_is_restoring :: "bool \<Rightarrow> 'v client \<Rightarrow> 'v client" where
  "set_is_restoring b c = c\<lparr>cl_is_restoring := b\<rparr>"

definition resume_paused_mutations :: "'v client \<Rightarrow> nat" where
  "resume_paused_mutations c = 0"

definition reconnect_one :: "instant \<Rightarrow> string \<Rightarrow> 'v client \<Rightarrow> 'v client" where
  "reconnect_one now k c =
     (case dm_get (cl_cache c) k of
        None \<Rightarrow> c
      | Some e \<Rightarrow>
          if allows_refetch (refetch_on_reconnect (ce_options e)) (entry_is_stale now e)
          then notify_subscribers k V_Stale (mark_stale k c) else c)"

definition handle_reconnect :: "instant \<Rightarrow> 'v client \<Rightarrow> 'v client" where
  "handle_reconnect now c = fold (reconnect_one now) (dm_keys (cl_cache c)) c"

definition client_mount :: "'v client \<Rightarrow> 'v client" where
  "client_mount c =
     (let count = cl_mount_count c + 1;
          c1 = c\<lparr>cl_mount_count := count\<rparr>
      in if count = 1
         then (let (om, rx) = OnlineManager_subscribe (cl_online c1);
                   (stop_tx, stop_rx) = Watch_new False;
                   w = \<lparr>rw_stop = stop_tx, rw_stop_rx = stop_rx, rw_rx = rx, rw_running = True\<rparr>
               in QueryClient_clone
                    (c1\<lparr>cl_online := om, cl_watchers := cl_watchers c1 @ [w],
                        cl_reconnect_task := Some (length (cl_watchers c1))\<rparr>))
         else c1)"

definition client_unmount :: "'v client \<Rightarrow> 'v client" where
  "client_unmount c =
     (let count = cl_mount_count c;
          c1 = c\<lparr>cl_mount_count := count - 1\<rparr>
      in if count = 1
         then (case cl_reconnect_task c1 of
                 None \<Rightarrow> c1
               | Some i \<Rightarrow>
                   c1\<lparr>cl_reconnect_task := None,
                      cl_watchers := (cl_watchers c1)[i := (cl_watchers c1 ! i)
                        \<lparr>rw_stop := fst (Watch_send True (rw_stop (cl_watchers c1 ! i)))\<rparr>]\<rparr>)
         else c1)"

text \<open>One pass of the watcher task's loop: the stop signal is polled first. \<open>set_online\<close> is what
  the connectivity source calls.\<close>

definition reconnect_task_step :: "instant \<Rightarrow> nat \<Rightarrow> 'v client \<Rightarrow> 'v client" where
  "reconnect_task_step now i c =
     (let w = cl_watchers c ! i in
      if \<not> (i < length (cl_watchers c) \<and> rw_running w) then c
      else case Changed_poll (rw_stop w) (rw_stop_rx w) of
             (ChangePending, stop, stop_rx) \<Rightarrow>
               (case Changed_poll (om_tx (cl_online c)) (rw_rx w) of
                  (ChangePending, tx, rx) \<Rightarrow>
                    c\<lparr>cl_online := (cl_online c)\<lparr>om_tx := tx\<rparr>,
                      cl_watchers := (cl_watchers c)[i := w\<lparr>rw_stop := stop, rw_stop_rx := stop_rx\<rparr>]\<rparr>
                | (ChangeError, tx, rx) \<Rightarrow>
                    QueryClient_drop
                      (c\<lparr>cl_watchers := (cl_watchers c)[i := w\<lparr>rw_running := False\<rparr>]\<rparr>)
                | (ChangedOk, tx, rx) \<Rightarrow>
                    (let (rx', online) = Watcher_borrow tx rx;
                         c1 = c\<lparr>cl_online := (cl_online c)\<lparr>om_tx := tx\<rparr>,
                                cl_watchers := (cl_watchers c)[i := w\<lparr>rw_stop := stop,
                                  rw_stop_rx := stop_rx, rw_rx := rx'\<rparr>]\<rparr>
                     in if online then handle_reconnect now c1 else c1))
           | _ \<Rightarrow> QueryClient_drop
                    (c\<lparr>cl_watchers := (cl_watchers c)[i := w\<lparr>rw_running := False\<rparr>]\<rparr>))"

definition client_set_online :: "bool \<Rightarrow> 'v client \<Rightarrow> 'v client" where
  "client_set_online b c = c\<lparr>cl_online := OnlineManager_set_online b (cl_online c)\<rparr>"

definition is_fetching :: "'v client \<Rightarrow> bool" where
  "is_fetching c = (cl_fetching_count c > 0)"

definition is_mutating :: "'v client \<Rightarrow> bool" where
  "is_mutating c = (cl_mutating_count c > 0)"

definition subscribe_activity :: "'v client \<Rightarrow> 'v client \<times> nat" where
  "subscribe_activity c =
     (let (b, i) = Sender_subscribe (cl_activity_tx c) in (c\<lparr>cl_activity_tx := b\<rparr>, i))"

definition send_activity :: "activity_event \<Rightarrow> 'v client \<Rightarrow> 'v client" where
  "send_activity ev c = c\<lparr>cl_activity_tx := fst (Sender_send ev (cl_activity_tx c))\<rparr>"

definition inc_fetching :: "'v client \<Rightarrow> 'v client" where
  "inc_fetching c =
     (let new = cl_fetching_count c + 1
      in send_activity (FetchingCountChanged new) (c\<lparr>cl_fetching_count := new\<rparr>))"

definition dec_fetching :: "'v client \<Rightarrow> 'v client" where
  "dec_fetching c =
     (let new = cl_fetching_count c - 1
      in send_activity (FetchingCountChanged new) (c\<lparr>cl_fetching_count := new\<rparr>))"

definition inc_mutating :: "'v client \<Rightarrow> 'v client" where
  "inc_mutating c =
     (let new = cl_mutating_count c + 1
      in send_activity (MutatingCountChanged new) (c\<lparr>cl_mutating_count := new\<rparr>))"

definition dec_mutating :: "'v client \<Rightarrow> 'v client" where
  "dec_mutating c =
     (let new = cl_mutating_count c - 1
      in send_activity (MutatingCountChanged new) (c\<lparr>cl_mutating_count := new\<rparr>))"

subsection \<open>What each building block touches\<close>

lemma notify_frame [simp]:
  "cl_cache (notify_subscribers k v c) = cl_cache c"
  "cl_in_flight (notify_subscribers k v c) = cl_in_flight c"
  "cl_focus_manager (notify_subscribers k v c) = cl_focus_manager c"
  "cl_online (notify_subscribers k v c) = cl_online c"
  "cl_default_options (notify_subscribers k v c) = cl_default_options c"
  "cl_is_restoring (notify_subscribers k v c) = cl_is_restoring c"
  "cl_mount_count (notify_subscribers k v c) = cl_mount_count c"
  "cl_reconnect_task (notify_subscribers k v c) = cl_reconnect_task c"
  "cl_fetching_count (notify_subscribers k v c) = cl_fetching_count c"
  "cl_mutating_count (notify_subscribers k v c) = cl_mutating_count c"
  "cl_activity_tx (notify_subscribers k v c) = cl_activity_tx c"
  "cl_watchers (notify_subscribers k v c) = cl_watchers c"
  "cl_cancelled (notify_subscribers k v c) = cl_cancelled c"
  "cl_aborted (notify_subscribers k v c) = cl_aborted c"
  "cl_next_arc (notify_subscribers k v c) = cl_next_arc c"
  by (simp_all add: notify_subscribers_def Let_def)

lemma abort_frame [simp]:
  "cl_cache (snd (abort_in_flight k c)) = cl_cache c"
  "cl_subscribers (snd (abort_in_flight k c)) = cl_subscribers c"
  "cl_all_subscribers (snd (abort_in_flight k c)) = cl_all_subscribers c"
  "cl_online (snd (abort_in_flight k c)) = cl_online c"
  "cl_reconnect_task (snd (abort_in_flight k c)) = cl_reconnect_task c"
  "cl_activity_tx (snd (abort_in_flight k c)) = cl_activity_tx c"
  "cl_watchers (snd (abort_in_flight k c)) = cl_watchers c"
  "cl_next_arc (snd (abort_in_flight k c)) = cl_next_arc c"
  "fst (abort_in_flight k c) = dm_contains (cl_in_flight c) k"
  "cl_in_flight (snd (abort_in_flight k c)) = dm_remove k (cl_in_flight c)"
  by (simp_all add: abort_in_flight_def dm_contains_def dm_remove_absent split: option.splits)

definition tokens_of :: "string \<Rightarrow> 'v client \<Rightarrow> nat list" where
  "tokens_of k c = (case dm_get (cl_in_flight c) k of None \<Rightarrow> [] | Some t \<Rightarrow> [if_cancel_token t])"

lemma tokens_of_iff:
  "x \<in> set (tokens_of k c) \<longleftrightarrow> (\<exists>t. dm_get (cl_in_flight c) k = Some t \<and> x = if_cancel_token t)"
  by (cases "dm_get (cl_in_flight c) k") (auto simp: tokens_of_def)

lemma abort_cancelled [simp]:
  "cl_cancelled (snd (abort_in_flight k c)) = cl_cancelled c @ tokens_of k c"
  by (simp add: abort_in_flight_def tokens_of_def split: option.splits)

lemma mark_stale_frame [simp]:
  "cl_cache (mark_stale k c) = dm_modify k (\<lambda>e. e\<lparr>ce_is_stale := True\<rparr>) (cl_cache c)"
  "cl_in_flight (mark_stale k c) = cl_in_flight c"
  "cl_subscribers (mark_stale k c) = cl_subscribers c"
  "cl_all_subscribers (mark_stale k c) = cl_all_subscribers c"
  "cl_online (mark_stale k c) = cl_online c"
  "cl_reconnect_task (mark_stale k c) = cl_reconnect_task c"
  "cl_activity_tx (mark_stale k c) = cl_activity_tx c"
  "cl_watchers (mark_stale k c) = cl_watchers c"
  "cl_cancelled (mark_stale k c) = cl_cancelled c"
  "cl_next_arc (mark_stale k c) = cl_next_arc c"
  by (simp_all add: mark_stale_def)

subsection \<open>Loops over cache keys\<close>

text \<open>
  Every bulk operation of the client collects cache keys and runs one body per key. Two contracts
  cover the bodies: a body that aborts the key's in-flight task, and a body that updates the key's
  cache entry by an idempotent function. What a whole loop does is proved once from them.
\<close>

locale aborting_loop =
  fixes step :: "string \<Rightarrow> 's \<Rightarrow> 's" and cl :: "'s \<Rightarrow> 'v client"
  assumes in_flight_step: "cl_in_flight (cl (step k s)) = dm_remove k (cl_in_flight (cl s))"
    and cancelled_step: "cl_cancelled (cl (step k s)) = cl_cancelled (cl s) @ tokens_of k (cl s)"
begin

lemma in_flight_loop:
  "dm_get (cl_in_flight (cl (fold step ks s))) k =
     (if k \<in> set ks then None else dm_get (cl_in_flight (cl s)) k)"
  by (subst fold_proj [where p = "\<lambda>s. cl_in_flight (cl s)" and f = step and g = dm_remove, OF in_flight_step])
    (rule dash.get_fold_remove)

lemma cancelled_loop:
  "x \<in> set (cl_cancelled (cl (fold step ks s))) \<longleftrightarrow>
     x \<in> set (cl_cancelled (cl s))
     \<or> (\<exists>k t. k \<in> set ks \<and> dm_get (cl_in_flight (cl s)) k = Some t \<and> x = if_cancel_token t)"
proof (induction ks arbitrary: s)
  case Nil
  then show ?case by simp
next
  case (Cons k ks)
  show ?case
    unfolding fold_simps o_apply Cons.IH
    by (auto simp: in_flight_step cancelled_step tokens_of_iff split: if_splits)
qed

end

locale cache_loop =
  fixes step :: "string \<Rightarrow> 's \<Rightarrow> 's" and cl :: "'s \<Rightarrow> 'v client"
    and f :: "'v cache_entry \<Rightarrow> 'v cache_entry"
  assumes cache_step: "cl_cache (cl (step k s)) = dm_modify k f (cl_cache (cl s))"
    and f_idem: "f (f e) = f e"
begin

lemma cache_loop_get:
  "dm_get (cl_cache (cl (fold step ks s))) k =
     (if k \<in> set ks then map_option f (dm_get (cl_cache (cl s)) k) else dm_get (cl_cache (cl s)) k)"
  by (subst fold_proj [where p = "\<lambda>s. cl_cache (cl s)" and f = step and g = "\<lambda>k. dm_modify k f", OF cache_step])
    (rule dash.get_fold_modify [OF f_idem])

lemma cache_loop_all:
  "dm_get (cl_cache (cl (fold step (dm_keys (cl_cache (cl s))) s))) k =
     map_option f (dm_get (cl_cache (cl s)) k)"
  by (auto simp: cache_loop_get dm_keys_get)

end

locale refetch_loop = aborting_loop step cl + cache_loop step cl f
  for step :: "string \<Rightarrow> 's \<Rightarrow> 's" and cl :: "'s \<Rightarrow> 'v client"
    and f :: "'v cache_entry \<Rightarrow> 'v cache_entry"

abbreviation to_stale :: "'v cache_entry \<Rightarrow> 'v cache_entry" where
  "to_stale \<equiv> \<lambda>e. e\<lparr>ce_is_stale := True\<rparr>"

interpretation invalidate_l: refetch_loop invalidate_one "\<lambda>c. c" to_stale
  by unfold_locales
    (auto simp: invalidate_one_def Let_def dm_contains_def dm_modify_absent)

interpretation mark_l: cache_loop mark_stale "\<lambda>c. c" to_stale
  by unfold_locales simp_all

interpretation trigger_l: refetch_loop trigger_refetch "\<lambda>c. c" to_stale
  by unfold_locales (simp_all add: trigger_refetch_def)

interpretation cancel_l: aborting_loop cancel_one snd
  by unfold_locales
    (auto simp: cancel_one_def split: prod.splits bool.splits
      dest: arg_cong [where f = snd] simp flip: abort_frame abort_cancelled)

interpretation drop_l: aborting_loop "drop_one v" snd for v
  by unfold_locales (simp_all add: drop_one_def Let_def)

interpretation reconnect_l: cache_loop "reconnect_one now" "\<lambda>c. c"
    "\<lambda>e. if allows_refetch (refetch_on_reconnect (ce_options e)) (entry_is_stale now e)
         then to_stale e else e" for now
  by unfold_locales
    (auto simp: reconnect_one_def dm_modify_def dm_insert_same entry_is_stale_def split: option.splits)

subsection \<open>Reading back a write\<close>

lemma resolve_options_existing: "dm_contains (cl_cache c) k \<Longrightarrow> resolve_options k o' c = o'"
  by (simp add: resolve_options_def)

lemma set_query_data_entry:
  "dm_get (cl_cache (set_query_data peq now key data opts c)) k =
     (if k = cache_key key then
        Some (let opts' = resolve_options k opts c in
          (case dm_get (cl_cache c) k of
             Some old \<Rightarrow>
               if structural_sharing opts' \<and> ce_type_id old = value_type data
                  \<and> eq_any peq data (ce_data old)
               then \<lparr>ce_data = ce_data old, ce_arc = ce_arc old, ce_type_id = value_type data,
                     ce_fetched_at = now, ce_last_accessed = now, ce_options = opts',
                     ce_is_stale = False\<rparr>
               else \<lparr>ce_data = data, ce_arc = cl_next_arc c, ce_type_id = value_type data,
                     ce_fetched_at = now, ce_last_accessed = now, ce_options = opts',
                     ce_is_stale = False\<rparr>
           | None \<Rightarrow> \<lparr>ce_data = data, ce_arc = cl_next_arc c, ce_type_id = value_type data,
                     ce_fetched_at = now, ce_last_accessed = now, ce_options = opts',
                     ce_is_stale = False\<rparr>))
      else dm_get (cl_cache c) k)"
  by (simp add: set_query_data_def Let_def split: option.splits)

lemma set_query_data_read:
  "\<exists>v. get_query_data (value_type data) key (set_query_data peq now key data opts c) = Some v
     \<and> (v = data \<or> peq v data)"
  by (cases "dm_get (cl_cache c) (cache_key key)")
    (auto simp: get_query_data_def set_query_data_entry eq_any_def Let_def split: option.splits)

lemma set_query_data_fresh: "\<not> client_is_stale now key (set_query_data peq now key data opts c)"
  by (simp add: client_is_stale_def set_query_data_entry elapsed_def Let_def split: option.splits)

text \<open>
  \<open>set_query_data\<close> followed by \<open>get_query_data\<close> at the written type returns the written value
  or, under structural sharing, the cached value the user's \<open>PartialEq\<close> declares equal to it, in
  which case the old allocation is kept. A read at any other type returns nothing, a read of any
  other key is unaffected, and the entry is fresh.
\<close>

theorem set_query_data_get:
  "(\<exists>v. get_query_data (value_type data) key (set_query_data peq now key data opts c) = Some v
       \<and> (v = data \<or> (peq v data \<and> (\<exists>old. dm_get (cl_cache c) (cache_key key) = Some old
            \<and> v = ce_data old \<and> map_option ce_arc (dm_get (cl_cache
                (set_query_data peq now key data opts c)) (cache_key key)) = Some (ce_arc old)))))
   \<and> (\<forall>ty. ty \<noteq> value_type data \<longrightarrow>
         get_query_data ty key (set_query_data peq now key data opts c) = None)
   \<and> (\<forall>key' ty. cache_key key' \<noteq> cache_key key \<longrightarrow>
         get_query_data ty key' (set_query_data peq now key data opts c) = get_query_data ty key' c)
   \<and> \<not> client_is_stale now key (set_query_data peq now key data opts c)"
proof (intro conjI allI impI)
  show "\<exists>v. get_query_data (value_type data) key (set_query_data peq now key data opts c) = Some v
       \<and> (v = data \<or> (peq v data \<and> (\<exists>old. dm_get (cl_cache c) (cache_key key) = Some old
            \<and> v = ce_data old \<and> map_option ce_arc (dm_get (cl_cache
                (set_query_data peq now key data opts c)) (cache_key key)) = Some (ce_arc old))))"
  proof (cases "dm_get (cl_cache c) (cache_key key)")
    case None
    then show ?thesis by (simp add: get_query_data_def set_query_data_entry Let_def)
  next
    case (Some old)
    then show ?thesis
      by (auto simp: get_query_data_def set_query_data_entry eq_any_def Let_def split: option.splits)
  qed
next
  show "\<not> client_is_stale now key (set_query_data peq now key data opts c)"
    by (rule set_query_data_fresh)
qed (auto simp: get_query_data_def set_query_data_entry Let_def split: option.splits)

theorem set_query_data_get_witness:
  "get_query_data T_String (QueryKey_new ''k'')
     (set_query_data (=) 5 (QueryKey_new ''k'') (StrV ''v'') QueryOptions_default QueryClient_new)
   = Some (StrV ''v'' :: nat dynval)"
  using set_query_data_get [of "StrV ''v''" "QueryKey_new ''k''" "(=)" 5 QueryOptions_default
      QueryClient_new]
  by (auto simp: QueryClient_new_def)

subsection \<open>Options\<close>

lemma query_options_ext:
  fixes a b :: query_options
  assumes "stale_time a = stale_time b" "stale_time_static a = stale_time_static b"
    "gc_time a = gc_time b" "retry a = retry b" "enabled a = enabled b"
    "enabled_fn a = enabled_fn b" "refetch_on_window_focus a = refetch_on_window_focus b"
    "refetch_on_reconnect a = refetch_on_reconnect b" "refetch_on_mount a = refetch_on_mount b"
    "refetch_interval a = refetch_interval b"
    "refetch_interval_in_background a = refetch_interval_in_background b"
    "structural_sharing a = structural_sharing b" "net_mode a = net_mode b"
    "retry_on_mount a = retry_on_mount b" "throw_on_error a = throw_on_error b"
    "notify_on_change_props a = notify_on_change_props b" "meta a = meta b"
  shows "a = b"
  using assms by (cases a; cases b) simp

text \<open>
  Merging options is a right-biased union over the crate defaults: options left at the crate
  defaults take everything from the client defaults, client defaults equal to the crate defaults
  change nothing, merging is idempotent, and merging is associative.
\<close>

theorem merge_options_laws:
  "merge_options d QueryOptions_default = d
   \<and> merge_options QueryOptions_default p = p
   \<and> merge_options d (merge_options d p) = merge_options d p
   \<and> merge_options (merge_options d e) p = merge_options d (merge_options e p)"
  by (intro conjI; rule query_options_ext)
    (auto simp: merge_options_def Let_def QueryOptions_default_def)

subsection \<open>Invalidation\<close>

lemma invalidate_keys:
  "k \<in> set (filter (\<lambda>k. prefix ps k \<or> k = ps) (dm_keys m)) \<longleftrightarrow>
   prefix ps k \<and> dm_get m k \<noteq> None"
  by (auto simp: dm_keys_get)

text \<open>
  C26. \<open>invalidate_queries\<close> marks stale exactly the cached entries whose cache key has the
  pattern's cache key as a string prefix and changes nothing else in them or in other entries;
  it removes exactly the in-flight tasks of those cached keys and cancels exactly their tokens.
\<close>

theorem invalidate_queries_exact:
  "dm_get (cl_cache (invalidate_queries pat c)) k =
     map_option (\<lambda>e. if prefix (cache_key pat) k then e\<lparr>ce_is_stale := True\<rparr> else e)
       (dm_get (cl_cache c) k)
   \<and> dm_get (cl_in_flight (invalidate_queries pat c)) k =
       (if prefix (cache_key pat) k \<and> dm_contains (cl_cache c) k then None
        else dm_get (cl_in_flight c) k)
   \<and> (x \<in> set (cl_cancelled (invalidate_queries pat c)) \<longleftrightarrow>
        x \<in> set (cl_cancelled c)
        \<or> (\<exists>k t. prefix (cache_key pat) k \<and> dm_contains (cl_cache c) k
             \<and> dm_get (cl_in_flight c) k = Some t \<and> x = if_cancel_token t))"
  unfolding invalidate_queries_def Let_def
  by (simp only: invalidate_l.cache_loop_get invalidate_l.in_flight_loop invalidate_l.cancelled_loop
      invalidate_keys)
    (cases "dm_get (cl_cache c) k"; auto simp: dm_contains_def)

subsection \<open>Filtered bulk operations\<close>

lemma matching_keys_eq:
  "map fst (matching_entries now f c) =
     map fst (filter (\<lambda>(k, e). match_query
       (entry_snapshot now k e (dm_contains (cl_in_flight c) k)) f) (cl_cache c))"
  by (simp add: matching_entries_def filter_map comp_def split_def)

lemma matching_keys:
  assumes "dm_wf (cl_cache c)"
  shows "k \<in> set (map fst (matching_entries now f c)) \<longleftrightarrow>
    (\<exists>e. dm_get (cl_cache c) k = Some e
       \<and> match_query (entry_snapshot now k e (dm_contains (cl_in_flight c) k)) f)"
  unfolding matching_keys_eq using assms by (force simp: dm_get_Some_iff)

lemma matching_distinct:
  "dm_wf (cl_cache c) \<Longrightarrow> distinct (map fst (matching_entries now f c))"
  unfolding matching_keys_eq by (simp add: dm_wf_def distinct_map_filter)

lemma drop_one_cache [simp]: "cl_cache (snd (drop_one v k nc)) = dm_remove k (cl_cache (snd nc))"
  by (simp add: drop_one_def Let_def)

lemma drop_loop_cache:
  "dm_get (cl_cache (snd (fold (drop_one v) ks nc))) k =
     (if k \<in> set ks then None else dm_get (cl_cache (snd nc)) k)"
  by (subst fold_proj [where p = "\<lambda>nc. cl_cache (snd nc)" and f = "drop_one v" and g = dm_remove,
        OF drop_one_cache])
    (rule dash.get_fold_remove)

lemma drop_loop_count:
  "distinct ks \<Longrightarrow> (\<forall>k\<in>set ks. dm_contains (cl_cache (snd nc)) k) \<Longrightarrow>
   fst (fold (drop_one v) ks nc) = fst nc + length ks"
proof (induction ks arbitrary: nc)
  case Nil
  then show ?case by simp
next
  case (Cons k ks)
  have "fst (drop_one v k nc) = fst nc + 1"
    using Cons.prems by (simp add: drop_one_def Let_def)
  moreover have "\<forall>k'\<in>set ks. dm_contains (cl_cache (snd (drop_one v k nc))) k'"
    using Cons.prems by (auto simp: dm_contains_def)
  ultimately show ?case using Cons by simp
qed

lemma matching_cached:
  "dm_wf (cl_cache c) \<Longrightarrow> \<forall>k\<in>set (map fst (matching_entries now f c)). dm_contains (cl_cache c) k"
  unfolding matching_keys by (auto simp: matching_keys dm_contains_def simp del: set_map)

text \<open>
  \<open>remove_queries\<close> (and \<open>reset_queries\<close>, which differs in the notification only) deletes exactly
  the entries that match the filter and returns how many there are; the in-flight tasks of the
  deleted keys, and no others, are gone and their tokens are cancelled.
\<close>

theorem remove_queries_exact:
  assumes "dm_wf (cl_cache c)"
  shows "(\<forall>op \<in> {remove_queries, reset_queries}.
     dm_get (cl_cache (snd (op now f c))) k =
       (if k \<in> fst ` set (matching_entries now f c) then None else dm_get (cl_cache c) k)
     \<and> dm_get (cl_in_flight (snd (op now f c))) k =
         (if k \<in> fst ` set (matching_entries now f c) then None else dm_get (cl_in_flight c) k)
     \<and> fst (op now f c) = length (query_snapshots now f c)
     \<and> (dm_get (cl_in_flight c) k = Some t \<and> k \<in> fst ` set (matching_entries now f c)
          \<longrightarrow> if_cancel_token t \<in> set (cl_cancelled (snd (op now f c)))))"
  using drop_loop_count [OF matching_distinct [OF assms], where nc = "(0, c)"]
    matching_cached [OF assms]
  by (auto simp: remove_queries_def reset_queries_def drop_loop_cache drop_l.in_flight_loop
      drop_l.cancelled_loop query_snapshots_def)

definition demo_client :: "nat client" where
  "demo_client =
     set_in_flight (QueryKey_segment (QueryKey_new ''user'') ''1'') \<lparr>if_abort = 7, if_cancel_token = 9\<rparr>
       (set_query_data (=) 3 (QueryKey_new ''users'') (OtherV 0 20) QueryOptions_default
         (set_query_data (=) 2 (QueryKey_segment (QueryKey_new ''user'') ''1'') (OtherV 0 10)
           QueryOptions_default QueryClient_new))"

theorem remove_queries_exact_witness:
  "fst (remove_queries 5 QueryFilters_all demo_client)
     = length (query_snapshots 5 QueryFilters_all demo_client)"
  using remove_queries_exact [of demo_client 5 QueryFilters_all "''user::1''"
      "\<lparr>if_abort = 7, if_cancel_token = 9\<rparr>"]
  by (simp add: demo_client_def set_in_flight_def set_query_data_def Let_def QueryClient_new_def)

lemma cancel_one_cache [simp]: "cl_cache (snd (cancel_one k nc)) = cl_cache (snd nc)"
  using abort_frame(1) [of k "snd nc"]
  by (simp add: cancel_one_def case_prod_beta split: bool.splits prod.splits)

lemma cancel_loop_cache: "cl_cache (snd (fold cancel_one ks nc)) = cl_cache (snd nc)"
  by (induction ks arbitrary: nc) simp_all

lemma fst_cancel_one:
  "fst (cancel_one k nc) = fst nc + (if dm_contains (cl_in_flight (snd nc)) k then 1 else 0)"
  using abort_frame(9) [of k "snd nc"]
  by (cases "abort_in_flight k (snd nc)")
    (auto simp: cancel_one_def simp del: abort_frame split: bool.splits)

lemma cancel_loop_count:
  "distinct ks \<Longrightarrow> fst (fold cancel_one ks nc) =
     fst nc + length (filter (dm_contains (cl_in_flight (snd nc))) ks)"
proof (induction ks arbitrary: nc)
  case Nil
  then show ?case by simp
next
  case (Cons k ks)
  have "filter (dm_contains (cl_in_flight (snd (cancel_one k nc)))) ks
      = filter (dm_contains (cl_in_flight (snd nc))) ks"
    using Cons.prems by (intro filter_cong) (auto simp: dm_contains_def cancel_l.in_flight_step)
  then show ?case using Cons by (simp add: fst_cancel_one)
qed

text \<open>
  \<open>cancel_queries\<close> returns the number of matching queries that were fetching (the value of
  \<open>is_fetching_filtered\<close>), leaves no matching query in flight, keeps every other in-flight task,
  cancels the tokens of exactly the removed tasks and does not touch the cache.
\<close>

theorem cancel_queries_exact:
  assumes "dm_wf (cl_cache c)"
  shows "fst (cancel_queries now f c) = is_fetching_filtered now f c
     \<and> cl_cache (snd (cancel_queries now f c)) = cl_cache c
     \<and> dm_get (cl_in_flight (snd (cancel_queries now f c))) k =
         (if k \<in> fst ` set (matching_entries now f c) then None else dm_get (cl_in_flight c) k)
     \<and> (x \<in> set (cl_cancelled (snd (cancel_queries now f c))) \<longleftrightarrow> x \<in> set (cl_cancelled c)
          \<or> (\<exists>k t. k \<in> fst ` set (matching_entries now f c) \<and> dm_get (cl_in_flight c) k = Some t
               \<and> x = if_cancel_token t))"
proof -
  have "fst (cancel_queries now f c) = is_fetching_filtered now f c"
    using cancel_loop_count [OF matching_distinct [OF assms], where nc = "(0, c)"]
    by (simp add: cancel_queries_def is_fetching_filtered_def filter_map comp_def split_def)
  then show ?thesis
    by (simp add: cancel_queries_def cancel_loop_cache cancel_l.in_flight_loop
        cancel_l.cancelled_loop)
qed

theorem cancel_queries_exact_witness:
  "fst (cancel_queries 5 QueryFilters_all demo_client) = is_fetching_filtered 5 QueryFilters_all demo_client"
  using cancel_queries_exact [of demo_client 5 QueryFilters_all "''user::1''" 9]
  by (simp add: demo_client_def set_in_flight_def set_query_data_def Let_def QueryClient_new_def)

text \<open>The queries \<open>refetch_queries\<close> triggers among the matching ones.\<close>

definition refetchable :: "(string, 'v cache_entry) dashmap \<Rightarrow> string \<times> query_snapshot \<Rightarrow> bool" where
  "refetchable cache ks =
     (case dm_get cache (fst ks) of
        None \<Rightarrow> False
      | Some e \<Rightarrow> QueryOptions_is_enabled (ce_options e)
                  \<and> \<not> (stale_time_static (ce_options e) \<and> \<not> qs_is_stale (snd ks)))"

lemma refetch_one_frame:
  "cl_cache (snd (refetch_one cr ks nc)) =
     (if refetchable (cl_cache (snd nc)) ks then dm_modify (fst ks) to_stale (cl_cache (snd nc))
      else cl_cache (snd nc))"
  "cl_in_flight (snd (refetch_one cr ks nc)) =
     (if cr \<and> refetchable (cl_cache (snd nc)) ks then dm_remove (fst ks) (cl_in_flight (snd nc))
      else cl_in_flight (snd nc))"
  "fst (refetch_one cr ks nc) = fst nc + (if refetchable (cl_cache (snd nc)) ks then 1 else 0)"
  by (auto simp: refetch_one_def refetchable_def Let_def split: option.splits)

lemma refetchable_other:
  "fst ks' \<noteq> fst ks \<Longrightarrow>
   refetchable (cl_cache (snd (refetch_one cr ks nc))) ks' = refetchable (cl_cache (snd nc)) ks'"
  by (auto simp: refetchable_def refetch_one_frame)

definition refetch_hit ::
  "(string, 'v cache_entry) dashmap \<Rightarrow> (string \<times> query_snapshot) list \<Rightarrow> string \<Rightarrow> bool" where
  "refetch_hit cache ms k = list_ex (\<lambda>m. fst m = k \<and> refetchable cache m) ms"

lemma refetch_hit_simps [simp]:
  "\<not> refetch_hit cache [] k"
  "refetch_hit cache (m # ms) k \<longleftrightarrow> fst m = k \<and> refetchable cache m \<or> refetch_hit cache ms k"
  by (simp_all add: refetch_hit_def)

lemma refetch_loop_effect:
  assumes "distinct (map fst ms)"
  shows "fst (fold (refetch_one cr) ms nc) = fst nc + length (filter (refetchable (cl_cache (snd nc))) ms)
     \<and> dm_get (cl_cache (snd (fold (refetch_one cr) ms nc))) k =
         (if refetch_hit (cl_cache (snd nc)) ms k
          then map_option to_stale (dm_get (cl_cache (snd nc)) k) else dm_get (cl_cache (snd nc)) k)
     \<and> dm_get (cl_in_flight (snd (fold (refetch_one cr) ms nc))) k =
         (if cr \<and> refetch_hit (cl_cache (snd nc)) ms k
          then None else dm_get (cl_in_flight (snd nc)) k)"
  using assms
proof (induction ms arbitrary: nc)
  case Nil
  then show ?case by simp
next
  case (Cons m ms)
  let ?nc = "refetch_one cr m nc"
  have fresh: "fst m \<notin> fst ` set ms" using Cons.prems by simp
  have other: "refetchable (cl_cache (snd ?nc)) ks = refetchable (cl_cache (snd nc)) ks"
    if "ks \<in> set ms" for ks
    by (rule refetchable_other) (metis that fresh imageI)
  have 1: "filter (refetchable (cl_cache (snd ?nc))) ms = filter (refetchable (cl_cache (snd nc))) ms"
    by (rule filter_cong) (auto simp: other)
  have 2: "refetch_hit (cl_cache (snd ?nc)) ms k = refetch_hit (cl_cache (snd nc)) ms k"
    using other by (auto simp: refetch_hit_def list_ex_iff)
  have 3: "\<not> refetch_hit cache ms (fst m)" for cache :: "(string, 'a cache_entry) dashmap"
    using fresh by (force simp: refetch_hit_def list_ex_iff image_iff)
  have "distinct (map fst ms)" using Cons.prems by simp
  from Cons.IH [OF this, of ?nc] show ?case
    unfolding 1 2 by (cases "k = fst m") (simp_all add: refetch_one_frame 3)
qed

text \<open>
  \<open>refetch_queries\<close> triggers exactly the matching queries that are enabled and are not static
  with fresh data: those entries, and no others, become stale, the returned count is their number,
  and with \<open>cancel_refetch\<close> exactly their in-flight tasks are removed (none without it).
\<close>

theorem refetch_queries_exact:
  assumes "dm_wf (cl_cache c)"
  shows "fst (refetch_queries now f opts c)
       = length (filter (refetchable (cl_cache c)) (matching_entries now f c))
     \<and> dm_get (cl_cache (snd (refetch_queries now f opts c))) k =
         (if refetch_hit (cl_cache c) (matching_entries now f c) k
          then map_option (\<lambda>e. e\<lparr>ce_is_stale := True\<rparr>) (dm_get (cl_cache c) k)
          else dm_get (cl_cache c) k)
     \<and> dm_get (cl_in_flight (snd (refetch_queries now f opts c))) k =
         (if rq_cancel_refetch opts \<and> refetch_hit (cl_cache c) (matching_entries now f c) k
          then None else dm_get (cl_in_flight c) k)"
  using refetch_loop_effect [OF matching_distinct [OF assms, of now f],
      where cr = "rq_cancel_refetch opts" and nc = "(0, c)" and k = k]
  unfolding refetch_queries_def by (simp only: fst_conv snd_conv add_0)

theorem refetch_queries_exact_witness:
  "fst (refetch_queries 5 QueryFilters_all RefetchQueryFilters_new demo_client)
     = length (filter (refetchable (cl_cache demo_client)) (matching_entries 5 QueryFilters_all demo_client))"
  using refetch_queries_exact [of demo_client 5 QueryFilters_all RefetchQueryFilters_new "''user::1''"]
  by (simp add: demo_client_def set_in_flight_def set_query_data_def Let_def QueryClient_new_def)

lemma gc_internal_get:
  "dm_wf m \<Longrightarrow> dm_get (gc_internal now m) k =
     (case dm_get m k of None \<Rightarrow> None
      | Some e \<Rightarrow> if elapsed now (ce_last_accessed e) < gc_time (ce_options e) then Some e else None)"
  by (simp add: gc_internal_def dm_get_retain)

text \<open>
  Garbage collection keeps exactly the entries written less than \<open>gc_time\<close> ago and is
  idempotent at one instant; a write protects the entry for \<open>gc_time\<close>, whatever is read later
  (reads do not refresh \<open>last_accessed\<close>).
\<close>

theorem client_gc_exact:
  assumes "dm_wf (cl_cache c)"
  shows "dm_get (cl_cache (client_gc now c)) k =
       (case dm_get (cl_cache c) k of None \<Rightarrow> None
        | Some e \<Rightarrow> if elapsed now (ce_last_accessed e) < gc_time (ce_options e) then Some e else None)
     \<and> dm_get (cl_cache (client_gc now (client_gc now c))) k = dm_get (cl_cache (client_gc now c)) k
     \<and> (t \<le> now \<and> now - t < gc_time (resolve_options (cache_key key) o' c) \<longrightarrow>
         get_query_data (value_type v) key (client_gc now (set_query_data peq t key v o' c))
           = get_query_data (value_type v) key (set_query_data peq t key v o' c))"
proof -
  have wf: "dm_wf (cl_cache (set_query_data peq t key v o' c))"
    using assms by (simp add: set_query_data_def Let_def)
  have "dm_wf (gc_internal now (cl_cache c))"
    using assms by (simp add: gc_internal_def)
  then show ?thesis
    using assms
    by (auto simp: client_gc_def gc_internal_get get_query_data_def gc_internal_get [OF wf]
        set_query_data_entry elapsed_def Let_def split: option.splits)
qed

theorem client_gc_exact_witness:
  "dm_get (cl_cache (client_gc (from_secs 301) demo_client)) ''users'' = None"
  using client_gc_exact [of demo_client "from_secs 301" "''users''"]
  by (simp add: demo_client_def set_in_flight_def set_query_data_def Let_def QueryClient_new_def
      from_secs_def elapsed_def resolve_options_def QueryOptions_default_def DEFAULT_GC_TIME_def
      QueryKey_new_def QueryKey_segment_def SEP_def)

subsection \<open>The client invariant\<close>

text \<open>Every cached value has the type recorded with it, every allocation was numbered before and
  belongs to one key.\<close>

definition cache_ok :: "nat \<Rightarrow> (string, 'v cache_entry) dashmap \<Rightarrow> bool" where
  "cache_ok n cache \<longleftrightarrow> dm_wf cache
     \<and> (\<forall>k e. dm_get cache k = Some e \<longrightarrow> value_type (ce_data e) = ce_type_id e \<and> ce_arc e < n)
     \<and> (\<forall>k k' e e'. dm_get cache k = Some e \<and> dm_get cache k' = Some e' \<and> ce_arc e = ce_arc e'
          \<longrightarrow> k = k')"

definition client_wf :: "'v client \<Rightarrow> bool" where
  "client_wf c \<longleftrightarrow> cache_ok (cl_next_arc c) (cl_cache c)
     \<and> dm_wf (cl_in_flight c) \<and> dm_wf (cl_subscribers c)
     \<and> (\<forall>k b. dm_get (cl_subscribers c) k = Some b \<longrightarrow> bus_wf b)
     \<and> bus_wf (cl_all_subscribers c) \<and> bus_wf (cl_activity_tx c)
     \<and> (\<forall>i. cl_reconnect_task c = Some i \<longrightarrow> i < length (cl_watchers c))"

text \<open>A cache whose entries are entries of another up to stale flag, options and timestamps.\<close>

definition cache_sub ::
  "(string, 'v cache_entry) dashmap \<Rightarrow> (string, 'v cache_entry) dashmap \<Rightarrow> bool" where
  "cache_sub m' m \<longleftrightarrow> dm_wf m' \<and> (\<forall>k e'. dm_get m' k = Some e' \<longrightarrow>
     (\<exists>e. dm_get m k = Some e \<and> ce_arc e' = ce_arc e \<and> ce_data e' = ce_data e
        \<and> ce_type_id e' = ce_type_id e))"

lemma cache_ok_sub:
  assumes "cache_ok n m" "cache_sub m' m"
  shows "cache_ok n m'"
proof -
  have sub: "\<exists>e. dm_get m k = Some e \<and> ce_arc e' = ce_arc e \<and> ce_data e' = ce_data e
      \<and> ce_type_id e' = ce_type_id e" if "dm_get m' k = Some e'" for k e'
    using assms(2) that by (auto simp: cache_sub_def)
  have "k = k'" if h: "dm_get m' k = Some e" "dm_get m' k' = Some e'" "ce_arc e = ce_arc e'"
    for k k' e e'
  proof -
    obtain f f' where "dm_get m k = Some f" "dm_get m k' = Some f'" "ce_arc f = ce_arc f'"
      using sub [OF h(1)] sub [OF h(2)] h(3) by auto
    then show ?thesis using assms(1) by (auto simp: cache_ok_def)
  qed
  moreover have "value_type (ce_data e) = ce_type_id e \<and> ce_arc e < n" if "dm_get m' k = Some e" for k e
    using sub [OF that] assms(1) by (auto simp: cache_ok_def)
  ultimately show ?thesis
    using assms(2) by (auto simp: cache_ok_def cache_sub_def)
qed

lemma cache_sub_remove: "dm_wf m \<Longrightarrow> cache_sub (dm_remove k m) m"
  by (auto simp: cache_sub_def split: if_splits)

lemma cache_sub_stale: "dm_wf m \<Longrightarrow> cache_sub (dm_modify k to_stale m) m"
  by (auto simp: cache_sub_def split: if_splits)

lemma cache_sub_gc: "dm_wf m \<Longrightarrow> cache_sub (gc_internal now m) m"
  by (auto simp: cache_sub_def gc_internal_get gc_internal_def dm_get_retain
      split: option.splits if_splits)

lemma cache_ok_wf: "cache_ok n m \<Longrightarrow> dm_wf m"
  by (simp add: cache_ok_def)

lemma cache_ok_insert:
  assumes "cache_ok n m" "value_type (ce_data e) = ce_type_id e"
    and "ce_arc e = n \<or> (\<exists>e0. dm_get m k = Some e0 \<and> ce_arc e = ce_arc e0)"
  shows "cache_ok (n + 1) (dm_insert k e m)"
proof -
  have lt: "ce_arc e' < n" if "dm_get m k' = Some e'" for k' e'
    using assms(1) that by (auto simp: cache_ok_def)
  have inj: "k1 = k2" if "dm_get m k1 = Some e1" "dm_get m k2 = Some e2" "ce_arc e1 = ce_arc e2"
    for k1 k2 e1 e2
    using assms(1) that by (auto simp: cache_ok_def)
  have new: "k' = k" if "dm_get m k' = Some e'" "ce_arc e' = ce_arc e" for k' e'
    using assms(3) lt [OF that(1)] inj [OF that(1)] that(2) by auto
  have "ce_arc e < n + 1" using assms(3) lt by fastforce
  then show ?thesis
    unfolding cache_ok_def
    using assms(1,2) lt inj new
    by (auto simp: cache_ok_wf less_Suc_eq split: if_splits) (auto simp: cache_ok_def dest: new sym)
qed

lemma bus_wf_send [simp]: "bus_wf b \<Longrightarrow> bus_wf (fst (Sender_send v b))"
  using bus_wf_step [of b "OpSend v"] by (simp add: bus_step.simps)

lemma bus_wf_clone [simp]: "bus_wf b \<Longrightarrow> bus_wf (Sender_clone b)"
  using bus_wf_step [of b OpCloneSender] by (simp add: bus_step.simps)

lemma bus_wf_receiver_drop [simp]: "bus_wf b \<Longrightarrow> bus_wf (Receiver_drop i b)"
  using bus_wf_step [of b "OpDropReceiver i"] by (simp add: bus_step.simps)

lemma bus_wf_new_sender [simp]: "bus_wf (new_sender n)"
  by (simp add: new_sender_def bus_wf_channel)

lemma client_wf_new: "client_wf QueryClient_new"
  by (simp add: client_wf_def QueryClient_new_def cache_ok_def)

lemma wf_notify [simp]: "client_wf c \<Longrightarrow> client_wf (notify_subscribers k v c)"
  unfolding client_wf_def
  by (auto simp: notify_subscribers_def Let_def split: if_splits)

lemma wf_abort [simp]: "client_wf c \<Longrightarrow> client_wf (snd (abort_in_flight k c))"
  by (simp add: client_wf_def)

lemma wf_cache_sub:
  "client_wf c \<Longrightarrow> cache_sub m (cl_cache c) \<Longrightarrow> client_wf (c\<lparr>cl_cache := m\<rparr>)"
  by (auto simp: client_wf_def intro: cache_ok_sub)

lemma wf_cache: "client_wf c \<Longrightarrow> dm_wf (cl_cache c)"
  by (simp add: client_wf_def cache_ok_def)

lemma wf_mark_stale [simp]: "client_wf c \<Longrightarrow> client_wf (mark_stale k c)"
  unfolding mark_stale_def by (intro wf_cache_sub cache_sub_stale wf_cache)

lemma wf_drop_entry: "client_wf c \<Longrightarrow> client_wf (c\<lparr>cl_cache := dm_remove k (cl_cache c)\<rparr>)"
  by (intro wf_cache_sub cache_sub_remove wf_cache)

lemma wf_fold: "client_wf c \<Longrightarrow> (\<And>x c. client_wf c \<Longrightarrow> client_wf (f x c)) \<Longrightarrow> client_wf (fold f xs c)"
  by (induction xs arbitrary: c) auto

lemma wf_fold_snd:
  "client_wf (snd nc) \<Longrightarrow> (\<And>x nc. client_wf (snd nc) \<Longrightarrow> client_wf (snd (f x nc))) \<Longrightarrow>
   client_wf (snd (fold f xs nc))"
  by (induction xs arbitrary: nc) auto

lemma wf_set_query_data: "client_wf c \<Longrightarrow> client_wf (set_query_data peq now key data opts c)"
  unfolding set_query_data_def Let_def
  by (rule wf_notify)
    (auto simp: client_wf_def eq_any_def split: option.splits if_splits
      intro!: cache_ok_insert [unfolded Suc_eq_plus1 [symmetric]])

lemma wf_store_pages:
  "client_wf c \<Longrightarrow> (\<And>e. dm_get (cl_cache c) k = Some e \<Longrightarrow> ce_type_id e = value_type v) \<Longrightarrow>
   client_wf (store_pages now k v c)"
  unfolding store_pages_def dm_modify_def
  by (rule wf_notify)
    (auto simp: client_wf_def split: option.splits
      intro!: cache_ok_insert [unfolded Suc_eq_plus1 [symmetric]],
     auto simp: cache_ok_def less_Suc_eq)

text \<open>Every operation of the client as one step; a panicking \<open>append_infinite_page\<close> leaves the
  client as it was.\<close>

datatype 'v client_op =
    CO_Subscribe string | CO_SubscribeAll | CO_SubscribeActivity | CO_Clone
  | CO_Set instant query_key "'v dynval" query_options
  | CO_Append instant query_key nat nat 'v 'v "nat option"
  | CO_Prepend instant query_key nat nat 'v 'v "nat option"
  | CO_Invalidate query_key | CO_Cancel query_key
  | CO_SetInFlight query_key in_flight_task | CO_ClearInFlight query_key
  | CO_Clear | CO_Gc instant | CO_RefetchAllStale instant
  | CO_CancelQueries instant query_filters | CO_Reset instant query_filters
  | CO_Remove instant query_filters | CO_InvalidateFiltered instant invalidate_query_filters
  | CO_Refetch instant query_filters refetch_query_filters
  | CO_SetDefaults query_options | CO_SetRestoring bool | CO_SetOnline bool
  | CO_Reconnect instant | CO_Mount | CO_Unmount | CO_TaskStep instant nat
  | CO_IncFetching | CO_DecFetching | CO_IncMutating | CO_DecMutating

fun client_step :: "('v dynval \<Rightarrow> 'v dynval \<Rightarrow> bool) \<Rightarrow> 'v client_op \<Rightarrow> 'v client \<Rightarrow> 'v client" where
  "client_step peq (CO_Subscribe k) c = fst (client_subscribe k c)"
| "client_step peq CO_SubscribeAll c = fst (client_subscribe_all c)"
| "client_step peq CO_SubscribeActivity c = fst (subscribe_activity c)"
| "client_step peq CO_Clone c = QueryClient_clone c"
| "client_step peq (CO_Set now key v o') c = set_query_data peq now key v o' c"
| "client_step peq (CO_Append now key t p pg pm mx) c =
     (case append_infinite_page now key t p pg pm mx c of None \<Rightarrow> c | Some (r, c') \<Rightarrow> c')"
| "client_step peq (CO_Prepend now key t p pg pm mx) c =
     snd (prepend_infinite_page now key t p pg pm mx c)"
| "client_step peq (CO_Invalidate key) c = invalidate_queries key c"
| "client_step peq (CO_Cancel key) c = cancel_query key c"
| "client_step peq (CO_SetInFlight key t) c = set_in_flight key t c"
| "client_step peq (CO_ClearInFlight key) c = clear_in_flight key c"
| "client_step peq CO_Clear c = client_clear c"
| "client_step peq (CO_Gc now) c = client_gc now c"
| "client_step peq (CO_RefetchAllStale now) c = refetch_all_stale now c"
| "client_step peq (CO_CancelQueries now f) c = snd (cancel_queries now f c)"
| "client_step peq (CO_Reset now f) c = snd (reset_queries now f c)"
| "client_step peq (CO_Remove now f) c = snd (remove_queries now f c)"
| "client_step peq (CO_InvalidateFiltered now f) c = snd (invalidate_queries_filtered now f c)"
| "client_step peq (CO_Refetch now f o') c = snd (refetch_queries now f o' c)"
| "client_step peq (CO_SetDefaults o') c = set_default_options o' c"
| "client_step peq (CO_SetRestoring b) c = set_is_restoring b c"
| "client_step peq (CO_SetOnline b) c = client_set_online b c"
| "client_step peq (CO_Reconnect now) c = handle_reconnect now c"
| "client_step peq CO_Mount c = client_mount c"
| "client_step peq CO_Unmount c = client_unmount c"
| "client_step peq (CO_TaskStep now i) c = reconnect_task_step now i c"
| "client_step peq CO_IncFetching c = inc_fetching c"
| "client_step peq CO_DecFetching c = dec_fetching c"
| "client_step peq CO_IncMutating c = inc_mutating c"
| "client_step peq CO_DecMutating c = dec_mutating c"

lemma wf_subscribes:
  assumes "client_wf c"
  shows "client_wf (fst (client_subscribe k c))" "client_wf (fst (client_subscribe_all c))"
    "client_wf (fst (subscribe_activity c))" "client_wf (QueryClient_clone c)"
    "client_wf (QueryClient_drop c)"
  using assms
  by (auto simp: bus_wf_subscribe bus_wf_Sender_drop client_wf_def client_subscribe_def client_subscribe_all_def subscribe_activity_def
      QueryClient_clone_def QueryClient_drop_def Let_def case_prod_beta split: option.splits)

lemma wf_type:
  "client_wf c \<Longrightarrow> dm_get (cl_cache c) k = Some e \<Longrightarrow> ce_type_id e = value_type (ce_data e)"
  by (simp add: client_wf_def cache_ok_def)

lemma wf_pages:
  assumes "client_wf c"
  shows "append_infinite_page now key t p pg pm mx c = Some (r, c') \<Longrightarrow> client_wf c'"
    "client_wf (snd (prepend_infinite_page now key t p pg pm mx c))"
  using assms
  by (auto simp: append_infinite_page_def prepend_infinite_page_def Let_def wf_type
      split: option.splits dynval.splits intro!: wf_store_pages)

lemma wf_bodies:
  assumes "client_wf c"
  shows "client_wf (invalidate_one k c)" "client_wf (trigger_refetch k c)"
    "client_wf (refetch_stale_one now k c)" "client_wf (reconnect_one now k c)"
  using assms
  by (auto simp: invalidate_one_def trigger_refetch_def refetch_stale_one_def reconnect_one_def
      Let_def split: option.splits)

lemma wf_abort_pair: "client_wf c \<Longrightarrow> abort_in_flight k c = (b, c') \<Longrightarrow> client_wf c'"
  by (metis snd_conv wf_abort)

lemma wf_abort_drop:
  "client_wf c \<Longrightarrow> client_wf ((snd (abort_in_flight k c))\<lparr>cl_cache := dm_remove k (cl_cache c)\<rparr>)"
  using wf_drop_entry [OF wf_abort] by fastforce

lemma wf_counting_bodies:
  assumes "client_wf (snd nc)"
  shows "client_wf (snd (cancel_one k nc))" "client_wf (snd (drop_one v k nc))"
    "client_wf (snd (refetch_one cr ks nc))"
  using assms
  by (auto simp: cancel_one_def drop_one_def refetch_one_def Let_def wf_abort_drop
      split: option.splits prod.splits bool.splits dest: wf_abort_pair)

lemma wf_reconnect: "client_wf c \<Longrightarrow> client_wf (handle_reconnect now c)"
  unfolding handle_reconnect_def by (intro wf_fold) (auto intro: wf_bodies)

lemma wf_bulk:
  assumes "client_wf c"
  shows "client_wf (invalidate_queries key c)" "client_wf (refetch_all_stale now c)"
    "client_wf (snd (cancel_queries now f c))" "client_wf (snd (reset_queries now f c))"
    "client_wf (snd (remove_queries now f c))"
    "client_wf (snd (refetch_queries now f o' c))"
    "client_wf (snd (invalidate_queries_filtered now fi c))"
  unfolding invalidate_queries_def refetch_all_stale_def cancel_queries_def reset_queries_def
    remove_queries_def refetch_queries_def invalidate_queries_filtered_def Let_def
  using assms
  by (auto intro!: wf_fold wf_fold_snd wf_bodies wf_counting_bodies wf_mark_stale split: prod.splits)

lemma wf_watchers:
  "client_wf c \<Longrightarrow> client_wf (c\<lparr>cl_watchers := (cl_watchers c)[i := w]\<rparr>)"
  "client_wf c \<Longrightarrow> client_wf (c\<lparr>cl_online := om\<rparr>)"
  "client_wf c \<Longrightarrow> client_wf (c\<lparr>cl_online := om, cl_watchers := (cl_watchers c)[i := w]\<rparr>)"
  by (simp_all add: client_wf_def)

lemma wf_mounting:
  assumes "client_wf c"
  shows "client_wf (client_mount c)" "client_wf (client_unmount c)"
    "client_wf (reconnect_task_step now i c)"
  using assms
  by (auto simp: client_mount_def client_unmount_def reconnect_task_step_def Let_def
      split: prod.splits option.splits change_poll.splits
      intro!: wf_subscribes(4,5) wf_watchers wf_reconnect)
    (auto simp: client_wf_def)

lemma wf_cancel_query: "client_wf c \<Longrightarrow> client_wf (cancel_query key c)"
  by (auto simp: cancel_query_def split: prod.splits bool.splits dest: wf_abort_pair)

lemma wf_small:
  assumes "client_wf c"
  shows "client_wf (set_in_flight key t c)" "client_wf (clear_in_flight key c)"
    "client_wf (client_clear c)" "client_wf (set_default_options o' c)"
    "client_wf (set_is_restoring b c)" "client_wf (client_set_online b c)"
    "client_wf (inc_fetching c)" "client_wf (dec_fetching c)"
    "client_wf (inc_mutating c)" "client_wf (dec_mutating c)"
  using assms
  by (simp_all add: client_wf_def set_in_flight_def clear_in_flight_def client_clear_def cache_ok_def
      set_default_options_def set_is_restoring_def client_set_online_def inc_fetching_def
      dec_fetching_def inc_mutating_def dec_mutating_def send_activity_def Let_def)

lemma wf_gc: "client_wf c \<Longrightarrow> client_wf (client_gc now c)"
  unfolding client_gc_def by (intro wf_cache_sub cache_sub_gc wf_cache)

lemma wf_step: "client_wf c \<Longrightarrow> client_wf (client_step peq op c)"
  by (cases op)
    (auto simp: wf_subscribes wf_pages wf_bulk wf_mounting wf_reconnect wf_set_query_data wf_small
      wf_cancel_query wf_gc split: option.splits)

interpretation client_m: inv_machine QueryClient_new "client_step peq" client_wf for peq
  by unfold_locales (auto intro: client_wf_new wf_step)

text \<open>
  C6. In every state a client can reach, whatever sequence of its operations ran before (writes,
  page appends, invalidations, bulk operations, garbage collection, mounting, reconnect task
  steps, subscriptions, activity updates), every cached value has the type recorded in its entry,
  so a typed read never fails its downcast after passing the type check; every cached allocation
  belongs to a single key; keys are unique in each table; and every notification channel is
  well-formed.
\<close>

theorem client_invariant:
  "client_wf (fold (client_step peq) ops QueryClient_new)
   \<and> (\<forall>e. dm_get (cl_cache (fold (client_step peq) ops QueryClient_new)) (cache_key key) = Some e
        \<longrightarrow> get_query_data (ce_type_id e) key (fold (client_step peq) ops QueryClient_new)
              = Some (ce_data e))"
  using client_m.inv_run [of peq ops]
  by (auto simp: get_query_data_def client_wf_def cache_ok_def)

theorem client_invariant_witness:
  "get_query_data (T_Other 0) (QueryKey_new ''a'') (fold (client_step (=))
      [CO_Set 1 (QueryKey_new ''a'') (OtherV 0 (4::nat)) QueryOptions_default] QueryClient_new)
   = Some (OtherV 0 4)"
  using client_invariant [of "(=)" "[CO_Set 1 (QueryKey_new ''a'') (OtherV 0 (4::nat)) QueryOptions_default]"
      "QueryKey_new ''a''"]
  by (simp add: set_query_data_entry QueryClient_new_def Let_def)

end
