(* ===== verification/Client_Laws.thy ===== *)
theory Client_Laws
  imports Query_Client
begin

text \<open>
  Laws of the client that span several of its operations: filters against the keys rebuilt from
  the cache, invalidation against the segment prefix, the two notions of staleness, and the
  mount/reconnect machinery.
\<close>

subsection \<open>Keys and filters\<close>

lemma exact_filter_snapshot:
  "match_query (entry_snapshot now s e flying) (QueryFilters_exact (QueryFilters_with_key k)) \<longleftrightarrow>
     rebuild_key s = k"
  by (simp add: match_query_exact_key entry_snapshot_def)

lemma prefix_filter_snapshot:
  "match_query (entry_snapshot now s e flying) (QueryFilters_with_key k) \<longleftrightarrow>
     QueryKey_starts_with (rebuild_key s) k"
  by (simp add: match_query_with_key entry_snapshot_def)

text \<open>
  C40. The client stores queries under the joined cache key and rebuilds the segments by splitting.
  For keys whose segments hold no colon the round trip is exact, so an exact filter selects the
  entry of precisely that key and a prefix filter the entries of precisely the keys that extend it
  segment by segment.
\<close>

theorem filter_selects_key:
  assumes "key_wf k" and "key_clean k" and "key_wf k'" and "key_clean k'"
  shows "rebuild_key (cache_key k) = k
     \<and> (match_query (entry_snapshot now (cache_key k') e flying)
          (QueryFilters_exact (QueryFilters_with_key k)) \<longleftrightarrow> k' = k)
     \<and> (match_query (entry_snapshot now (cache_key k') e flying) (QueryFilters_with_key k) \<longleftrightarrow>
          prefix (segments k) (segments k'))"
  using assms by (auto simp: exact_filter_snapshot prefix_filter_snapshot rebuild_clean starts_with_prefix)

theorem filter_selects_key_witness:
  "rebuild_key (cache_key (QueryKey_segment (QueryKey_new ''users'') ''1''))
     = QueryKey_segment (QueryKey_new ''users'') ''1''"
  by (rule filter_selects_key [where k' = "QueryKey_new ''users''", THEN conjunct1])
    (simp_all add: key_clean_def QueryKey_new_def QueryKey_segment_def key_wf_def SEP_def)

text \<open>
  A key with a segment that holds the separator is lost by the rebuild: cached under it, its
  entry is selected by no exact filter built from the key itself, so \<open>cancel_queries\<close>,
  \<open>remove_queries\<close> and the other bulk operations silently skip it.
\<close>

theorem exact_filter_misses_key:
  assumes "rebuild_key (cache_key k) \<noteq> k"
  shows "matching_entries now (QueryFilters_exact (QueryFilters_with_key k)) c = []
     \<and> fst (remove_queries now (QueryFilters_exact (QueryFilters_with_key k)) c) = 0"
proof -
  have "rebuild_key s \<noteq> k" for s
    using assms by (metis cache_key_rebuild)
  then have "matching_entries now (QueryFilters_exact (QueryFilters_with_key k)) c = []"
    by (auto simp: matching_entries_def filter_empty_conv exact_filter_snapshot)
  then show ?thesis by (simp add: remove_queries_def)
qed

theorem exact_filter_misses_key_witness:
  "fst (remove_queries 1 (QueryFilters_exact (QueryFilters_with_key (QueryKey_new ''a::b'')))
      (set_query_data (=) 0 (QueryKey_new ''a::b'') (OtherV 0 (1::nat)) QueryOptions_default
        QueryClient_new)) = 0"
  by (rule exact_filter_misses_key [THEN conjunct2])
    (simp add: rebuild_key_def str_split_def QueryKey_from_segments_def QueryKey_new_def
      QueryKey_segment_def SEP_def)

lemma invalidate_entry:
  "dm_get (cl_cache (invalidate_queries pat c)) k =
     map_option (\<lambda>e. if prefix (cache_key pat) k then e\<lparr>ce_is_stale := True\<rparr> else e)
       (dm_get (cl_cache c) k)"
  unfolding invalidate_queries_def Let_def
  by (simp only: invalidate_l.cache_loop_get invalidate_keys)
    (cases "dm_get (cl_cache c) k"; auto)

text \<open>
  \<open>invalidate_queries\<close> reaches every cached key that extends the pattern segment by segment,
  but it compares strings: a key that merely begins with the same characters is invalidated too,
  as \<open>users\<close> is by the pattern \<open>user\<close>, which the segment prefix of the key type excludes.
\<close>

theorem invalidate_prefix_overreach:
  "(key_wf p \<and> key_wf k \<and> QueryKey_starts_with k p \<and> dm_get (cl_cache c) (cache_key k) = Some e
      \<longrightarrow> client_is_stale now k (invalidate_queries p c))
   \<and> \<not> QueryKey_starts_with (QueryKey_new ''users'') (QueryKey_new ''user'')
   \<and> (dm_get (cl_cache c) ''users'' = Some e
      \<longrightarrow> client_is_stale now (QueryKey_new ''users'') (invalidate_queries (QueryKey_new ''user'') c))"
proof (intro conjI impI)
  assume "key_wf p \<and> key_wf k \<and> QueryKey_starts_with k p \<and> dm_get (cl_cache c) (cache_key k) = Some e"
  then show "client_is_stale now k (invalidate_queries p c)"
    by (auto simp: client_is_stale_def invalidate_entry starts_with_cache_key)
next
  assume "dm_get (cl_cache c) ''users'' = Some e"
  then show "client_is_stale now (QueryKey_new ''users'') (invalidate_queries (QueryKey_new ''user'') c)"
    by (simp add: client_is_stale_def invalidate_entry QueryKey_new_def)
qed (simp add: QueryKey_starts_with_def QueryKey_new_def)

theorem invalidate_prefix_overreach_witness:
  "client_is_stale 9 (QueryKey_new ''users'') (invalidate_queries (QueryKey_new ''user'') demo_client)"
  using invalidate_prefix_overreach [of "QueryKey_new ''user''" "QueryKey_new ''users''" demo_client
      "the (dm_get (cl_cache demo_client) ''users'')" 9]
  by (simp add: demo_client_def set_in_flight_def set_query_data_def Let_def QueryKey_new_def)

subsection \<open>Staleness\<close>

text \<open>
  The client and the options disagree on static data. For an entry not marked stale by hand the
  client's staleness is the options' \<open>is_stale_by_time\<close> when \<open>stale_time_static\<close> is off; when it is
  on, \<open>is_stale_by_time\<close> never reports stale while the client still does once \<open>stale_time\<close> has
  passed.
\<close>

theorem stale_static_divergence:
  assumes "dm_get (cl_cache c) (cache_key key) = Some e" and "\<not> ce_is_stale e"
  shows "(\<not> stale_time_static (ce_options e) \<longrightarrow>
       client_is_stale now key c = is_stale_by_time now (ce_options e) (ce_fetched_at e))
     \<and> (stale_time_static (ce_options e) \<longrightarrow>
         \<not> is_stale_by_time now (ce_options e) (ce_fetched_at e)
         \<and> (0 < stale_time (ce_options e) \<and> stale_time (ce_options e) < elapsed now (ce_fetched_at e)
              \<longrightarrow> client_is_stale now key c))"
  using assms by (auto simp: client_is_stale_def is_stale_by_time_def Let_def)

theorem stale_static_divergence_witness:
  "client_is_stale 10 (QueryKey_new ''s'') (set_query_data (=) 0 (QueryKey_new ''s'') (OtherV 0 (1::nat))
      (QueryOptions_stale_time_static (QueryOptions_stale_time 3 QueryOptions_default)) QueryClient_new)"
  using stale_static_divergence [of "set_query_data (=) 0 (QueryKey_new ''s'') (OtherV 0 (1::nat))
      (QueryOptions_stale_time_static (QueryOptions_stale_time 3 QueryOptions_default)) QueryClient_new"
      "QueryKey_new ''s''" _ 10]
  by (simp add: set_query_data_entry Let_def QueryClient_new_def resolve_options_def
      QueryOptions_stale_time_static_def QueryOptions_stale_time_def elapsed_def)

subsection \<open>Mounting and reconnecting\<close>

lemma reconnect_entry:
  "dm_get (cl_cache (handle_reconnect now c)) k =
     map_option (\<lambda>e. if allows_refetch (refetch_on_reconnect (ce_options e)) (entry_is_stale now e)
                     then e\<lparr>ce_is_stale := True\<rparr> else e) (dm_get (cl_cache c) k)"
  unfolding handle_reconnect_def by (rule reconnect_l.cache_loop_all)

text \<open>The connectivity source drops and restores the connection.\<close>

definition reconnect :: "'v client \<Rightarrow> 'v client" where
  "reconnect c = client_set_online True (client_set_online False c)"

lemma reconnect_watch:
  "om_tx (cl_online (reconnect c)) =
     (if om_online (cl_online c)
      then (om_tx (cl_online c))\<lparr>w_value := True, w_version := w_version (om_tx (cl_online c)) + 2, w_waiters := []\<rparr>
      else (om_tx (cl_online c))\<lparr>w_value := True, w_version := w_version (om_tx (cl_online c)) + 1, w_waiters := []\<rparr>)"
  by (simp add: reconnect_def client_set_online_def OnlineManager_set_online_def
      OnlineManager_is_online_def Watch_send_def)

lemma reconnect_frame [simp]:
  "cl_cache (reconnect c) = cl_cache c" "cl_watchers (reconnect c) = cl_watchers c"
  "cl_mount_count (reconnect c) = cl_mount_count c"
  "cl_reconnect_task (reconnect c) = cl_reconnect_task c"
  by (simp_all add: reconnect_def client_set_online_def)

lemma mount_first:
  assumes "cl_mount_count c = 0"
  shows "cl_cache (client_mount c) = cl_cache c"
    "cl_watchers (client_mount c) = cl_watchers c @
       [\<lparr>rw_stop = fst (Watch_new False), rw_stop_rx = snd (Watch_new False),
         rw_rx = snd (Watch_subscribe (om_tx (cl_online c))), rw_running = True\<rparr>]"
    "cl_online (client_mount c) = fst (OnlineManager_subscribe (cl_online c))"
    "cl_mount_count (client_mount c) = 1"
    "cl_reconnect_task (client_mount c) = Some (length (cl_watchers c))"
  using assms
  by (simp_all add: client_mount_def QueryClient_clone_def OnlineManager_subscribe_def
      Watch_new_def Watch_subscribe_def Let_def)

text \<open>
  C36. The reconnect watcher works: once the client is mounted, a lost and restored connection makes
  the next pass of the watcher task run the reconnect refetch, which marks stale exactly the entries
  whose \<open>refetch_on_reconnect\<close> trigger allows it. After \<open>unmount\<close> the task ends at its next pass
  without touching the cache.
\<close>

theorem reconnect_watcher_fires:
  assumes "cl_mount_count c = 0"
  shows "dm_get (cl_cache (reconnect_task_step now (length (cl_watchers c)) (reconnect (client_mount c)))) k =
       map_option (\<lambda>e. if allows_refetch (refetch_on_reconnect (ce_options e)) (entry_is_stale now e)
                       then e\<lparr>ce_is_stale := True\<rparr> else e) (dm_get (cl_cache c) k)
     \<and> cl_cache (reconnect_task_step now (length (cl_watchers c))
         (client_unmount (reconnect (client_mount c)))) = cl_cache c
     \<and> \<not> rw_running (cl_watchers (reconnect_task_step now (length (cl_watchers c))
         (client_unmount (reconnect (client_mount c)))) ! length (cl_watchers c))"
proof (intro conjI)
  let ?i = "length (cl_watchers c)" and ?c = "reconnect (client_mount c)"
  let ?w = "cl_watchers ?c ! ?i"
  have w: "?w = \<lparr>rw_stop = fst (Watch_new False), rw_stop_rx = snd (Watch_new False),
      rw_rx = snd (Watch_subscribe (om_tx (cl_online c))), rw_running = True\<rparr>"
    by (simp add: mount_first [OF assms])
  have i: "?i < length (cl_watchers ?c)" by (simp add: mount_first [OF assms])
  have ver: "w_version (om_tx (cl_online (client_mount c))) = wr_last_seen (rw_rx ?w)"
    unfolding w by (simp add: mount_first [OF assms] OnlineManager_subscribe_def Watch_subscribe_def)
  have "Changed_poll (om_tx (cl_online ?c)) (rw_rx ?w) =
      (ChangedOk, om_tx (cl_online ?c), (rw_rx ?w)\<lparr>wr_last_seen := w_version (om_tx (cl_online ?c))\<rparr>)"
    using ver by (auto simp: Changed_poll_def reconnect_watch)
  moreover have "w_value (om_tx (cl_online ?c))"
    by (simp add: reconnect_watch)
  moreover have "fst (Changed_poll (rw_stop ?w) (rw_stop_rx ?w)) = ChangePending"
    unfolding w by (simp add: Changed_poll_def Watch_new_def)
  ultimately show "dm_get (cl_cache (reconnect_task_step now ?i ?c)) k =
       map_option (\<lambda>e. if allows_refetch (refetch_on_reconnect (ce_options e)) (entry_is_stale now e)
                       then e\<lparr>ce_is_stale := True\<rparr> else e) (dm_get (cl_cache c) k)"
    using i w
    by (auto simp: reconnect_task_step_def Watcher_borrow_def reconnect_entry mount_first [OF assms]
        Let_def split: prod.splits)
next
  let ?i = "length (cl_watchers c)" and ?c = "client_unmount (reconnect (client_mount c))"
  have un: "cl_watchers ?c ! ?i = \<lparr>rw_stop = fst (Watch_send True (fst (Watch_new False))),
      rw_stop_rx = snd (Watch_new False),
      rw_rx = snd (Watch_subscribe (om_tx (cl_online c))), rw_running = True\<rparr>"
    "cl_cache ?c = cl_cache c" "?i < length (cl_watchers ?c)"
    by (simp_all add: client_unmount_def mount_first [OF assms] Let_def nth_append)
  then have fired: "fst (Changed_poll (rw_stop (cl_watchers ?c ! ?i)) (rw_stop_rx (cl_watchers ?c ! ?i))) = ChangedOk"
    by (simp add: Changed_poll_def Watch_new_def Watch_send_def)
  then show "cl_cache (reconnect_task_step now ?i ?c) = cl_cache c"
    using un by (auto simp: reconnect_task_step_def QueryClient_drop_def Let_def split: prod.splits)
  show "\<not> rw_running (cl_watchers (reconnect_task_step now ?i ?c) ! ?i)"
    using un fired by (auto simp: reconnect_task_step_def QueryClient_drop_def Let_def split: prod.splits)
qed

theorem reconnect_watcher_fires_witness:
  "map_option ce_is_stale (dm_get (cl_cache (reconnect_task_step 9 0 (reconnect (client_mount
     (mark_stale ''users'' demo_client))))) ''users'') = Some True"
  using reconnect_watcher_fires [of "mark_stale ''users'' demo_client" 9 "''users''"]
  by (simp add: demo_client_def set_in_flight_def set_query_data_def Let_def QueryClient_new_def
      mark_stale_def QueryKey_new_def notify_subscribers_def comp_def option.map_comp)

text \<open>A sequence of \<open>mount\<close> (\<open>True\<close>) and \<open>unmount\<close> (\<open>False\<close>) calls, and its balance: \<open>None\<close> when an
  \<open>unmount\<close> has no matching \<open>mount\<close>.\<close>

definition mount_run :: "bool list \<Rightarrow> 'v client \<Rightarrow> 'v client" where
  "mount_run bs c = fold (\<lambda>b. if b then client_mount else client_unmount) bs c"

fun balance :: "bool list \<Rightarrow> nat \<Rightarrow> nat option" where
  "balance [] n = Some n"
| "balance (True # bs) n = balance bs (n + 1)"
| "balance (False # bs) n = (if n = 0 then None else balance bs (n - 1))"

lemma mount_fields:
  "cl_mount_count (client_mount c) = cl_mount_count c + 1"
  "cl_reconnect_task (client_mount c) =
     (if cl_mount_count c + 1 = 1 then Some (length (cl_watchers c)) else cl_reconnect_task c)"
  "cl_mount_count (client_unmount c) = cl_mount_count c - 1"
  "cl_reconnect_task (client_unmount c) =
     (if cl_mount_count c = 1 then None else cl_reconnect_task c)"
  by (auto simp: client_mount_def client_unmount_def QueryClient_clone_def Let_def
      split: prod.splits option.splits)

lemma mount_run_inv:
  assumes "balance bs n = Some m" and "cl_mount_count c = of_nat n" and "n + length bs < 2 ^ 64"
    and "(cl_reconnect_task c \<noteq> None) = (n > 0)"
  shows "cl_mount_count (mount_run bs c) = of_nat m
     \<and> (cl_reconnect_task (mount_run bs c) \<noteq> None) = (m > 0)"
  using assms
proof (induction bs n arbitrary: c rule: balance.induct)
  case (1 n)
  then show ?case by (simp add: mount_run_def)
next
  case (2 bs n)
  have eq1: "(of_nat n + 1 = (1 :: 64 word)) = (n = 0)"
    using word_of_nat_eq_iff [where 'a = 64, of n 0] 2(4) by (simp add: take_bit_nat_eq_self)
  have "cl_mount_count (mount_run bs (client_mount c)) = of_nat m
     \<and> (cl_reconnect_task (mount_run bs (client_mount c)) \<noteq> None) = (m > 0)"
    using 2(2,3,4,5) eq1
    by (intro 2(1)) (simp_all only: balance.simps mount_fields, auto)
  then show ?case by (simp add: mount_run_def)
next
  case (3 bs n)
  have n0: "n \<noteq> 0" using 3(2) by (auto split: if_splits)
  have eq1: "(of_nat n = (1 :: 64 word)) = (n = 1)"
    using word_of_nat_eq_iff [where 'a = 64, of n 1] 3(4) by (simp add: take_bit_nat_eq_self)
  have "cl_mount_count (mount_run bs (client_unmount c)) = of_nat m
     \<and> (cl_reconnect_task (mount_run bs (client_unmount c)) \<noteq> None) = (m > 0)"
    using 3(2,3,4,5) eq1 n0
    by (intro 3(1)) (auto simp: mount_fields of_nat_diff)
  then show ?case by (simp add: mount_run_def)
qed

text \<open>
  C27. Mounts are reference counted: after any sequence of fewer than \<open>2^64\<close> mounts and unmounts in
  which no unmount comes before its mount, the counter is the balance and the reconnect watcher is
  registered exactly while the balance is positive. One unmatched \<open>unmount\<close> breaks it for good: the
  counter wraps to its maximum and the following \<open>mount\<close> starts no watcher.
\<close>

theorem mount_refcount:
  assumes "balance bs 0 = Some m" and "length bs < 2 ^ 64" and "c = (QueryClient_new :: 'v client)"
  shows "cl_mount_count (mount_run bs c) = of_nat m
     \<and> (cl_reconnect_task (mount_run bs c) \<noteq> None) = (m > 0)
     \<and> cl_mount_count (client_unmount c) = - 1
     \<and> cl_reconnect_task (client_mount (client_unmount c)) = None"
proof -
  have c: "cl_mount_count c = of_nat 0" "cl_reconnect_task c = None"
    by (simp_all add: assms(3) QueryClient_new_def)
  then show ?thesis
    using mount_run_inv [OF assms(1) c(1)] assms(2) by (simp add: mount_fields)
qed

theorem mount_refcount_witness:
  "cl_mount_count (mount_run [True, True, False] (QueryClient_new :: nat client)) = of_nat 1"
  using mount_refcount [of "[True, True, False]" 1 "QueryClient_new :: nat client"] by simp

subsection \<open>Invalidating a list of keys\<close>

lemma invalidate_flying:
  "dm_get (cl_in_flight (invalidate_queries pat c)) k =
     (if prefix (cache_key pat) k \<and> dm_contains (cl_cache c) k then None else dm_get (cl_in_flight c) k)"
  unfolding invalidate_queries_def Let_def
  by (simp only: invalidate_l.in_flight_loop invalidate_keys) (auto simp: dm_contains_def)

lemma invalidate_list:
  "dm_get (cl_cache (fold invalidate_queries pats c)) k =
     map_option (\<lambda>e. if \<exists>pat\<in>set pats. prefix (cache_key pat) k then e\<lparr>ce_is_stale := True\<rparr> else e) (dm_get (cl_cache c) k)"
  "dm_get (cl_in_flight (fold invalidate_queries pats c)) k =
     (if (\<exists>pat\<in>set pats. prefix (cache_key pat) k) \<and> dm_contains (cl_cache c) k then None else dm_get (cl_in_flight c) k)"
proof (induction pats arbitrary: c)
  case (Cons pat pats)
  case 1
  show ?case by (cases "dm_get (cl_cache c) k") (simp_all add: Cons.IH invalidate_entry)
  case 2
  show ?case by (auto simp: Cons.IH invalidate_entry invalidate_flying dm_contains_def)
qed (simp_all add: option.map_ident)

end
