(* ===== verification/Client_Refinement.thy ===== *)
theory Client_Refinement
  imports Client_Laws
begin

text \<open>
  An abstract specification of \<open>src/client.rs\<close> and the proof that the client implements it. The
  specification knows a finite map of entries, the keys with a fetch in flight, the cancelled tokens and
  the default options. Its operations are set comprehensions over keys: no iteration order, no channels,
  no allocations, no type identifiers, no watchers. Every operation of the client is a step of it.
\<close>

subsection \<open>Simulations\<close>

text \<open>
  A machine with an invariant, an abstraction of its states and an abstract step relation that
  allows what every concrete step does: then every run is a run of the abstract relation.
\<close>

fun runs :: "('op \<Rightarrow> 'a \<Rightarrow> 'a \<Rightarrow> bool) \<Rightarrow> 'op list \<Rightarrow> 'a \<Rightarrow> 'a \<Rightarrow> bool" where
  "runs R [] a b \<longleftrightarrow> a = b"
| "runs R (op # ops) a b \<longleftrightarrow> (\<exists>m. R op a m \<and> runs R ops m b)"

locale simulation = inv_machine init step inv
  for init :: 's and step :: "'op \<Rightarrow> 's \<Rightarrow> 's" and inv :: "'s \<Rightarrow> bool" +
  fixes abs :: "'s \<Rightarrow> 'a" and astep :: "'op \<Rightarrow> 'a \<Rightarrow> 'a \<Rightarrow> bool"
  assumes simulates: "inv s \<Longrightarrow> astep op (abs s) (abs (step op s))"
begin

lemma runs_fold: "inv s \<Longrightarrow> runs astep ops (abs s) (abs (fold step ops s))"
  by (induction ops arbitrary: s) (auto intro: simulates inv_step)

lemma runs_init: "runs astep ops (abs init) (abs (fold step ops init))"
  by (rule runs_fold [OF inv_init])

end

subsection \<open>The specification\<close>

record 'v spec_entry =
  xe_data :: "'v dynval"
  xe_fetched_at :: instant
  xe_written_at :: instant
  xe_options :: query_options
  xe_stale :: bool

record 'v spec_client =
  sp_cache :: "string \<rightharpoonup> 'v spec_entry"
  sp_flying :: "string \<rightharpoonup> nat"
  sp_cancelled :: "nat set"
  sp_defaults :: "query_options option"

definition spec_stale :: "instant \<Rightarrow> 'v spec_entry \<Rightarrow> bool" where
  "spec_stale now e \<longleftrightarrow> xe_stale e
     \<or> (stale_time (xe_options e) \<noteq> 0 \<and> elapsed now (xe_fetched_at e) > stale_time (xe_options e))"

definition spec_snapshot :: "instant \<Rightarrow> string \<Rightarrow> 'v spec_entry \<Rightarrow> bool \<Rightarrow> query_snapshot" where
  "spec_snapshot now k e flying =
     \<lparr>qs_key = rebuild_key k, qs_is_active = (flying \<and> QueryOptions_is_enabled (xe_options e)),
      qs_is_stale = spec_stale now e, qs_fetch_status = (if flying then FS_Fetching else FS_Idle),
      qs_status = QS_Success, qs_has_data = True\<rparr>"

text \<open>The entries that satisfy a condition, and the snapshots a filter selects.\<close>

definition having :: "(string \<Rightarrow> 'v spec_entry \<Rightarrow> bool) \<Rightarrow> 'v spec_client \<Rightarrow> string set" where
  "having P a = {k. \<exists>e. sp_cache a k = Some e \<and> P k e}"

definition snapshot_of :: "instant \<Rightarrow> 'v spec_client \<Rightarrow> string \<Rightarrow> 'v spec_entry \<Rightarrow> query_snapshot" where
  "snapshot_of now a k e = spec_snapshot now k e (sp_flying a k \<noteq> None)"

definition selected :: "instant \<Rightarrow> query_filters \<Rightarrow> 'v spec_client \<Rightarrow> string set" where
  "selected now f a = having (\<lambda>k e. match_query (snapshot_of now a k e) f) a"

definition spec_touch :: "string set \<Rightarrow> 'v spec_client \<Rightarrow> 'v spec_client" where
  "spec_touch S a =
     a\<lparr>sp_cache := \<lambda>k. if k \<in> S then map_option (\<lambda>e. e\<lparr>xe_stale := True\<rparr>) (sp_cache a k) else sp_cache a k\<rparr>"

definition spec_forget :: "string set \<Rightarrow> 'v spec_client \<Rightarrow> 'v spec_client" where
  "spec_forget S a = a\<lparr>sp_cache := sp_cache a |` (- S)\<rparr>"

definition spec_abort :: "string set \<Rightarrow> 'v spec_client \<Rightarrow> 'v spec_client" where
  "spec_abort S a =
     a\<lparr>sp_flying := sp_flying a |` (- S), sp_cancelled := sp_cancelled a \<union> {x. \<exists>k\<in>S. sp_flying a k = Some x}\<rparr>"

definition spec_options :: "string \<Rightarrow> query_options \<Rightarrow> 'v spec_client \<Rightarrow> query_options" where
  "spec_options k o' a =
     (case sp_cache a k of
        Some e \<Rightarrow> o'
      | None \<Rightarrow> (case sp_defaults a of Some d \<Rightarrow> merge_options d o' | None \<Rightarrow> o'))"

text \<open>A write: structural sharing keeps the old value when the user's equality accepts it.\<close>

definition spec_write ::
  "('v dynval \<Rightarrow> 'v dynval \<Rightarrow> bool) \<Rightarrow> instant \<Rightarrow> string \<Rightarrow> 'v dynval \<Rightarrow> query_options \<Rightarrow> 'v spec_client \<Rightarrow> 'v spec_client" where
  "spec_write peq now k v o' a =
     (let opts = spec_options k o' a;
          kept = (case sp_cache a k of
                    Some e \<Rightarrow> if structural_sharing opts \<and> eq_any peq v (xe_data e) then xe_data e else v
                  | None \<Rightarrow> v)
      in a\<lparr>sp_cache := (sp_cache a)(k \<mapsto>
             \<lparr>xe_data = kept, xe_fetched_at = now, xe_written_at = now, xe_options = opts, xe_stale = False\<rparr>)\<rparr>)"

text \<open>The pages of an infinite query are replaced by \<open>g\<close> of them; the entry keeps its stale flag.\<close>

definition spec_pages ::
  "instant \<Rightarrow> string \<Rightarrow> nat \<Rightarrow> nat \<Rightarrow> ('v infinite_data \<Rightarrow> 'v infinite_data option) \<Rightarrow> 'v spec_client \<Rightarrow> 'v spec_client" where
  "spec_pages now k t p g a =
     (case sp_cache a k of
        Some e \<Rightarrow>
          (case xe_data e of
             InfV t' p' d \<Rightarrow>
               (case (if t' = t \<and> p' = p then g d else None) of
                  Some d' \<Rightarrow> a\<lparr>sp_cache := (sp_cache a)(k \<mapsto>
                      e\<lparr>xe_data := InfV t p d', xe_fetched_at := now, xe_written_at := now\<rparr>)\<rparr>
                | None \<Rightarrow> a)
           | _ \<Rightarrow> a)
      | None \<Rightarrow> a)"

definition spec_refetchable :: "'v spec_entry \<Rightarrow> query_snapshot \<Rightarrow> bool" where
  "spec_refetchable e s \<longleftrightarrow> QueryOptions_is_enabled (xe_options e)
     \<and> \<not> (stale_time_static (xe_options e) \<and> \<not> qs_is_stale s)"

definition spec_reconnect :: "instant \<Rightarrow> 'v spec_client \<Rightarrow> 'v spec_client" where
  "spec_reconnect now a =
     spec_touch (having (\<lambda>k e. allows_refetch (refetch_on_reconnect (xe_options e)) (spec_stale now e)) a) a"

fun spec_next :: "('v dynval \<Rightarrow> 'v dynval \<Rightarrow> bool) \<Rightarrow> 'v client_op \<Rightarrow> 'v spec_client \<Rightarrow> 'v spec_client" where
  "spec_next peq (CO_Set now key v o') a = spec_write peq now (cache_key key) v o' a"
| "spec_next peq (CO_Append now key t p pg pm mx) a =
     spec_pages now (cache_key key) t p
       (\<lambda>d. case mx of None \<Rightarrow> Some (push_page pg pm d) | Some m \<Rightarrow> trim_front m (push_page pg pm d)) a"
| "spec_next peq (CO_Prepend now key t p pg pm mx) a =
     spec_pages now (cache_key key) t p
       (\<lambda>d. let d0 = \<lparr>pages = pg # pages d, page_params = pm # page_params d\<rparr>
             in Some (case mx of None \<Rightarrow> d0 | Some m \<Rightarrow> trim_back m d0)) a"
| "spec_next peq (CO_Invalidate key) a =
     (let S = having (\<lambda>k e. prefix (cache_key key) k) a in spec_touch S (spec_abort S a))"
| "spec_next peq (CO_Cancel key) a = spec_abort {cache_key key} a"
| "spec_next peq (CO_SetInFlight key t) a = a\<lparr>sp_flying := (sp_flying a)(cache_key key \<mapsto> if_cancel_token t)\<rparr>"
| "spec_next peq (CO_ClearInFlight key) a = a\<lparr>sp_flying := (sp_flying a)(cache_key key := None)\<rparr>"
| "spec_next peq CO_Clear a = spec_forget UNIV (spec_abort UNIV a)"
| "spec_next peq (CO_Gc now) a =
     spec_forget (having (\<lambda>k e. gc_time (xe_options e) \<le> elapsed now (xe_written_at e)) a) a"
| "spec_next peq (CO_RefetchAllStale now) a =
     spec_touch (having (\<lambda>k e. spec_stale now e \<and> allows_refetch (refetch_on_window_focus (xe_options e)) True) a) a"
| "spec_next peq (CO_CancelQueries now f) a = spec_abort (selected now f a) a"
| "spec_next peq (CO_Reset now f) a = spec_forget (selected now f a) (spec_abort (selected now f a) a)"
| "spec_next peq (CO_Remove now f) a = spec_forget (selected now f a) (spec_abort (selected now f a) a)"
| "spec_next peq (CO_InvalidateFiltered now f) a =
     spec_touch (selected now (iq_filters f) a)
       (spec_abort (selected now (iq_filters f) a
          \<inter> having (\<lambda>k e. refetch_selected (iq_refetch_type f) (snapshot_of now a k e)) a) a)"
| "spec_next peq (CO_Refetch now f o') a =
     (let S = selected now f a \<inter> having (\<lambda>k e. spec_refetchable e (snapshot_of now a k e)) a
      in spec_touch S (if rq_cancel_refetch o' then spec_abort S a else a))"
| "spec_next peq (CO_SetDefaults o') a = a\<lparr>sp_defaults := Some o'\<rparr>"
| "spec_next peq (CO_Reconnect now) a = spec_reconnect now a"
| "spec_next peq _ a = a"

text \<open>The watcher task of a mounted client may or may not have a reconnect to handle.\<close>

inductive spec_step ::
  "('v dynval \<Rightarrow> 'v dynval \<Rightarrow> bool) \<Rightarrow> 'v client_op \<Rightarrow> 'v spec_client \<Rightarrow> 'v spec_client \<Rightarrow> bool" for peq where
  spec_next: "spec_step peq op a (spec_next peq op a)"
| spec_watcher: "spec_step peq (CO_TaskStep now i) a (spec_reconnect now a)"

inductive_cases spec_step_elim: "spec_step peq op a b"

text \<open>What can be read.\<close>

definition spec_get :: "type_id \<Rightarrow> query_key \<Rightarrow> 'v spec_client \<Rightarrow> 'v dynval option" where
  "spec_get ty key a =
     (case sp_cache a (cache_key key) of Some e \<Rightarrow> if value_type (xe_data e) = ty then Some (xe_data e) else None | None \<Rightarrow> None)"

subsection \<open>The abstraction\<close>

definition abs_entry :: "'v cache_entry \<Rightarrow> 'v spec_entry" where
  "abs_entry e =
     \<lparr>xe_data = ce_data e, xe_fetched_at = ce_fetched_at e, xe_written_at = ce_last_accessed e,
      xe_options = ce_options e, xe_stale = ce_is_stale e\<rparr>"

definition abs_client :: "'v client \<Rightarrow> 'v spec_client" where
  "abs_client c =
     \<lparr>sp_cache = map_option abs_entry \<circ> dm_get (cl_cache c),
      sp_flying = map_option if_cancel_token \<circ> dm_get (cl_in_flight c),
      sp_cancelled = set (cl_cancelled c), sp_defaults = cl_default_options c\<rparr>"

lemma abs_entry_simps [simp]:
  "xe_data (abs_entry e) = ce_data e" "xe_fetched_at (abs_entry e) = ce_fetched_at e"
  "xe_written_at (abs_entry e) = ce_last_accessed e" "xe_options (abs_entry e) = ce_options e"
  "xe_stale (abs_entry e) = ce_is_stale e" "spec_stale now (abs_entry e) = entry_is_stale now e"
  "spec_snapshot now k (abs_entry e) b = entry_snapshot now k e b"
  by (auto simp: abs_entry_def spec_stale_def entry_is_stale_def spec_snapshot_def entry_snapshot_def)

lemma abs_client_simps [simp]:
  "sp_cache (abs_client c) k = map_option abs_entry (dm_get (cl_cache c) k)"
  "sp_flying (abs_client c) k = map_option if_cancel_token (dm_get (cl_in_flight c) k)"
  "sp_cancelled (abs_client c) = set (cl_cancelled c)" "sp_defaults (abs_client c) = cl_default_options c"
  by (simp_all add: abs_client_def)

lemma having_abs [simp]:
  "having P (abs_client c) = {k. \<exists>e. dm_get (cl_cache c) k = Some e \<and> P k (abs_entry e)}"
  by (auto simp: having_def)

lemma snapshot_of_abs [simp]:
  "snapshot_of now (abs_client c) k (abs_entry e) = entry_snapshot now k e (dm_contains (cl_in_flight c) k)"
  by (simp add: snapshot_of_def dm_contains_def)

text \<open>The abstraction only sees four fields of the client.\<close>

lemma abs_clientI:
  assumes "\<And>k. dm_get (cl_cache c) k = dm_get (cl_cache c') k" "\<And>k. dm_get (cl_in_flight c) k = dm_get (cl_in_flight c') k"
    "set (cl_cancelled c) = set (cl_cancelled c')" "cl_default_options c = cl_default_options c'"
  shows "abs_client c = abs_client c'"
  using assms by (simp add: abs_client_def comp_def)

lemma spec_clientI:
  fixes a b :: "'v spec_client"
  assumes "\<And>k. sp_cache a k = sp_cache b k" "\<And>k. sp_flying a k = sp_flying b k"
    "\<And>x. x \<in> sp_cancelled a \<longleftrightarrow> x \<in> sp_cancelled b" "sp_defaults a = sp_defaults b"
  shows "a = b"
proof -
  have "sp_cache a = sp_cache b" "sp_flying a = sp_flying b" "sp_cancelled a = sp_cancelled b"
    using assms by auto
  then show ?thesis using assms(4) by (cases a; cases b) simp
qed

lemma spec_ops_simps [simp]:
  "sp_cache (spec_touch S a) k = (if k \<in> S then map_option (\<lambda>e. e\<lparr>xe_stale := True\<rparr>) (sp_cache a k) else sp_cache a k)"
  "sp_flying (spec_touch S a) = sp_flying a" "sp_cancelled (spec_touch S a) = sp_cancelled a"
  "sp_defaults (spec_touch S a) = sp_defaults a"
  "sp_cache (spec_forget S a) k = (if k \<in> S then None else sp_cache a k)"
  "sp_flying (spec_forget S a) = sp_flying a" "sp_cancelled (spec_forget S a) = sp_cancelled a"
  "sp_defaults (spec_forget S a) = sp_defaults a"
  "sp_cache (spec_abort S a) = sp_cache a"
  "sp_flying (spec_abort S a) k = (if k \<in> S then None else sp_flying a k)"
  "sp_cancelled (spec_abort S a) = sp_cancelled a \<union> {x. \<exists>k\<in>S. sp_flying a k = Some x}"
  "sp_defaults (spec_abort S a) = sp_defaults a"
  by (simp_all add: spec_touch_def spec_forget_def spec_abort_def restrict_map_def)

lemma spec_ops_empty [simp]: "spec_touch {} a = a" "spec_forget {} a = a" "spec_abort {} a = a"
  by (rule spec_clientI; simp)+

lemma spec_ops_union:
  "spec_touch S (spec_touch T a) = spec_touch (S \<union> T) a" "spec_forget S (spec_forget T a) = spec_forget (S \<union> T) a"
  "spec_abort S (spec_abort T a) = spec_abort (S \<union> T) a"
  by (rule spec_clientI; auto simp: option.map_comp comp_def split: if_splits)+

lemma spec_ops_commute:
  "spec_abort S (spec_touch T a) = spec_touch T (spec_abort S a)"
  "spec_abort S (spec_forget T a) = spec_forget T (spec_abort S a)"
  by (rule spec_clientI; auto)+

lemma having_abort [simp]: "having P (spec_abort S a) = having P a"
  by (simp add: having_def)

subsection \<open>Building blocks\<close>

lemma defaults_frame [simp]:
  "cl_default_options (snd (abort_in_flight k c)) = cl_default_options c"
  "cl_default_options (mark_stale k c) = cl_default_options c"
  by (simp_all add: abort_in_flight_def mark_stale_def split: option.split)

lemma abs_notify [simp]: "abs_client (notify_subscribers k v c) = abs_client c"
  by (rule abs_clientI) simp_all

lemma abs_abort [simp]: "abs_client (snd (abort_in_flight k c)) = spec_abort {k} (abs_client c)"
  by (rule spec_clientI)
    (auto simp: tokens_of_iff abort_in_flight_def split: option.splits)

lemma abs_mark_stale [simp]: "abs_client (mark_stale k c) = spec_touch {k} (abs_client c)"
  by (rule spec_clientI) (auto simp: mark_stale_def abs_entry_def option.map_comp comp_def)

lemma abs_drop_entry [simp]:
  "abs_client (c\<lparr>cl_cache := dm_remove k (cl_cache c)\<rparr>) = spec_forget {k} (abs_client c)"
  by (rule spec_clientI) auto

text \<open>
  A loop of the client over collected keys: each pass does on the abstract state what \<open>op\<close> does for
  that element, and \<open>op\<close> turns unions into sequences. Then the loop does \<open>op\<close> for the whole set, in
  whatever order the elements come.
\<close>

locale spec_loop =
  fixes step :: "'x \<Rightarrow> 's \<Rightarrow> 's" and cl :: "'s \<Rightarrow> 'v client" and op :: "'x set \<Rightarrow> 'v spec_client \<Rightarrow> 'v spec_client"
  assumes abs_pass: "abs_client (cl (step x s)) = op {x} (abs_client (cl s))"
    and op_empty: "op {} a = a"
    and op_union: "op S (op T a) = op (S \<union> T) a"
begin

lemma abs_loop: "abs_client (cl (fold step xs s)) = op (set xs) (abs_client (cl s))"
  by (induction xs arbitrary: s) (simp_all add: abs_pass op_empty op_union)

end

interpretation mark_s: spec_loop mark_stale "\<lambda>c. c" spec_touch
  by unfold_locales (simp_all add: spec_ops_union)

interpretation invalidate_s: spec_loop invalidate_one "\<lambda>c. c" "\<lambda>S a. spec_touch S (spec_abort S a)"
proof
  show "abs_client (invalidate_one k c) = spec_touch {k} (spec_abort {k} (abs_client c))" for k and c :: "'a client"
    by (rule spec_clientI) (auto simp: invalidate_one_def Let_def dm_contains_def tokens_of_iff)
qed (simp_all add: spec_ops_commute spec_ops_union)

interpretation trigger_s: spec_loop trigger_refetch "\<lambda>c. c" "\<lambda>S a. spec_touch S (spec_abort S a)"
  by unfold_locales (simp_all add: trigger_refetch_def spec_ops_commute spec_ops_union)

interpretation cancel_s: spec_loop cancel_one snd spec_abort
proof
  show "abs_client (snd (cancel_one k nc)) = spec_abort {k} (abs_client (snd nc))" for k and nc :: "nat \<times> 'a client"
    using abs_abort [of k "snd nc"] by (auto simp: cancel_one_def simp del: abs_abort split: prod.splits bool.splits)
qed (simp_all add: spec_ops_union)

interpretation drop_s: spec_loop "drop_one v" snd "\<lambda>S a. spec_forget S (spec_abort S a)" for v
proof
  show "abs_client (snd (drop_one v k nc)) = spec_forget {k} (spec_abort {k} (abs_client (snd nc)))"
    for k and nc :: "nat \<times> 'a client"
    using abs_drop_entry [of k "snd (abort_in_flight k (snd nc))"] by (simp add: drop_one_def Let_def)
qed (simp_all add: spec_ops_commute spec_ops_union)

text \<open>Loops that touch the keys whose entry satisfies a condition when the loop starts.\<close>

definition touch_if :: "('v spec_entry \<Rightarrow> bool) \<Rightarrow> string set \<Rightarrow> 'v spec_client \<Rightarrow> 'v spec_client" where
  "touch_if P S a = spec_touch (S \<inter> having (\<lambda>k. P) a) a"

lemma touch_if_union: "touch_if P S (touch_if P T a) = touch_if P (S \<union> T) a"
  by (rule spec_clientI) (auto simp: touch_if_def having_def option.map_comp comp_def split: if_splits)

lemma touch_if_all: "dom (sp_cache a) \<subseteq> S \<Longrightarrow> touch_if P S a = spec_touch (having (\<lambda>k. P) a) a"
  by (auto simp: touch_if_def having_def intro!: arg_cong [where f = "\<lambda>S. spec_touch S a"])

lemma touch_if_single:
  "touch_if P {k} (abs_client c) =
     (case dm_get (cl_cache c) k of Some e \<Rightarrow> if P (abs_entry e) then spec_touch {k} (abs_client c) else abs_client c
      | None \<Rightarrow> abs_client c)"
  by (rule spec_clientI) (auto simp: touch_if_def split: option.splits)

interpretation reconnect_s: spec_loop "reconnect_one now" "\<lambda>c. c"
    "touch_if (\<lambda>e. allows_refetch (refetch_on_reconnect (xe_options e)) (spec_stale now e))" for now
  by unfold_locales
    (auto simp: reconnect_one_def touch_if_single touch_if_union touch_if_def [of _ "{}"] split: option.splits)

interpretation stale_s: spec_loop "refetch_stale_one now" "\<lambda>c. c"
    "touch_if (\<lambda>e. spec_stale now e \<and> allows_refetch (refetch_on_window_focus (xe_options e)) True)" for now
  by unfold_locales
    (auto simp: refetch_stale_one_def Let_def touch_if_single touch_if_union touch_if_def [of _ "{}"] split: option.splits)

text \<open>The refetch loop runs over keys with their snapshots.\<close>

definition refetch_set :: "(string \<times> query_snapshot) set \<Rightarrow> 'v spec_client \<Rightarrow> string set" where
  "refetch_set X a = {k. \<exists>s. (k, s) \<in> X \<and> (\<exists>e. sp_cache a k = Some e \<and> spec_refetchable e s)}"

definition spec_refetch :: "bool \<Rightarrow> (string \<times> query_snapshot) set \<Rightarrow> 'v spec_client \<Rightarrow> 'v spec_client" where
  "spec_refetch cancel X a =
     spec_touch (refetch_set X a) (if cancel then spec_abort (refetch_set X a) a else a)"

lemma refetch_set_keep: "refetch_set X (spec_refetch cancel Y a) = refetch_set X a"
  by (auto simp: refetch_set_def spec_refetch_def spec_refetchable_def)

lemma refetch_set_union: "refetch_set (X \<union> Y) a = refetch_set X a \<union> refetch_set Y a"
  by (auto simp: refetch_set_def)

interpretation refetch_s: spec_loop "refetch_one cancel" snd "spec_refetch cancel" for cancel
proof
  show "abs_client (snd (refetch_one cancel x nc)) = spec_refetch cancel {x} (abs_client (snd nc))"
    for x and nc :: "nat \<times> 'a client"
  proof -
    have "refetch_set {x} (abs_client (snd nc)) = (if refetchable (cl_cache (snd nc)) x then {fst x} else {})"
      by (cases x) (auto simp: refetch_set_def spec_refetchable_def refetchable_def split: option.splits)
    then show ?thesis
      by (auto simp: spec_refetch_def refetch_one_def refetchable_def Let_def split: option.splits)
  qed
  show "spec_refetch cancel {} a = a" for a :: "'a spec_client"
    by (simp add: spec_refetch_def refetch_set_def)
  show "spec_refetch cancel S (spec_refetch cancel T a) = spec_refetch cancel (S \<union> T) a" for S T and a :: "'a spec_client"
    unfolding spec_refetch_def [of _ S] refetch_set_keep
    by (auto simp: spec_refetch_def refetch_set_union spec_ops_commute spec_ops_union)
qed

subsection \<open>Every operation is a step of the specification\<close>

lemma selected_abs:
  "dm_wf (cl_cache c) \<Longrightarrow> set (map fst (matching_entries now f c)) = selected now f (abs_client c)"
  by (auto simp: selected_def matching_keys simp del: set_map)

lemma matching_set:
  assumes "dm_wf (cl_cache c)"
  shows "set (matching_entries now f c) =
    {(k, s). \<exists>e. dm_get (cl_cache c) k = Some e \<and> s = entry_snapshot now k e (dm_contains (cl_in_flight c) k) \<and> match_query s f}"
  using assms by (auto simp: matching_entries_def dm_get_Some_iff)

lemma abs_bulk:
  assumes "client_wf c"
  shows "abs_client (snd (cancel_queries now f c)) = spec_abort (selected now f (abs_client c)) (abs_client c)"
    "abs_client (snd (reset_queries now f c))
       = spec_forget (selected now f (abs_client c)) (spec_abort (selected now f (abs_client c)) (abs_client c))"
    "abs_client (snd (remove_queries now f c))
       = spec_forget (selected now f (abs_client c)) (spec_abort (selected now f (abs_client c)) (abs_client c))"
  using selected_abs [OF wf_cache [OF assms], of now f]
  by (simp_all only: cancel_queries_def reset_queries_def remove_queries_def cancel_s.abs_loop drop_s.abs_loop snd_conv)

lemma abs_invalidate:
  "abs_client (invalidate_queries key c) = spec_next peq (CO_Invalidate key) (abs_client c)"
  unfolding invalidate_queries_def Let_def invalidate_s.abs_loop
  by (simp add: dm_keys_get Let_def) (rule arg_cong2 [where f = "\<lambda>S T. spec_touch S (spec_abort T (abs_client c))"]; auto)

lemma abs_reconnect: "abs_client (handle_reconnect now c) = spec_reconnect now (abs_client c)"
  unfolding handle_reconnect_def reconnect_s.abs_loop spec_reconnect_def
  by (rule touch_if_all) (auto simp: dm_keys_get)

lemma abs_refetch_stale: "abs_client (refetch_all_stale now c) = spec_next peq (CO_RefetchAllStale now) (abs_client c)"
  unfolding refetch_all_stale_def stale_s.abs_loop spec_next.simps
  by (rule touch_if_all) (auto simp: dm_keys_get)

lemma abs_invalidate_filtered:
  assumes "client_wf c"
  shows "abs_client (snd (invalidate_queries_filtered now f c)) = spec_next peq (CO_InvalidateFiltered now f) (abs_client c)"
proof -
  note wf = wf_cache [OF assms]
  let ?ms = "matching_entries now (iq_filters f) c" and ?a = "abs_client c"
  let ?R = "set (map fst (filter (refetch_selected (iq_refetch_type f) \<circ> snd) ?ms))"
  have "fold (\<lambda>(k, s) c. if refetch_selected (iq_refetch_type f) s then trigger_refetch k c else c) ms c'
      = fold trigger_refetch (map fst (filter (refetch_selected (iq_refetch_type f) \<circ> snd) ms)) c'" for ms and c' :: "'a client"
    by (induction ms arbitrary: c') auto
  then have "abs_client (snd (invalidate_queries_filtered now f c))
      = spec_touch ?R (spec_abort ?R (spec_touch (selected now (iq_filters f) ?a) ?a))"
    by (simp only: invalidate_queries_filtered_def Let_def snd_conv trigger_s.abs_loop mark_s.abs_loop selected_abs [OF wf])
  also have "\<dots> = spec_touch (?R \<union> selected now (iq_filters f) ?a) (spec_abort ?R ?a)"
    by (simp add: spec_ops_commute spec_ops_union)
  also have "?R = selected now (iq_filters f) ?a
      \<inter> having (\<lambda>k e. refetch_selected (iq_refetch_type f) (snapshot_of now ?a k e)) ?a"
    by (force simp: selected_def matching_set [OF wf] image_iff)
  finally show ?thesis by (simp add: Un_absorb1)
qed

lemma abs_refetch:
  assumes "client_wf c"
  shows "abs_client (snd (refetch_queries now f o' c)) = spec_next peq (CO_Refetch now f o') (abs_client c)"
proof -
  have "refetch_set (set (matching_entries now f c)) (abs_client c)
      = selected now f (abs_client c) \<inter> having (\<lambda>k e. spec_refetchable e (snapshot_of now (abs_client c) k e)) (abs_client c)"
    by (auto simp: refetch_set_def selected_def matching_set [OF wf_cache [OF assms]])
  then show ?thesis
    by (simp only: refetch_queries_def refetch_s.abs_loop snd_conv spec_refetch_def spec_next.simps Let_def)
qed

lemma abs_set_query_data:
  assumes "client_wf c"
  shows "abs_client (set_query_data peq now key v o' c) = spec_next peq (CO_Set now key v o') (abs_client c)"
proof (rule spec_clientI)
  have "resolve_options (cache_key key) o' c = spec_options (cache_key key) o' (abs_client c)"
    by (auto simp: resolve_options_def spec_options_def dm_contains_def split: option.splits)
  then show "sp_cache (abs_client (set_query_data peq now key v o' c)) k
      = sp_cache (spec_next peq (CO_Set now key v o') (abs_client c)) k" for k
    using wf_type [OF assms, of "cache_key key"]
    by (auto simp: set_query_data_entry spec_write_def abs_entry_def eq_any_def Let_def split: option.splits)
qed (simp_all add: set_query_data_def spec_write_def Let_def)

lemma abs_store_pages:
  "dm_get (cl_cache c) k = Some e \<Longrightarrow>
   abs_client (store_pages now k v c) = (abs_client c)\<lparr>sp_cache := (sp_cache (abs_client c))(k \<mapsto>
      (abs_entry e)\<lparr>xe_data := v, xe_fetched_at := now, xe_written_at := now\<rparr>)\<rparr>"
  by (rule spec_clientI) (auto simp: store_pages_def abs_entry_def)

lemma abs_append:
  "abs_client (client_step peq (CO_Append now key t p pg pm mx) c)
     = spec_next peq (CO_Append now key t p pg pm mx) (abs_client c)"
  by (cases "dm_get (cl_cache c) (cache_key key)")
    (auto simp: append_infinite_page_def spec_pages_def downcast_def abs_store_pages
      split: option.splits dynval.splits if_splits)

lemma abs_prepend:
  "abs_client (client_step peq (CO_Prepend now key t p pg pm mx) c)
     = spec_next peq (CO_Prepend now key t p pg pm mx) (abs_client c)"
  by (cases "dm_get (cl_cache c) (cache_key key)")
    (auto simp: prepend_infinite_page_def spec_pages_def downcast_def abs_store_pages Let_def
      split: option.splits dynval.splits if_splits)

lemma abs_clear: "dm_wf (cl_in_flight c) \<Longrightarrow> abs_client (client_clear c) = spec_next peq CO_Clear (abs_client c)"
  by (rule spec_clientI) (force simp: client_clear_def dm_get_Some_iff image_iff)+

lemma abs_gc: "client_wf c \<Longrightarrow> abs_client (client_gc now c) = spec_next peq (CO_Gc now) (abs_client c)"
  by (rule spec_clientI) (auto simp: client_gc_def gc_internal_get wf_cache split: option.splits)

lemma abs_cancel_query: "abs_client (cancel_query key c) = spec_abort {cache_key key} (abs_client c)"
  using abs_abort [of "cache_key key" c]
  by (auto simp: cancel_query_def simp del: abs_abort split: prod.splits bool.splits)

text \<open>Operations on channels, counters, watchers and flags, which the specification does not see.\<close>

lemma abs_hidden [simp]:
  "abs_client (fst (client_subscribe k c)) = abs_client c" "abs_client (fst (client_subscribe_all c)) = abs_client c"
  "abs_client (fst (subscribe_activity c)) = abs_client c" "abs_client (QueryClient_clone c) = abs_client c"
  "abs_client (QueryClient_drop c) = abs_client c" "abs_client (set_is_restoring b c) = abs_client c"
  "abs_client (client_set_online b c) = abs_client c" "abs_client (inc_fetching c) = abs_client c"
  "abs_client (dec_fetching c) = abs_client c" "abs_client (inc_mutating c) = abs_client c"
  "abs_client (dec_mutating c) = abs_client c" "abs_client (client_unmount c) = abs_client c"
  "abs_client (c\<lparr>cl_online := om\<rparr>) = abs_client c" "abs_client (c\<lparr>cl_watchers := ws\<rparr>) = abs_client c"
  "abs_client (client_mount c) = abs_client c"
  by (rule abs_clientI;
      simp add: client_subscribe_def client_subscribe_all_def subscribe_activity_def QueryClient_clone_def
        QueryClient_drop_def set_is_restoring_def client_set_online_def inc_fetching_def dec_fetching_def
        inc_mutating_def dec_mutating_def client_unmount_def client_mount_def send_activity_def Let_def
        split: prod.splits option.splits)+

lemma abs_task_step:
  "abs_client (reconnect_task_step now i c) \<in> {abs_client c, spec_reconnect now (abs_client c)}"
  by (auto simp: reconnect_task_step_def Let_def abs_reconnect split: prod.splits change_poll.splits)

lemma abs_in_flight [simp]:
  "abs_client (set_in_flight key t c) = spec_next peq (CO_SetInFlight key t) (abs_client c)"
  "abs_client (clear_in_flight key c) = spec_next peq (CO_ClearInFlight key) (abs_client c)"
  "abs_client (set_default_options o' c) = spec_next peq (CO_SetDefaults o') (abs_client c)"
  by (rule spec_clientI; simp add: set_in_flight_def clear_in_flight_def set_default_options_def)+

lemma client_simulates:
  assumes "client_wf c"
  shows "spec_step peq op (abs_client c) (abs_client (client_step peq op c))"
proof (cases "\<exists>now i. op = CO_TaskStep now i")
  case True
  then obtain now i where op: "op = CO_TaskStep now i" by blast
  from abs_task_step [of now i c] show ?thesis
  proof
    assume "abs_client (reconnect_task_step now i c) = abs_client c"
    then show ?thesis using spec_step.spec_next [of peq op "abs_client c"] by (simp add: op)
  next
    assume "abs_client (reconnect_task_step now i c) \<in> {spec_reconnect now (abs_client c)}"
    then show ?thesis by (simp add: op spec_watcher)
  qed
next
  case False
  have wf: "dm_wf (cl_in_flight c)" using assms by (simp add: client_wf_def)
  note [simp del] = abs_in_flight spec_next.simps(2,3) client_step.simps(6,7)
  have "abs_client (client_step peq op c) = spec_next peq op (abs_client c)"
    using False assms
    by (cases op)
      (simp_all add: abs_append abs_prepend abs_bulk abs_invalidate [where peq = peq] abs_cancel_query abs_in_flight [where peq = peq]
        abs_clear [where peq = peq, OF wf] abs_gc [where peq = peq] abs_refetch_stale [where peq = peq]
        abs_invalidate_filtered [where peq = peq] abs_refetch [where peq = peq] abs_set_query_data abs_reconnect
        del: abs_client_simps having_abs)
  then show ?thesis using spec_step.spec_next [of peq op "abs_client c"] by simp
qed

interpretation client_sim: simulation QueryClient_new "client_step peq" client_wf abs_client "spec_step peq" for peq
  by unfold_locales (rule client_simulates)

lemma reads_abs:
  "client_wf c \<Longrightarrow> get_query_data ty key c = spec_get ty key (abs_client c)"
  "client_is_stale now key c \<longleftrightarrow> cache_key key \<in> having (\<lambda>k. spec_stale now) (abs_client c)"
  "is_in_flight key c \<longleftrightarrow> cache_key key \<in> dom (sp_flying (abs_client c))"
  by (auto simp: get_query_data_def spec_get_def wf_type client_is_stale_def entry_is_stale_def is_in_flight_def
      dm_contains_def split: option.splits)

text \<open>
  C4. The client implements its specification. Any sequence of operations on a new client is a run of
  the abstract one from the empty state, and in the state it ends in every read agrees with the
  abstract state: the data of a key at a type, whether a key is stale, whether it is in flight, and the
  number of matching queries that bulk reads report.
\<close>

theorem client_refines_spec:
  "runs (spec_step peq) ops \<lparr>sp_cache = Map.empty, sp_flying = Map.empty, sp_cancelled = {}, sp_defaults = None\<rparr>
     (abs_client (fold (client_step peq) ops QueryClient_new))
   \<and> get_query_data ty key (fold (client_step peq) ops QueryClient_new)
       = spec_get ty key (abs_client (fold (client_step peq) ops QueryClient_new))
   \<and> (client_is_stale now key (fold (client_step peq) ops QueryClient_new) \<longleftrightarrow>
       cache_key key \<in> having (\<lambda>k. spec_stale now) (abs_client (fold (client_step peq) ops QueryClient_new)))
   \<and> (is_in_flight key (fold (client_step peq) ops QueryClient_new) \<longleftrightarrow>
       cache_key key \<in> dom (sp_flying (abs_client (fold (client_step peq) ops QueryClient_new))))
   \<and> length (query_snapshots now f (fold (client_step peq) ops QueryClient_new))
       = card (selected now f (abs_client (fold (client_step peq) ops QueryClient_new)))"
proof -
  let ?c = "fold (client_step peq) ops QueryClient_new"
  have wf: "client_wf ?c" by (rule client_m.inv_run)
  have "abs_client (QueryClient_new :: 'a client)
      = \<lparr>sp_cache = Map.empty, sp_flying = Map.empty, sp_cancelled = {}, sp_defaults = None\<rparr>"
    by (rule spec_clientI) (simp_all add: QueryClient_new_def)
  moreover have "length (query_snapshots now f ?c) = card (selected now f (abs_client ?c))"
    using selected_abs [OF wf_cache [OF wf], of now f] distinct_card [OF matching_distinct [OF wf_cache [OF wf], of now f]]
    by (simp add: query_snapshots_def)
  ultimately show ?thesis
    using client_sim.runs_init [of peq ops] reads_abs(1) [OF wf, of ty key] reads_abs(2) [of now key ?c] reads_abs(3) [of key ?c]
    by metis
qed

end
