(* ===== verification/Gc_Loop.thy ===== *)
theory Gc_Loop
  imports Client_Laws
begin

text \<open>
  \<open>spawn_gc_loop\<close> of \<open>src/client.rs\<close>: the detached thread that collects garbage once per interval. A
  round is one sleep, which lasts at least the interval, what everybody else does to the client
  meanwhile, and one collection; the loop never ends, so a history of it is any number of rounds.
\<close>

definition GC_INTERVAL :: duration where
  "GC_INTERVAL = from_secs 60"

record 'v gc_round =
  gr_late :: duration
  gr_others :: "'v client \<Rightarrow> 'v client"

fun spawn_gc_loop :: "'v gc_round list \<Rightarrow> instant \<times> 'v client \<Rightarrow> instant \<times> 'v client" where
  "spawn_gc_loop [] x = x"
| "spawn_gc_loop (r # rs) (now, c) =
     (let now' = now + GC_INTERVAL + gr_late r
      in (let c' = gr_others r c in spawn_gc_loop rs (now', c'\<lparr>cl_cache := gc_internal now' (cl_cache c')\<rparr>)))"

text \<open>Other tasks that keep the client well formed and leave the entry of a key alone.\<close>

definition leaves_entry :: "string \<Rightarrow> ('v client \<Rightarrow> 'v client) \<Rightarrow> bool" where
  "leaves_entry k f \<longleftrightarrow> (\<forall>c. client_wf c \<longrightarrow> client_wf (f c) \<and> dm_get (cl_cache (f c)) k = dm_get (cl_cache c) k)"

lemma gc_round:
  assumes "client_wf c" "leaves_entry k f"
  shows "client_wf ((f c)\<lparr>cl_cache := gc_internal now (cl_cache (f c))\<rparr>)"
    "dm_get (gc_internal now (cl_cache (f c))) k =
       (case dm_get (cl_cache c) k of None \<Rightarrow> None
        | Some e \<Rightarrow> if elapsed now (ce_last_accessed e) < gc_time (ce_options e) then Some e else None)"
  using assms wf_gc [of "f c" now] by (auto simp: leaves_entry_def client_gc_def gc_internal_get wf_cache)

lemma gc_loop_time: "spawn_gc_loop rs (now, c) = (now', c') \<Longrightarrow> now + length rs * GC_INTERVAL \<le> now'"
  by (induction rs arbitrary: now c) (fastforce simp: Let_def)+

lemma gc_loop_entry:
  assumes "client_wf c" "\<forall>r\<in>set rs. leaves_entry k (gr_others r)" "spawn_gc_loop rs (now, c) = (now', c')"
  shows "dm_get (cl_cache c') k =
     (case dm_get (cl_cache c) k of None \<Rightarrow> None
      | Some e \<Rightarrow> if rs \<noteq> [] \<and> gc_time (ce_options e) \<le> elapsed now' (ce_last_accessed e) then None else Some e)"
  using assms
proof (induction rs arbitrary: now c)
  case Nil
  then show ?case by (simp split: option.splits)
next
  case (Cons r rs)
  let ?now = "now + GC_INTERVAL + gr_late r"
  let ?c = "(gr_others r c)\<lparr>cl_cache := gc_internal ?now (cl_cache (gr_others r c))\<rparr>"
  have run: "spawn_gc_loop rs (?now, ?c) = (now', c')" using Cons.prems(3) by (simp add: Let_def)
  have round: "client_wf ?c" "dm_get (cl_cache ?c) k =
       (case dm_get (cl_cache c) k of None \<Rightarrow> None
        | Some e \<Rightarrow> if elapsed ?now (ce_last_accessed e) < gc_time (ce_options e) then Some e else None)"
    using gc_round [OF Cons.prems(1), of k "gr_others r" ?now] Cons.prems(2) by simp_all
  have "?now \<le> now'" using gc_loop_time [OF run] by simp
  then have mono: "elapsed ?now t \<le> elapsed now' t" for t by (simp add: elapsed_def)
  have last: "rs = [] \<Longrightarrow> now' = ?now" using run by simp
  show ?case
    using Cons.IH [OF round(1) _ run] Cons.prems(2) round(2) last mono
    by (auto split: option.splits if_splits intro: order.trans) (meson leD leI order.trans)+
qed

text \<open>
  C37. The collector thread. An entry that nobody writes stays in the cache exactly until the first round
  that finds it \<open>gc_time\<close> old, whatever happens to other keys and however late the thread wakes; and so
  it is gone at the latest after as many rounds as cover its \<open>gc_time\<close>.
\<close>

theorem gc_loop_collects:
  assumes "client_wf c" and "\<forall>r\<in>set rs. leaves_entry k (gr_others r)" and "rs \<noteq> []"
    and "dm_get (cl_cache c) k = Some e" and "ce_last_accessed e \<le> now"
    and "spawn_gc_loop rs (now, c) = (now', c')"
  shows "dm_get (cl_cache c') k = (if now' - ce_last_accessed e < gc_time (ce_options e) then Some e else None)
   \<and> (gc_time (ce_options e) \<le> length rs * GC_INTERVAL \<longrightarrow> dm_get (cl_cache c') k = None)"
proof -
  have "length rs * GC_INTERVAL \<le> now' - ce_last_accessed e" using gc_loop_time [OF assms(6)] assms(5) by linarith
  then show ?thesis using gc_loop_entry [OF assms(1,2,6)] assms(3,4) by (auto simp: elapsed_def)
qed

definition demo_gc_client :: "nat client" where
  "demo_gc_client = set_query_data (=) 3 (QueryKey_new ''users'') (OtherV 0 20) QueryOptions_default QueryClient_new"

theorem gc_loop_collects_witness:
  "dm_get (cl_cache (snd (spawn_gc_loop (replicate 5 \<lparr>gr_late = 0, gr_others = (\<lambda>c. c)\<rparr>) (3, demo_gc_client)))) ''users'' = None"
proof -
  let ?rs = "replicate 5 \<lparr>gr_late = 0, gr_others = (\<lambda>c :: nat client. c)\<rparr>"
  obtain now' c' where run: "spawn_gc_loop ?rs (3, demo_gc_client) = (now', c')" by fastforce
  obtain e where e: "dm_get (cl_cache demo_gc_client) ''users'' = Some e" "ce_last_accessed e \<le> 3" "gc_time (ce_options e) = from_secs 300"
    by (simp add: demo_gc_client_def set_query_data_def QueryKey_new_def QueryClient_new_def
        resolve_options_def QueryOptions_default_def DEFAULT_GC_TIME_def Let_def)
  have wf: "client_wf demo_gc_client" by (simp add: demo_gc_client_def wf_set_query_data client_wf_new)
  have idle: "\<forall>r\<in>set ?rs. leaves_entry ''users'' (gr_others r)" by (simp add: leaves_entry_def)
  have "gc_time (ce_options e) \<le> length ?rs * GC_INTERVAL" by (simp add: e(3) GC_INTERVAL_def from_secs_def)
  then have "dm_get (cl_cache c') ''users'' = None" using gc_loop_collects [OF wf idle _ e(1,2) run] by force
  then show ?thesis by (simp add: run)
qed

end
