(* ===== verification/Retryer.thy ===== *)
theory Retryer
  imports Query_Options Query_Error
begin

text \<open>
  \<open>src/retryer.rs\<close>: the retry decision, the backoff curve and the attempt loop of
  \<open>Retryer::run\<close>, together with \<open>delay_for\<close> and \<open>should_retry\<close> of \<open>src/executor.rs\<close>.

  \<open>Retryer::run\<close> awaits three things the environment decides: the task, connectivity changes
  and the backoff timer. The environment of one run is a list of \<open>retry_env\<close>, one per loop
  iteration; \<open>None\<close> as a result means the loop is still waiting when the list ends.
\<close>

datatype retry_decision =
    Never
  | Count nat
  | AlwaysRetry
  | DecisionFn "query_error \<Rightarrow> nat \<Rightarrow> bool"

fun RetryDecision_should_retry :: "retry_decision \<Rightarrow> query_error \<Rightarrow> nat \<Rightarrow> bool" where
  "RetryDecision_should_retry Never e attempt = False"
| "RetryDecision_should_retry (Count count) e attempt = (attempt < count)"
| "RetryDecision_should_retry AlwaysRetry e attempt = True"
| "RetryDecision_should_retry (DecisionFn f) e attempt = f e attempt"

definition RetryDecision_default :: retry_decision where
  "RetryDecision_default = Count 3"

definition retry_delay :: "nat \<Rightarrow> duration" where
  "retry_delay attempt =
     (let multiplier = sat64 (2 ^ attempt);
          millis = sat64 (as_millis BASE_RETRY_DELAY);
          delay = sat64 (millis * multiplier)
      in from_millis (min delay (sat64 (as_millis MAX_RETRY_DELAY))))"

text \<open>\<open>executor.rs::delay_for\<close> and \<open>executor.rs::should_retry\<close>.\<close>

definition delay_for :: "retry_config \<Rightarrow> nat \<Rightarrow> duration" where
  "delay_for config attempt =
     (if exponential_backoff config \<and> base_delay config = BASE_RETRY_DELAY
      then retry_delay attempt
      else delay_for_attempt config attempt)"

fun retryable_error :: "query_error \<Rightarrow> bool" where
  "retryable_error (Network m) = True"
| "retryable_error (Timeout m) = True"
| "retryable_error _ = False"

subsection \<open>The attempt loop\<close>

record retryer =
  rt_decision :: retry_decision
  rt_failure_count :: nat
  rt_failure_reason :: "query_error option"
  rt_is_paused :: bool

definition Retryer_new :: "retry_decision \<Rightarrow> retryer" where
  "Retryer_new d =
     \<lparr>rt_decision = d, rt_failure_count = 0, rt_failure_reason = None, rt_is_paused = False\<rparr>"

definition Retryer_default :: retryer where
  "Retryer_default = Retryer_new RetryDecision_default"

text \<open>One round of the pause loop: is the token cancelled, did \<open>rx.changed()\<close> resolve with
  \<open>Ok\<close>, and is the manager online afterwards.\<close>

record pause_round =
  pr_cancelled :: bool
  pr_changed_ok :: bool
  pr_online :: bool

record 'a retry_env =
  re_online :: bool
  re_pause :: "pause_round list"
  re_result :: "(query_error, 'a) result"

fun retryer_pause :: "pause_round list \<Rightarrow> (query_error, unit) result option" where
  "retryer_pause [] = None"
| "retryer_pause (p # ps) =
     (if pr_cancelled p then Some (Inl (Cancelled False False))
      else if pr_changed_ok p \<and> pr_online p then Some (Inr ())
      else retryer_pause ps)"

fun Retryer_run ::
  "retryer \<Rightarrow> network_mode \<Rightarrow> 'a retry_env list
   \<Rightarrow> ((query_error, 'a) result \<times> retryer \<times> duration list) option" where
  "Retryer_run r mode [] = None"
| "Retryer_run r mode (env # envs) =
     (case (if \<not> can_retry mode (re_online env) \<and> rt_failure_count r > 0
            then retryer_pause (re_pause env) else Some (Inr ())) of
        None \<Rightarrow> None
      | Some (Inl e) \<Rightarrow> Some (Inl e, r\<lparr>rt_is_paused := False\<rparr>, [])
      | Some (Inr u) \<Rightarrow>
          (case re_result env of
             Inr v \<Rightarrow> Some (Inr v, r\<lparr>rt_is_paused := False, rt_failure_reason := None\<rparr>, [])
           | Inl e \<Rightarrow>
               if is_cancelled e
               then Some (Inl (Cancelled False False), r\<lparr>rt_is_paused := False\<rparr>, [])
               else
                 let attempt = rt_failure_count r;
                     r' = r\<lparr>rt_is_paused := False, rt_failure_count := attempt + 1,
                            rt_failure_reason := Some e\<rparr>
                 in if \<not> RetryDecision_should_retry (rt_decision r) e attempt
                    then Some (Inl e, r', [])
                    else (case Retryer_run r' mode envs of
                            None \<Rightarrow> None
                          | Some (res, r'', ds) \<Rightarrow> Some (res, r'', retry_delay attempt # ds))))"

subsection \<open>Properties\<close>

lemma retry_constants: "as_millis BASE_RETRY_DELAY = 1000" "as_millis MAX_RETRY_DELAY = 30000"
  by (simp_all add: BASE_RETRY_DELAY_def MAX_RETRY_DELAY_def from_secs_def as_millis_def
      from_millis_def)

lemma retry_delay_small: "n \<le> 4 \<Longrightarrow> retry_delay n = from_millis (1000 * 2 ^ n)"
proof -
  assume "n \<le> 4"
  then have "n = 0 \<or> n = 1 \<or> n = 2 \<or> n = 3 \<or> n = 4" by arith
  then show ?thesis
    by (elim disjE) (simp_all add: retry_delay_def Let_def retry_constants sat64_def u64_max_def)
qed

lemma retry_delay_large: "5 \<le> n \<Longrightarrow> retry_delay n = from_millis 30000"
proof -
  assume "5 \<le> n"
  then have "(2::nat) ^ 5 \<le> 2 ^ n" by (rule power_increasing) simp
  then have "32 \<le> sat64 (2 ^ n)" by (simp add: sat64_def u64_max_def)
  then have "32000 \<le> sat64 (1000 * sat64 (2 ^ n))" by (simp add: sat64_def u64_max_def)
  then show ?thesis
    by (simp add: retry_delay_def Let_def retry_constants sat64_id u64_max_def)
qed

lemma retry_delay_curve_fact: "retry_delay n = from_millis (min (1000 * 2 ^ n) 30000)"
proof (cases "n \<le> 4")
  case True
  then have "n = 0 \<or> n = 1 \<or> n = 2 \<or> n = 3 \<or> n = 4" by arith
  then have "(2::nat) ^ n \<le> 16" by auto
  with True show ?thesis by (simp add: retry_delay_small)
next
  case False
  then have "(2::nat) ^ 5 \<le> 2 ^ n" by (intro power_increasing) auto
  then have "30000 \<le> (1000::nat) * 2 ^ n" by simp
  with False show ?thesis by (simp add: retry_delay_large min_def)
qed

text \<open>
  The saturating 64-bit computation of \<open>retry_delay\<close> is the documented backoff curve
  \<open>min(1000 * 2^attempt, 30000)\<close> milliseconds for every attempt number, including those where
  the power and the product saturate.
\<close>

theorem retry_delay_curve: "retry_delay n = from_millis (min (1000 * 2 ^ n) 30000)"
  by (rule retry_delay_curve_fact)

lemma Retryer_run_nonempty: "Retryer_run r mode envs = Some x \<Longrightarrow> envs \<noteq> []"
  by (cases envs) auto

text \<open>Waiting between attempts never blocks: connectivity holds or the mode ignores it.\<close>

definition connected :: "network_mode \<Rightarrow> 'a retry_env list \<Rightarrow> bool" where
  "connected mode envs \<longleftrightarrow> (\<forall>e\<in>set envs. can_retry mode (re_online e))"

lemma retry_budget_induct:
  assumes "rt_decision r = Count n" and "connected mode envs"
    and "n - rt_failure_count r < length envs"
  shows "\<exists>res r' ds. Retryer_run r mode envs = Some (res, r', ds)
           \<and> length ds \<le> n - rt_failure_count r
           \<and> ds = map retry_delay [rt_failure_count r ..< rt_failure_count r + length ds]"
  using assms
proof (induction envs arbitrary: r)
  case Nil
  then show ?case by simp
next
  case (Cons env envs)
  let ?f = "rt_failure_count r"
  have open_gate: "can_retry mode (re_online env)" and rest: "connected mode envs"
    using Cons.prems(2) by (auto simp: connected_def)
  show ?case
  proof (cases "\<exists>e. re_result env = Inl e \<and> \<not> is_cancelled e \<and> ?f < n")
    case False
    then show ?thesis
      using open_gate Cons.prems(1) by (cases "re_result env") (auto simp: Let_def)
  next
    case True
    then obtain e where e: "re_result env = Inl e" "\<not> is_cancelled e" "?f < n" by blast
    let ?r' = "r\<lparr>rt_is_paused := False, rt_failure_count := ?f + 1, rt_failure_reason := Some e\<rparr>"
    have "n - rt_failure_count ?r' < length envs"
      using Cons.prems(3) e(3) by simp
    from Cons.IH [of ?r', OF _ rest this] Cons.prems(1)
    obtain res r2 ds where IH: "Retryer_run ?r' mode envs = Some (res, r2, ds)"
      "length ds \<le> n - (?f + 1)" "ds = map retry_delay [?f + 1 ..< ?f + 1 + length ds]"
      by auto
    have "retry_delay ?f # ds = map retry_delay [?f ..< ?f + length (retry_delay ?f # ds)]"
      using map_upt_Cons [of retry_delay ?f "length ds"] IH(3) by (metis Suc_eq_plus1 length_Cons)
    then show ?thesis
      using e open_gate Cons.prems(1) IH(1,2) by (auto simp: Let_def)
  qed
qed

text \<open>
  With \<open>RetryDecision::Count(n)\<close> and connectivity available the attempt loop always
  returns: \<open>n + 1\<close> attempts are enough whatever the task answers, at most \<open>n\<close> backoff waits
  are taken, and the waits are exactly \<open>retry_delay(0), retry_delay(1), ...\<close> in that order.
\<close>

theorem Retryer_run_bounded:
  assumes "connected mode envs" and "n < length envs"
  shows "\<exists>res r ds. Retryer_run (Retryer_new (Count n)) mode envs = Some (res, r, ds)
           \<and> length ds \<le> n \<and> ds = map retry_delay [0 ..< length ds]"
  using retry_budget_induct [of "Retryer_new (Count n)" n mode envs] assms
  by (simp add: Retryer_new_def)

text \<open>Three failing attempts against a budget of two retries.\<close>

theorem Retryer_run_bounded_witness:
  "\<exists>res r ds. Retryer_run (Retryer_new (Count 2)) Always
       (replicate 3 \<lparr>re_online = False, re_pause = [], re_result = Inl (Network ''x'')\<rparr>
         :: nat retry_env list) = Some (res, r, ds) \<and> length ds \<le> 2
       \<and> ds = map retry_delay [0 ..< length ds]"
  by (rule Retryer_run_bounded) (simp_all add: connected_def)

text \<open>
  \<open>delay_for\<close> ignores \<open>RetryConfig::max_delay\<close> for a configuration with the default base
  delay: the configured cap is replaced by the fixed 30 s cap, so a cap configured below 30 s is
  exceeded at some attempt. No configuration ever waits longer than the larger of the two caps.
\<close>

theorem delay_for_cap:
  "((\<exists>n. delay_for (RetryConfig_max_delay d (RetryConfig_new k)) n > d) \<longleftrightarrow> d < from_millis 30000)
   \<and> delay_for c m \<le> max (max_delay c) (from_millis 30000)"
proof
  let ?c = "RetryConfig_max_delay d (RetryConfig_new k)"
  have curve: "delay_for ?c n = retry_delay n" for n
    by (simp add: delay_for_def RetryConfig_max_delay_def RetryConfig_new_def)
  have le: "retry_delay n \<le> from_millis 30000" for n
    unfolding retry_delay_curve_fact by (rule from_millis_mono) simp
  show "(\<exists>n. delay_for ?c n > d) \<longleftrightarrow> d < from_millis 30000"
  proof
    assume "\<exists>n. delay_for ?c n > d"
    then obtain n where "d < retry_delay n" using curve by auto
    also note le [of n]
    finally show "d < from_millis 30000" .
  next
    assume "d < from_millis 30000"
    then have "d < delay_for ?c 5" by (simp add: curve retry_delay_large)
    then show "\<exists>n. delay_for ?c n > d" by blast
  qed
  show "delay_for c m \<le> max (max_delay c) (from_millis 30000)"
    using le [of m] delay_for_attempt_le_max [of c m] by (auto simp: delay_for_def)
qed

end
