(* ===== verification/Query_Executor.thy ===== *)
theory Query_Executor
  imports Query_Client Retryer
begin

text \<open>
  \<open>src/query.rs\<close> and the query part of \<open>src/executor.rs\<close>: deduplication, network gating, the retry
  loop, imperative fetches and spawned fetches.

  An execution shares the client with everything else that runs. Its environment is a script: at
  every await point it says what the awaited operation resolved to and which client transformation
  the other tasks performed meanwhile (a function on clients). One \<open>attempt_env\<close> is one pass of the
  fetch loop. A result \<open>None\<close> means the execution is still waiting when the script ends; a panic of
  the fetch function or of an \<open>expect\<close> is the value \<open>Panicked\<close>.
\<close>

subsection \<open>Queries\<close>

record 'v query =
  q_key :: query_key
  q_select :: "('v dynval \<Rightarrow> 'v dynval) option"
  q_options :: query_options
  q_initial_data :: "'v dynval option"
  q_initial_data_updated_at :: "instant option"
  q_placeholder_data :: "'v dynval placeholder_data option"

definition Query_new :: "query_key \<Rightarrow> 'v query" where
  "Query_new key =
     \<lparr>q_key = key, q_select = None, q_options = QueryOptions_default, q_initial_data = None,
      q_initial_data_updated_at = None, q_placeholder_data = None\<rparr>"

definition Query_initial_data :: "instant \<Rightarrow> 'v dynval \<Rightarrow> 'v query \<Rightarrow> 'v query" where
  "Query_initial_data now d q = q\<lparr>q_initial_data := Some d, q_initial_data_updated_at := Some now\<rparr>"

definition Query_placeholder_data :: "'v dynval placeholder_data \<Rightarrow> 'v query \<Rightarrow> 'v query" where
  "Query_placeholder_data d q = q\<lparr>q_placeholder_data := Some d\<rparr>"

definition Query_stale_time :: "duration \<Rightarrow> 'v query \<Rightarrow> 'v query" where
  "Query_stale_time d q = q\<lparr>q_options := (q_options q)\<lparr>stale_time := d\<rparr>\<rparr>"

definition Query_gc_time :: "duration \<Rightarrow> 'v query \<Rightarrow> 'v query" where
  "Query_gc_time d q = q\<lparr>q_options := (q_options q)\<lparr>gc_time := d\<rparr>\<rparr>"

definition Query_retry :: "retry_config \<Rightarrow> 'v query \<Rightarrow> 'v query" where
  "Query_retry r q = q\<lparr>q_options := (q_options q)\<lparr>retry := r\<rparr>\<rparr>"

definition Query_enabled :: "bool \<Rightarrow> 'v query \<Rightarrow> 'v query" where
  "Query_enabled b q = q\<lparr>q_options := (q_options q)\<lparr>enabled := b\<rparr>\<rparr>"

definition Query_select :: "('v dynval \<Rightarrow> 'v dynval) \<Rightarrow> 'v query \<Rightarrow> 'v query" where
  "Query_select f q = q\<lparr>q_select := Some f\<rparr>"

definition Query_refetch_interval :: "duration \<Rightarrow> 'v query \<Rightarrow> 'v query" where
  "Query_refetch_interval d q = q\<lparr>q_options := (q_options q)\<lparr>refetch_interval := d\<rparr>\<rparr>"

definition Query_refetch_on_window_focus :: "refetch_trigger \<Rightarrow> 'v query \<Rightarrow> 'v query" where
  "Query_refetch_on_window_focus t q =
     q\<lparr>q_options := (q_options q)\<lparr>refetch_on_window_focus := t\<rparr>\<rparr>"

definition Query_structural_sharing :: "bool \<Rightarrow> 'v query \<Rightarrow> 'v query" where
  "Query_structural_sharing b q = q\<lparr>q_options := (q_options q)\<lparr>structural_sharing := b\<rparr>\<rparr>"

definition Query_options :: "query_options \<Rightarrow> 'v query \<Rightarrow> 'v query" where
  "Query_options opts q = q\<lparr>q_options := opts\<rparr>"

subsection \<open>Waiting for connectivity\<close>

text \<open>One round of \<open>wait_for_online\<close>: the token and the connectivity at the check, and how the
  parked \<open>run_until_cancelled(rx.changed())\<close> resolves.\<close>

datatype parked = ParkChanged | ParkClosed | ParkCancelled

record wait_round =
  wr_cancelled :: bool
  wr_online :: bool
  wr_parked :: parked

fun wait_for_online :: "network_mode \<Rightarrow> wait_round list \<Rightarrow> unit option" where
  "wait_for_online mode [] = None"
| "wait_for_online mode (r # rs) =
     (if wr_cancelled r \<or> can_retry mode (wr_online r) then Some ()
      else case wr_parked r of ParkChanged \<Rightarrow> wait_for_online mode rs | _ \<Rightarrow> Some ())"

subsection \<open>Deduplicated waiting\<close>

text \<open>\<open>rx.recv()\<close> on the subscription \<open>i\<close> of a key, and dropping it.\<close>

definition client_poll ::
  "string \<Rightarrow> nat \<Rightarrow> 'v client \<Rightarrow> (try_recv_error, query_state_update) result \<times> 'v client" where
  "client_poll k i c =
     (case dm_get (cl_subscribers c) k of
        None \<Rightarrow> (Inl TE_Closed, c)
      | Some b \<Rightarrow>
          (let (r, b') = poll_state i None b
           in (r, c\<lparr>cl_subscribers := dm_insert k b' (cl_subscribers c)\<rparr>)))"

declare client_poll_def [recv_defs]

definition client_unsubscribe :: "string \<Rightarrow> nat \<Rightarrow> 'v client \<Rightarrow> 'v client" where
  "client_unsubscribe k i c =
     c\<lparr>cl_subscribers := dm_modify k (Receiver_drop i) (cl_subscribers c)\<rparr>"

text \<open>Each element of the script is what the other tasks do before the next poll.\<close>

fun dedup_loop ::
  "type_id \<Rightarrow> query_key \<Rightarrow> nat \<Rightarrow> ('v client \<Rightarrow> 'v client) list \<Rightarrow> 'v client
   \<Rightarrow> ('v dynval query_state \<times> 'v client) option" where
  "dedup_loop ty key i [] c = None"
| "dedup_loop ty key i (f # fs) c =
     (case client_poll (cache_key key) i (f c) of
        (Inl TE_Empty, c1) \<Rightarrow> dedup_loop ty key i fs c1
      | (Inl e, c1) \<Rightarrow> Some (Loading, c1)
      | (Inr u, c1) \<Rightarrow>
          (case su_variant u of
             V_Success \<Rightarrow>
               (case get_query_data ty key c1 of
                  Some d \<Rightarrow> Some (Success d, c1) | None \<Rightarrow> dedup_loop ty key i fs c1)
           | V_Stale \<Rightarrow>
               (case get_query_data ty key c1 of
                  Some d \<Rightarrow> Some (Stale d, c1) | None \<Rightarrow> dedup_loop ty key i fs c1)
           | V_Error \<Rightarrow>
               Some (Error (QueryError_custom ''Deduplicated request failed'')
                       (get_query_data ty key c1), c1)
           | _ \<Rightarrow> dedup_loop ty key i fs c1))"

definition wait_for_dedup ::
  "type_id \<Rightarrow> instant \<Rightarrow> query_key \<Rightarrow> ('v client \<Rightarrow> 'v client) list \<Rightarrow> 'v client
   \<Rightarrow> ('v dynval query_state \<times> 'v client) option" where
  "wait_for_dedup ty now key fs c =
     (let (c1, i) = client_subscribe (cache_key key) c
      in case get_query_data ty key c1 of
           Some d \<Rightarrow>
             Some (if client_is_stale now key c1 then Stale d else Success d,
                   client_unsubscribe (cache_key key) i c1)
         | None \<Rightarrow>
             map_option (\<lambda>(s, c'). (s, client_unsubscribe (cache_key key) i c'))
               (dedup_loop ty key i fs c1))"

subsection \<open>The fetch loop\<close>

text \<open>One pass of the loop: the token at its head; what others do while the fetch runs; how the
  fetch resolves (a panic, or the arguments of \<open>cancellable_fetch\<close>); the clock at the write and
  what others do between the write and the read back; the connectivity wait, what others do during
  the wait and the backoff sleep, and the token after the wait.\<close>

datatype panic_payload = PayloadText string | PayloadOther

record 'v attempt_env =
  ae_cancelled :: bool
  ae_during :: "'v client \<Rightarrow> 'v client"
  ae_panic :: "panic_payload option"
  ae_cancelled_before :: bool
  ae_race :: "(query_error, 'v dynval) result option"
  ae_now :: instant
  ae_between :: "'v client \<Rightarrow> 'v client"
  ae_wait :: "wait_round list"
  ae_cancelled_after :: bool
  ae_post :: "'v client \<Rightarrow> 'v client"

datatype 'v exec_result = Returned "'v dynval query_state" | Panicked panic_payload

type_synonym 'v execution = "('v exec_result \<times> 'v client \<times> duration list) option"

definition apply_select :: "'v query \<Rightarrow> 'v dynval \<Rightarrow> 'v dynval" where
  "apply_select q d = (case q_select q of Some f \<Rightarrow> f d | None \<Rightarrow> d)"

text \<open>\<open>set_query_data\<close> followed by \<open>get_query_data(...).expect(...)\<close>; the two take the cache lock
  separately.\<close>

definition store_result ::
  "('v dynval \<Rightarrow> 'v dynval \<Rightarrow> bool) \<Rightarrow> type_id \<Rightarrow> 'v query \<Rightarrow> 'v attempt_env \<Rightarrow> 'v dynval
   \<Rightarrow> 'v client \<Rightarrow> 'v exec_result \<times> 'v client" where
  "store_result peq ty q env d c =
     (let c2 = ae_between env
                 (set_query_data peq (ae_now env) (q_key q) (apply_select q d) (q_options q) c)
      in case get_query_data ty (q_key q) c2 of
           Some v \<Rightarrow> (Returned (Success v), c2)
         | None \<Rightarrow> (Panicked (PayloadText ''data should be set''), c2))"

definition cancelled_state :: "type_id \<Rightarrow> 'v query \<Rightarrow> 'v client \<Rightarrow> 'v exec_result" where
  "cancelled_state ty q c = Returned (Error QueryError_cancelled (get_query_data ty (q_key q) c))"

text \<open>The pause before a retry: \<open>None\<close> while waiting, \<open>Some b\<close> when over, \<open>b\<close> telling whether the
  token was found cancelled.\<close>

definition retry_pause :: "'v query \<Rightarrow> 'v attempt_env \<Rightarrow> 'v client \<Rightarrow> bool option" where
  "retry_pause q env c =
     (if \<not> can_retry (net_mode (q_options q)) (OnlineManager_is_online (cl_online c))
      then map_option (\<lambda>_. ae_cancelled_after env)
             (wait_for_online (net_mode (q_options q)) (ae_wait env))
      else Some False)"

fun fetch_loop ::
  "('v dynval \<Rightarrow> 'v dynval \<Rightarrow> bool) \<Rightarrow> type_id \<Rightarrow> 'v query \<Rightarrow> nat \<Rightarrow> 'v attempt_env list
   \<Rightarrow> 'v client \<Rightarrow> 'v execution" where
  "fetch_loop peq ty q attempt [] c = None"
| "fetch_loop peq ty q attempt (env # envs) c =
     (if ae_cancelled env then Some (cancelled_state ty q c, c, [])
      else
        let c1 = ae_during env c in
        case (if ae_cancelled_before env then None else ae_panic env) of
          Some m \<Rightarrow> Some (Panicked m, c1, [])
        | None \<Rightarrow>
            (case cancellable_fetch (ae_cancelled_before env) (ae_race env) of
               Inr d \<Rightarrow> (let (r, c2) = store_result peq ty q env d c1 in Some (r, c2, []))
             | Inl e \<Rightarrow>
                 if is_cancelled e then Some (cancelled_state ty q c1, c1, [])
                 else if RetryDecision_should_retry (Count (max_retries (retry (q_options q)))) e attempt
                         \<and> retryable_error e
                 then (case retry_pause q env c1 of
                         None \<Rightarrow> None
                       | Some True \<Rightarrow>
                           Some (cancelled_state ty q (ae_post env c1), ae_post env c1, [])
                       | Some False \<Rightarrow>
                           map_option (\<lambda>(r, c', ds). (r, c', delay_for (retry (q_options q)) attempt # ds))
                             (fetch_loop peq ty q (attempt + 1) envs (ae_post env c1)))
                 else
                   let c2 = notify_subscribers (cache_key (q_key q)) V_Error c1
                   in Some (Returned (Error e (get_query_data ty (q_key q) c2)), c2, [])))"

text \<open>\<open>execute_query_inner\<close>: the restoring gate, deduplication, the loading notification, the network
  gate and the loop. \<open>fs\<close> is the script of a deduplicated wait, \<open>envs\<close> that of the fetch.\<close>

definition execute_query_inner ::
  "('v dynval \<Rightarrow> 'v dynval \<Rightarrow> bool) \<Rightarrow> type_id \<Rightarrow> bool \<Rightarrow> instant \<Rightarrow> ('v client \<Rightarrow> 'v client) list
   \<Rightarrow> 'v attempt_env list \<Rightarrow> 'v query \<Rightarrow> 'v client \<Rightarrow> 'v execution" where
  "execute_query_inner peq ty allow_dedup now fs envs q c =
     (if client_is_restoring c then Some (Returned Idle, c, [])
      else if allow_dedup \<and> is_in_flight (q_key q) c
      then map_option (\<lambda>(s, c'). (Returned s, c', [])) (wait_for_dedup ty now (q_key q) fs c)
      else
        let c1 = notify_subscribers (cache_key (q_key q)) V_Loading c in
        if \<not> can_fetch (net_mode (q_options q)) (OnlineManager_is_online (cl_online c1))
        then Some (Returned (Error PausedErr (get_query_data ty (q_key q) c1)), c1, [])
        else fetch_loop peq ty q 0 envs c1)"

definition execute_query ::
  "('v dynval \<Rightarrow> 'v dynval \<Rightarrow> bool) \<Rightarrow> type_id \<Rightarrow> instant \<Rightarrow> ('v client \<Rightarrow> 'v client) list
   \<Rightarrow> 'v attempt_env list \<Rightarrow> 'v query \<Rightarrow> 'v client \<Rightarrow> 'v execution" where
  "execute_query peq ty now fs envs q c = execute_query_inner peq ty True now fs envs q c"

subsection \<open>Imperative fetches of the client\<close>

definition force_no_retry :: "'v query \<Rightarrow> 'v query" where
  "force_no_retry q =
     (if max_retries (retry (q_options q)) > 0
      then q\<lparr>q_options := (q_options q)\<lparr>retry := RetryConfig_new 0\<rparr>\<rparr> else q)"

definition fetch_query ::
  "('v dynval \<Rightarrow> 'v dynval \<Rightarrow> bool) \<Rightarrow> type_id \<Rightarrow> instant \<Rightarrow> ('v client \<Rightarrow> 'v client) list
   \<Rightarrow> 'v attempt_env list \<Rightarrow> 'v query \<Rightarrow> 'v client \<Rightarrow> 'v execution" where
  "fetch_query peq ty now fs envs q c = execute_query peq ty now fs envs (force_no_retry q) c"

definition prefetch_query ::
  "('v dynval \<Rightarrow> 'v dynval \<Rightarrow> bool) \<Rightarrow> type_id \<Rightarrow> instant \<Rightarrow> ('v client \<Rightarrow> 'v client) list
   \<Rightarrow> 'v attempt_env list \<Rightarrow> 'v query \<Rightarrow> 'v client \<Rightarrow> 'v client option" where
  "prefetch_query peq ty now fs envs q c =
     map_option (\<lambda>(r, c', ds). c') (fetch_query peq ty now fs envs q c)"

definition ensure_query_data ::
  "('v dynval \<Rightarrow> 'v dynval \<Rightarrow> bool) \<Rightarrow> type_id \<Rightarrow> instant \<Rightarrow> ('v client \<Rightarrow> 'v client) list
   \<Rightarrow> 'v attempt_env list \<Rightarrow> 'v query \<Rightarrow> 'v client \<Rightarrow> 'v execution" where
  "ensure_query_data peq ty now fs envs q c =
     (case get_query_data ty (q_key q) c of
        Some d \<Rightarrow>
          if \<not> client_is_stale now (q_key q) c then Some (Returned (Success d), c, [])
          else fetch_query peq ty now fs envs q c
      | None \<Rightarrow> fetch_query peq ty now fs envs q c)"

subsection \<open>Spawned fetches\<close>

fun panic_message :: "panic_payload \<Rightarrow> string" where
  "panic_message (PayloadText m) = ''fetch panicked: '' @ m"
| "panic_message PayloadOther = ''fetch panicked''"

text \<open>The body of the spawned task after \<open>catch_unwind\<close>: the state it sends, then the in-flight entry
  cleared and, with the guard, the fetching counter decremented.\<close>

definition spawned_state :: "type_id \<Rightarrow> 'v query \<Rightarrow> 'v exec_result \<times> 'v client \<Rightarrow> 'v dynval query_state" where
  "spawned_state ty q rc =
     (case fst rc of
        Returned s \<Rightarrow> s
      | Panicked p \<Rightarrow> Error (QueryError_custom (panic_message p)) (get_query_data ty (q_key q) (snd rc)))"

definition spawned_task ::
  "('v dynval \<Rightarrow> 'v dynval \<Rightarrow> bool) \<Rightarrow> type_id \<Rightarrow> instant \<Rightarrow> 'v attempt_env list \<Rightarrow> 'v query
   \<Rightarrow> 'v client \<Rightarrow> ('v dynval query_state \<times> 'v client) option" where
  "spawned_task peq ty now envs q c =
     (case execute_query_inner peq ty False now [] envs q c of
        None \<Rightarrow> None
      | Some (r, c', ds) \<Rightarrow>
          Some (spawned_state ty q (r, c'), dec_fetching (clear_in_flight (q_key q) c')))"

text \<open>\<open>spawn_query\<close> hands the task to the runtime and registers it afterwards, so the two interleave.
  The spawner has registered or not; the task has sent its state or not.\<close>

record 'v spawn_state =
  sp_client :: "'v client"
  sp_registered :: bool
  sp_sent :: "'v dynval query_state option"

definition spawn_query_init :: "'v client \<Rightarrow> 'v spawn_state" where
  "spawn_query_init c =
     (if client_is_restoring c
      then \<lparr>sp_client = c, sp_registered = True, sp_sent = Some Idle\<rparr>
      else \<lparr>sp_client = inc_fetching c, sp_registered = False, sp_sent = None\<rparr>)"

inductive spawn_query_step ::
  "('v dynval \<Rightarrow> 'v dynval \<Rightarrow> bool) \<Rightarrow> type_id \<Rightarrow> 'v query \<Rightarrow> in_flight_task
   \<Rightarrow> 'v spawn_state \<Rightarrow> 'v spawn_state \<Rightarrow> bool"
  for peq ty q t where
  register: "\<not> sp_registered s \<Longrightarrow>
    spawn_query_step peq ty q t s
      (s\<lparr>sp_client := set_in_flight (q_key q) t (sp_client s), sp_registered := True\<rparr>)"
| run: "sp_sent s = None \<Longrightarrow> spawned_task peq ty now envs q (sp_client s) = Some (st, c') \<Longrightarrow>
    spawn_query_step peq ty q t s (s\<lparr>sp_client := c', sp_sent := Some st\<rparr>)"

inductive_cases spawn_query_stepE: "spawn_query_step peq ty q t s s'"

subsection \<open>The retry loop terminates within its budget\<close>

definition waits_resolve :: "'v query \<Rightarrow> 'v attempt_env list \<Rightarrow> bool" where
  "waits_resolve q envs \<longleftrightarrow>
     list_all (\<lambda>e. wait_for_online (net_mode (q_options q)) (ae_wait e) \<noteq> None) envs"

lemma retry_pause_resolves:
  "waits_resolve q (e # es) \<Longrightarrow> retry_pause q e c \<noteq> None"
  by (auto simp: waits_resolve_def retry_pause_def)

text \<open>A pass of the loop ends the execution, or it is a retryable failure within the budget whose pause
  ends without cancellation.\<close>

definition retries :: "'v query \<Rightarrow> nat \<Rightarrow> 'v attempt_env \<Rightarrow> 'v client \<Rightarrow> bool" where
  "retries q attempt env c \<longleftrightarrow>
     \<not> ae_cancelled env \<and> \<not> ae_cancelled_before env \<and> ae_panic env = None
     \<and> (\<exists>e. ae_race env = Some (Inl e) \<and> retryable_error e)
     \<and> attempt < max_retries (retry (q_options q))
     \<and> retry_pause q env (ae_during env c) = Some False"

lemma retryable_not_cancelled: "retryable_error e \<Longrightarrow> \<not> is_cancelled e"
  by (cases e) auto

lemma fetch_loop_retries:
  "retries q attempt env c \<Longrightarrow>
   fetch_loop peq ty q attempt (env # envs) c =
     map_option (\<lambda>(r, c', ds). (r, c', delay_for (retry (q_options q)) attempt # ds))
       (fetch_loop peq ty q (attempt + 1) envs (ae_post env (ae_during env c)))"
  by (auto simp: retries_def Let_def cancellable_fetch_def retryable_not_cancelled)

lemma fetch_loop_ends:
  assumes "\<not> retries q attempt env c" "waits_resolve q (env # envs)"
  shows "\<exists>r c'. fetch_loop peq ty q attempt (env # envs) c = Some (r, c', [])"
  using assms retry_pause_resolves [OF assms(2), of "ae_during env c"]
  by (auto simp: retries_def Let_def cancellable_fetch_def retryable_not_cancelled
      split: option.splits sum.splits prod.splits bool.splits)

lemma fetch_loop_bounded:
  assumes "waits_resolve q envs" "max_retries (retry (q_options q)) - attempt < length envs"
  shows "\<exists>r c' ds. fetch_loop peq ty q attempt envs c = Some (r, c', ds)
     \<and> length ds \<le> max_retries (retry (q_options q)) - attempt
     \<and> ds = map (delay_for (retry (q_options q))) [attempt ..< attempt + length ds]"
  using assms
proof (induction envs arbitrary: attempt c)
  case Nil
  then show ?case by simp
next
  case (Cons env envs)
  show ?case
  proof (cases "retries q attempt env c")
    case False
    then show ?thesis using fetch_loop_ends [OF False Cons.prems(1)] by fastforce
  next
    case True
    then have lt: "attempt < max_retries (retry (q_options q))" by (simp add: retries_def)
    have "max_retries (retry (q_options q)) - (attempt + 1) < length envs"
      using Cons.prems(2) lt by simp
    moreover have "waits_resolve q envs" using Cons.prems(1) by (simp add: waits_resolve_def)
    ultimately obtain r c' ds where IH:
      "fetch_loop peq ty q (attempt + 1) envs (ae_post env (ae_during env c)) = Some (r, c', ds)"
      "length ds \<le> max_retries (retry (q_options q)) - (attempt + 1)"
      "ds = map (delay_for (retry (q_options q))) [attempt + 1 ..< attempt + 1 + length ds]"
      using Cons.IH by blast
    have "delay_for (retry (q_options q)) attempt # ds
        = map (delay_for (retry (q_options q))) [attempt ..< attempt + Suc (length ds)]"
      using map_upt_Cons [of "delay_for (retry (q_options q))" attempt "length ds"] IH(3)
      by (metis Suc_eq_plus1)
    then show ?thesis
      using fetch_loop_retries [OF True, of peq ty envs] IH(1,2) lt by auto
  qed
qed

text \<open>
  C3. A query execution that is neither restoring nor deduplicated nor gated always comes to an end:
  whatever the fetch function answers on each attempt and whatever other tasks do to the client
  meanwhile, \<open>max_retries + 1\<close> attempts are enough, at most \<open>max_retries\<close> backoff sleeps are
  taken, and their lengths are \<open>delay_for\<close> of 0, 1, 2, ... in order. The only assumption is that
  every wait for connectivity is over at some point (connectivity, cancellation or a closed channel).
\<close>

theorem execute_query_terminates:
  assumes "waits_resolve q envs" and "max_retries (retry (q_options q)) < length envs"
  shows "\<exists>r c' ds. execute_query_inner peq ty False now [] envs q c = Some (r, c', ds)
     \<and> length ds \<le> max_retries (retry (q_options q))
     \<and> ds = map (delay_for (retry (q_options q))) [0 ..< length ds]"
  using fetch_loop_bounded [OF assms(1), of 0] assms(2)
  by (auto simp: execute_query_inner_def Let_def)

definition failing_env :: "'v attempt_env" where
  "failing_env =
     \<lparr>ae_cancelled = False, ae_during = (\<lambda>c. c), ae_panic = None, ae_cancelled_before = False,
      ae_race = Some (Inl (Network ''down'')), ae_now = 0, ae_between = (\<lambda>c. c),
      ae_wait = [\<lparr>wr_cancelled = False, wr_online = True, wr_parked = ParkChanged\<rparr>],
      ae_cancelled_after = False, ae_post = (\<lambda>c. c)\<rparr>"

theorem execute_query_terminates_witness:
  "\<exists>r c' ds. execute_query_inner (=) (T_Other 0) False 0 [] (replicate 4 failing_env)
       (Query_new (QueryKey_new ''k'')) (QueryClient_new :: nat client) = Some (r, c', ds)
     \<and> length ds \<le> 3 \<and> ds = map (delay_for RetryConfig_default) [0 ..< length ds]"
  using execute_query_terminates [of "Query_new (QueryKey_new ''k'')" "replicate 4 failing_env" "(=)"
      "T_Other 0" 0 "QueryClient_new :: nat client"]
  by (simp add: waits_resolve_def failing_env_def Query_new_def QueryOptions_default_def
      RetryConfig_default_def list_all_iff)

end
