(* ===== verification/Executor_Laws.thy ===== *)
theory Executor_Laws
  imports Query_Executor
begin

text \<open>
  What an execution returns and leaves behind: outcomes and the cache, the gates, imperative fetches
  without retries, deduplicated waiting on the notification channel, and the race between a spawned
  task and its registration.
\<close>

subsection \<open>Outcomes\<close>

definition settled :: "type_id \<Rightarrow> query_key \<Rightarrow> 'v exec_result \<Rightarrow> 'v client \<Rightarrow> bool" where
  "settled ty key r c \<longleftrightarrow>
     (case r of
        Returned (Success v) \<Rightarrow> get_query_data ty key c = Some v
      | Returned (Error e sd) \<Rightarrow> sd = get_query_data ty key c
      | Panicked p \<Rightarrow> True
      | _ \<Rightarrow> False)"

lemma settled_simps [simp]:
  "settled ty key (Returned (Success v)) c \<longleftrightarrow> get_query_data ty key c = Some v"
  "settled ty key (Returned (Error e sd)) c \<longleftrightarrow> sd = get_query_data ty key c"
  "settled ty key (Panicked p) c"
  "settled ty (q_key q) (cancelled_state ty q c) c"
  by (simp_all add: settled_def cancelled_state_def)

lemma settled_store: "store_result peq ty q env d c = (r, c') \<Longrightarrow> settled ty (q_key q) r c'"
  by (auto simp: store_result_def Let_def split: option.splits)

lemma fetch_loop_settled:
  "fetch_loop peq ty q attempt envs c = Some (r, c', ds) \<Longrightarrow> settled ty (q_key q) r c'"
proof (induction envs arbitrary: attempt c ds)
  case Nil
  then show ?case by simp
next
  case (Cons env envs)
  then show ?case
    by (auto simp: Let_def split: if_splits option.splits sum.splits prod.splits bool.splits
        dest: settled_store)
qed

text \<open>
  An execution that fetches ends in one of two states, both consistent with the cache it leaves:
  \<open>Success\<close> carries the value now cached under the key, and \<open>Error\<close> (retries exhausted, not
  retryable, cancelled, paused) carries as stale data exactly what is cached under the key at the
  requested type. It never returns \<open>Loading\<close>, \<open>Refetching\<close>, \<open>Stale\<close> or a placeholder.
\<close>

theorem execute_query_outcome:
  assumes "execute_query_inner peq ty False now fs envs q c = Some (Returned s, c', ds)"
    and "\<not> client_is_restoring c"
  shows "(\<exists>v. s = Success v \<and> get_query_data ty (q_key q) c' = Some v)
     \<or> (\<exists>e. s = Error e (get_query_data ty (q_key q) c'))"
proof -
  have "settled ty (q_key q) (Returned s) c'"
    using assms by (auto simp: execute_query_inner_def Let_def split: if_splits
        dest: fetch_loop_settled)
  then show ?thesis by (cases s) (auto simp: settled_def)
qed

theorem execute_query_outcome_witness:
  "\<exists>s c' ds. execute_query_inner (=) (T_Other 0) False 0 [] (replicate 4 failing_env)
       (Query_new (QueryKey_new ''k'')) (QueryClient_new :: nat client) = Some (Returned s, c', ds)
     \<and> ((\<exists>v. s = Success v \<and> get_query_data (T_Other 0) (QueryKey_new ''k'') c' = Some v)
        \<or> (\<exists>e. s = Error e (get_query_data (T_Other 0) (QueryKey_new ''k'') c')))"
proof -
  let ?q = "Query_new (QueryKey_new ''k'')" and ?c = "QueryClient_new :: nat client"
  obtain s c' ds where run: "execute_query_inner (=) (T_Other 0) False 0 [] (replicate 4 failing_env)
      ?q ?c = Some (Returned s, c', ds)"
    by (simp add: execute_query_inner_def client_is_restoring_def QueryClient_new_def Let_def
        numeral_eq_Suc failing_env_def Query_new_def QueryOptions_default_def RetryConfig_default_def
        cancellable_fetch_def retry_pause_def OnlineManager_is_online_def OnlineManager_new_def)
  have "\<not> client_is_restoring ?c" by (simp add: client_is_restoring_def QueryClient_new_def)
  from execute_query_outcome [OF run this] run show ?thesis by (simp add: Query_new_def)
qed

lemma fetch_loop_stops:
  assumes "\<not> retries q attempt env c" "fetch_loop peq ty q attempt (env # envs) c = Some (r, c', ds)"
  shows "ds = []"
    "r = Returned (Error e sd) \<Longrightarrow> \<not> is_cancelled e \<Longrightarrow>
       ae_race env = Some (Inl e) \<and> (retryable_error e \<longrightarrow> max_retries (retry (q_options q)) \<le> attempt)"
    "r = Returned (Success v) \<Longrightarrow> \<exists>d. ae_race env = Some (Inr d)"
  using assms
  by (auto simp: retries_def Let_def cancellable_fetch_def cancelled_state_def QueryError_cancelled_def
      store_result_def split: if_splits option.splits sum.splits prod.splits bool.splits)

lemma fetch_loop_decisive:
  "fetch_loop peq ty q attempt envs c = Some (r, c', ds) \<Longrightarrow>
   length ds < length envs
   \<and> (\<forall>k < length ds. \<exists>e. ae_race (envs ! k) = Some (Inl e) \<and> retryable_error e)
   \<and> (\<forall>e sd. r = Returned (Error e sd) \<and> \<not> is_cancelled e \<longrightarrow>
        ae_race (envs ! length ds) = Some (Inl e)
        \<and> (retryable_error e \<longrightarrow> max_retries (retry (q_options q)) \<le> attempt + length ds))
   \<and> (\<forall>v. r = Returned (Success v) \<longrightarrow> (\<exists>d. ae_race (envs ! length ds) = Some (Inr d)))"
proof (induction envs arbitrary: attempt c ds)
  case Nil
  then show ?case by simp
next
  case (Cons env envs)
  show ?case
  proof (cases "retries q attempt env c")
    case False
    note st = fetch_loop_stops [OF False Cons.prems]
    then show ?thesis by auto
  next
    case True
    then obtain ds' where ds: "ds = delay_for (retry (q_options q)) attempt # ds'"
      "fetch_loop peq ty q (attempt + 1) envs (ae_post env (ae_during env c)) = Some (r, c', ds')"
      using Cons.prems fetch_loop_retries [OF True, of peq ty envs]
      by (auto simp del: fetch_loop.simps)
    note ih = Cons.IH [OF ds(2)]
    have "\<exists>e. ae_race ((env # envs) ! k) = Some (Inl e) \<and> retryable_error e" if "k < length ds" for k
      using that ih ds(1) True by (cases k) (auto simp: retries_def)
    then show ?thesis using ih ds(1) by auto
  qed
qed

text \<open>
  C2. Which attempt decides. The attempts before the last all failed with a network or timeout error; a
  \<open>Success\<close> comes from a successful last attempt; an \<open>Error\<close> other than a cancellation is the error of
  the last attempt, and if that error is retryable then the retry budget was used up. So no failure is
  retried that should not be, and no retry that was due is skipped.
\<close>

theorem execute_query_decisive:
  assumes "execute_query_inner peq ty False now fs envs q c = Some (Returned s, c', ds)"
    and "\<not> client_is_restoring c"
    and "can_fetch (net_mode (q_options q)) (OnlineManager_is_online (cl_online c))"
  shows "(\<forall>k < length ds. \<exists>e. ae_race (envs ! k) = Some (Inl e) \<and> retryable_error e)
     \<and> (\<forall>v. s = Success v \<longrightarrow> (\<exists>d. ae_race (envs ! length ds) = Some (Inr d)))
     \<and> (\<forall>e sd. s = Error e sd \<and> \<not> is_cancelled e \<longrightarrow> ae_race (envs ! length ds) = Some (Inl e)
          \<and> (retryable_error e \<longrightarrow> max_retries (retry (q_options q)) \<le> length ds))"
  using fetch_loop_decisive [of peq ty q 0 envs "notify_subscribers (cache_key (q_key q)) V_Loading c"
      "Returned s" c' ds] assms
  by (simp add: execute_query_inner_def Let_def)

theorem execute_query_decisive_witness:
  "\<exists>s c' ds. execute_query_inner (=) (T_Other 0) False 0 [] (replicate 4 failing_env)
       (Query_new (QueryKey_new ''k'')) (QueryClient_new :: nat client) = Some (Returned s, c', ds)
     \<and> (\<forall>e sd. s = Error e sd \<and> \<not> is_cancelled e \<longrightarrow> (retryable_error e \<longrightarrow> 3 \<le> length ds))"
proof -
  let ?q = "Query_new (QueryKey_new ''k'')" and ?c = "QueryClient_new :: nat client"
  obtain s c' ds where run: "execute_query_inner (=) (T_Other 0) False 0 [] (replicate 4 failing_env)
      ?q ?c = Some (Returned s, c', ds)"
    by (simp add: execute_query_inner_def client_is_restoring_def QueryClient_new_def Let_def
        numeral_eq_Suc failing_env_def Query_new_def QueryOptions_default_def RetryConfig_default_def
        cancellable_fetch_def retry_pause_def OnlineManager_is_online_def OnlineManager_new_def)
  have "\<not> client_is_restoring ?c" "can_fetch (net_mode (q_options ?q)) (OnlineManager_is_online (cl_online ?c))"
    by (simp_all add: client_is_restoring_def QueryClient_new_def OnlineManager_is_online_def
        OnlineManager_new_def Query_new_def QueryOptions_default_def)
  from execute_query_decisive [OF run this] run show ?thesis
    by (auto simp: Query_new_def QueryOptions_default_def RetryConfig_default_def)
qed

text \<open>
  The two gates. While a persisted cache is being restored an execution returns \<open>Idle\<close> and leaves
  the client untouched. In \<open>online\<close> mode a fetch does not start offline: the result is the \<open>Paused\<close>
  error carrying the cached data, no attempt is made, the cache and the in-flight table are unchanged.
\<close>

theorem execute_query_gates:
  "(client_is_restoring c \<longrightarrow> execute_query peq ty now fs envs q c = Some (Returned Idle, c, []))
   \<and> (\<not> client_is_restoring c \<and> \<not> is_in_flight (q_key q) c
        \<and> net_mode (q_options q) = Online \<and> \<not> om_online (cl_online c) \<longrightarrow>
      (\<exists>c'. execute_query peq ty now fs envs q c
               = Some (Returned (Error PausedErr (get_query_data ty (q_key q) c)), c', [])
             \<and> cl_cache c' = cl_cache c \<and> cl_in_flight c' = cl_in_flight c))"
  by (auto simp: execute_query_def execute_query_inner_def Let_def OnlineManager_is_online_def
      get_query_data_def)

theorem execute_query_gates_witness:
  "execute_query (=) (T_Other 0) 0 [] [] (Query_new (QueryKey_new ''k''))
     (set_is_restoring True (QueryClient_new :: nat client))
   = Some (Returned Idle, set_is_restoring True QueryClient_new, [])"
  using execute_query_gates [of "set_is_restoring True (QueryClient_new :: nat client)" "(=)"
      "T_Other 0" 0 "[]" "[]" "Query_new (QueryKey_new ''k'')"]
  by (simp add: client_is_restoring_def set_is_restoring_def)

subsection \<open>A successful attempt\<close>

text \<open>
  When the fetch succeeds on the first attempt the selected value is cached and returned: the
  state is \<open>Success v\<close> with \<open>v\<close> the selected value, or the cached value the user's \<open>PartialEq\<close>
  equates with it, no sleep is taken and the entry is fresh. But the write and the read back are two
  separate steps: if another task removes the entry in between, the execution panics.
\<close>

theorem execute_query_success:
  assumes "\<not> client_is_restoring c" and "can_fetch (net_mode (q_options q)) (om_online (cl_online c))"
    and "\<not> ae_cancelled env" and "\<not> ae_cancelled_before env" and "ae_panic env = None"
    and "ae_race env = Some (Inr d)" and "value_type (apply_select q d) = ty"
  shows "(ae_between env = (\<lambda>c. c) \<longrightarrow>
       (\<exists>v c'. execute_query_inner peq ty False now fs (env # envs) q c = Some (Returned (Success v), c', [])
          \<and> (v = apply_select q d \<or> peq v (apply_select q d))
          \<and> get_query_data ty (q_key q) c' = Some v
          \<and> \<not> client_is_stale (ae_now env) (q_key q) c'))
     \<and> (ae_between env = client_clear \<longrightarrow>
         (\<exists>c'. execute_query_inner peq ty False now fs (env # envs) q c
             = Some (Panicked (PayloadText ''data should be set''), c', [])))"
proof -
  let ?c = "ae_during env (notify_subscribers (cache_key (q_key q)) V_Loading c)"
  let ?c2 = "set_query_data peq (ae_now env) (q_key q) (apply_select q d) (q_options q) ?c"
  have run: "execute_query_inner peq ty False now fs (env # envs) q c =
      (let (r, c2) = store_result peq ty q env d ?c in Some (r, c2, []))"
    using assms(1-6) by (simp add: execute_query_inner_def Let_def OnlineManager_is_online_def
        cancellable_fetch_def)
  obtain v where v: "get_query_data ty (q_key q) ?c2 = Some v"
    "v = apply_select q d \<or> peq v (apply_select q d)"
    using set_query_data_read [where peq = peq and now = "ae_now env" and key = "q_key q"
        and data = "apply_select q d" and opts = "q_options q" and c = ?c] assms(7) by blast
  have "\<not> client_is_stale (ae_now env) (q_key q) ?c2"
    by (rule set_query_data_fresh)
  then have "ae_between env = (\<lambda>c. c) \<Longrightarrow>
     execute_query_inner peq ty False now fs (env # envs) q c = Some (Returned (Success v), ?c2, [])"
    using run v by (simp add: store_result_def Let_def)
  then show ?thesis
    using run v \<open>\<not> client_is_stale (ae_now env) (q_key q) ?c2\<close>
    by (auto simp: store_result_def Let_def get_query_data_def client_clear_def)
qed

definition ok_env :: "'v dynval \<Rightarrow> 'v attempt_env" where
  "ok_env d = failing_env\<lparr>ae_race := Some (Inr d)\<rparr>"

theorem execute_query_success_witness:
  "\<exists>c'. execute_query_inner (=) (T_Other 0) False 0 [] [ok_env (OtherV 0 5)\<lparr>ae_between := client_clear\<rparr>]
      (Query_new (QueryKey_new ''k'')) (QueryClient_new :: nat client)
    = Some (Panicked (PayloadText ''data should be set''), c', [])"
  using execute_query_success [of "QueryClient_new :: nat client" "Query_new (QueryKey_new ''k'')"
      "ok_env (OtherV 0 5)\<lparr>ae_between := client_clear\<rparr>" "OtherV 0 5" "T_Other 0" "(=)" 0 "[]" "[]"]
  by (simp add: client_is_restoring_def QueryClient_new_def ok_env_def failing_env_def Query_new_def
      QueryOptions_default_def apply_select_def OnlineManager_new_def)

subsection \<open>Imperative fetches\<close>

lemma fetch_loop_no_retry:
  "max_retries (retry (q_options q)) = 0 \<Longrightarrow>
   fetch_loop peq ty q 0 (env # envs) c = fetch_loop peq ty q 0 [env] c"
  by (auto simp: Let_def split: sum.splits option.splits)

lemma fetch_loop_no_retry_sleepless:
  "max_retries (retry (q_options q)) = 0 \<Longrightarrow> fetch_loop peq ty q 0 envs c = Some (r, c', ds) \<Longrightarrow> ds = []"
  by (cases envs) (auto simp: Let_def split: sum.splits option.splits if_splits prod.splits)

lemma force_no_retry_zero [simp]: "max_retries (retry (q_options (force_no_retry q))) = 0"
  by (simp add: force_no_retry_def RetryConfig_new_def)

text \<open>
  \<open>fetch_query\<close> makes at most one attempt and never sleeps, whatever retry configuration the query
  carries: every attempt after the first is irrelevant to its result. \<open>ensure_query_data\<close> returns
  fresh cached data without touching the client and is \<open>fetch_query\<close> otherwise.
\<close>

theorem fetch_query_single_attempt:
  "fetch_query peq ty now fs (env # envs) q c = fetch_query peq ty now fs [env] q c
   \<and> (fetch_query peq ty now fs envs q c = Some (r, c', ds) \<longrightarrow> ds = [])
   \<and> ensure_query_data peq ty now fs envs q c =
       (if get_query_data ty (q_key q) c \<noteq> None \<and> \<not> client_is_stale now (q_key q) c
        then Some (Returned (Success (the (get_query_data ty (q_key q) c))), c, [])
        else fetch_query peq ty now fs envs q c)"
proof (intro conjI impI)
  show "fetch_query peq ty now fs (env # envs) q c = fetch_query peq ty now fs [env] q c"
    using fetch_loop_no_retry [where q = "force_no_retry q" and env = env and envs = envs]
    by (simp add: fetch_query_def execute_query_def execute_query_inner_def Let_def
        del: fetch_loop.simps)
next
  assume "fetch_query peq ty now fs envs q c = Some (r, c', ds)"
  then show "ds = []"
    by (auto simp: fetch_query_def execute_query_def execute_query_inner_def Let_def
        simp del: fetch_loop.simps split: if_splits
        dest: fetch_loop_no_retry_sleepless [OF force_no_retry_zero])
qed (simp add: ensure_query_data_def split: option.splits)

theorem fetch_query_single_attempt_witness:
  "fetch_query (=) (T_Other 0) 0 [] [failing_env, ok_env (OtherV 0 1)] (Query_new (QueryKey_new ''k''))
     (QueryClient_new :: nat client)
   = fetch_query (=) (T_Other 0) 0 [] [failing_env] (Query_new (QueryKey_new ''k'')) QueryClient_new"
  using fetch_query_single_attempt [of "(=)" "T_Other 0" 0 "[]" failing_env "[ok_env (OtherV 0 1)]"
      "Query_new (QueryKey_new ''k'')" "QueryClient_new :: nat client"] by blast

subsection \<open>Deduplicated waiting\<close>

text \<open>A subscription that is registered, alive and has consumed everything.\<close>

definition listening :: "string \<Rightarrow> nat \<Rightarrow> 'v client \<Rightarrow> bool" where
  "listening k i c \<longleftrightarrow>
     (\<exists>b s. dm_get (cl_subscribers c) k = Some b \<and> 0 < capacity b \<and> dm_get (receivers b) i = Some s
        \<and> rs_queue s = [] \<and> rs_missed s = 0 \<and> rs_alive s)"

lemma listening_subscribe:
  assumes "client_wf c" "client_subscribe k c = (c1, i)"
  shows "listening k i c1"
proof -
  have "\<forall>b. dm_get (cl_subscribers c) k = Some b \<longrightarrow> 0 < capacity b"
    using assms(1) by (auto simp: client_wf_def dest: bus_wfD(1))
  then show ?thesis
    using assms(2) bus_wfD(1) [OF bus_wf_new_sender [of 16]]
    by (auto simp: client_subscribe_def Sender_subscribe_def listening_def fresh_recv_def Let_def
        split: option.splits)
qed

lemma notify_poll:
  assumes "listening k i c"
  shows "\<exists>c'. client_poll k i (notify_subscribers k v c) = (Inr \<lparr>su_key = k, su_variant = v\<rparr>, c')
     \<and> listening k i c' \<and> cl_cache c' = cl_cache c \<and> cl_online c' = cl_online c
     \<and> cl_is_restoring c' = cl_is_restoring c"
  using assms
  by (auto simp: listening_def client_poll_def notify_subscribers_def Sender_send_def send_state_def
      push_bounded_def poll_state_def poll_recv_def Let_def)

text \<open>One run of the fetcher that meets the network gate: what it does to the shared client.\<close>

definition gated_run :: "'v query \<Rightarrow> 'v client \<Rightarrow> 'v client" where
  "gated_run q c =
     (case execute_query_inner (\<lambda>_ _. True) T_String False 0 [] [] q c of
        Some (r, c', ds) \<Rightarrow> c' | None \<Rightarrow> c)"

lemma gated_run_notifies:
  "\<not> cl_is_restoring c \<Longrightarrow> net_mode (q_options q) = Online \<Longrightarrow> \<not> om_online (cl_online c) \<Longrightarrow>
   gated_run q c = notify_subscribers (cache_key (q_key q)) V_Loading c"
  by (simp add: gated_run_def execute_query_inner_def client_is_restoring_def Let_def
      OnlineManager_is_online_def)

lemma dedup_loop_gated:
  assumes "listening (cache_key (q_key q)) i c" "\<not> cl_is_restoring c"
    "net_mode (q_options q) = Online" "\<not> om_online (cl_online c)"
  shows "dedup_loop ty (q_key q) i (replicate n (gated_run q)) c = None"
  using assms
proof (induction n arbitrary: c)
  case 0
  then show ?case by simp
next
  case (Suc n)
  obtain c' where c': "client_poll (cache_key (q_key q)) i (gated_run q c)
        = (Inr \<lparr>su_key = cache_key (q_key q), su_variant = V_Loading\<rparr>, c')"
    "listening (cache_key (q_key q)) i c'" "cl_online c' = cl_online c"
    "cl_is_restoring c' = cl_is_restoring c"
    using notify_poll [OF Suc.prems(1), of V_Loading] Suc.prems by (auto simp: gated_run_notifies)
  then show ?case using Suc.IH [OF c'(2)] Suc.prems by simp
qed

lemma get_query_data_cache: "cl_cache c' = cl_cache c \<Longrightarrow> get_query_data ty k c' = get_query_data ty k c"
  by (simp add: get_query_data_def)

lemma subscribe_frame [simp]:
  "cl_cache (fst (client_subscribe k c)) = cl_cache c"
  "cl_online (fst (client_subscribe k c)) = cl_online c"
  "cl_is_restoring (fst (client_subscribe k c)) = cl_is_restoring c"
  by (simp_all add: client_subscribe_def Let_def case_prod_beta)

text \<open>A fresh client that has lost its connection.\<close>

definition offline_client :: "nat client" where
  "offline_client = client_set_online False QueryClient_new"

lemma offline_client_facts [simp]:
  "client_wf offline_client" "cl_cache offline_client = []" "\<not> cl_is_restoring offline_client"
  "\<not> om_online (cl_online offline_client)" "cl_in_flight offline_client = []"
  using wf_small(6) [OF client_wf_new, of False]
  by (simp_all add: offline_client_def client_set_online_def QueryClient_new_def
      OnlineManager_set_online_def OnlineManager_is_online_def OnlineManager_new_def)

lemma Query_new_fields [simp]:
  "q_key (Query_new k) = k" "net_mode (q_options (Query_new k)) = Online"
  by (simp_all add: Query_new_def QueryOptions_default_def)

text \<open>
  Deduplicated waiting. A caller that finds the query in flight and no data cached resolves with
  the value as soon as the fetcher caches it. But a fetcher that ends at the network gate leaves its
  waiters waiting: it only announces \<open>Loading\<close>, never a terminal update, so however many such runs
  happen the waiter does not return.
\<close>

theorem dedup_waiting:
  assumes "client_wf c" and "get_query_data ty (q_key q) c = None" and "value_type d = ty"
  shows "(\<exists>v c'. wait_for_dedup ty now (q_key q) [set_query_data peq t (q_key q) d opts] c
            = Some (Success v, c') \<and> (v = d \<or> peq v d))
     \<and> (\<not> cl_is_restoring c \<and> net_mode (q_options q) = Online \<and> \<not> om_online (cl_online c) \<longrightarrow>
          wait_for_dedup ty now (q_key q) (replicate n (gated_run q)) c = None)"
proof -
  obtain c1 i where sub: "client_subscribe (cache_key (q_key q)) c = (c1, i)"
    by (cases "client_subscribe (cache_key (q_key q)) c")
  have fr: "cl_cache c1 = cl_cache c" "cl_online c1 = cl_online c" "cl_is_restoring c1 = cl_is_restoring c"
    using subscribe_frame [of "cache_key (q_key q)" c] sub by simp_all
  have lis: "listening (cache_key (q_key q)) i c1" by (rule listening_subscribe [OF assms(1) sub])
  have none: "get_query_data ty (q_key q) c1 = None"
    using assms(2) get_query_data_cache [OF fr(1)] by simp
  obtain v where v: "get_query_data ty (q_key q) (set_query_data peq t (q_key q) d opts c1) = Some v"
    "v = d \<or> peq v d"
    using set_query_data_read [where peq = peq and now = t and key = "q_key q" and data = d
        and opts = opts and c = c1] assms(3) by blast
  obtain c0 where c0: "set_query_data peq t (q_key q) d opts c1
      = notify_subscribers (cache_key (q_key q)) V_Success c0" "listening (cache_key (q_key q)) i c0"
    using lis by (auto simp: set_query_data_def Let_def listening_def)
  obtain c2 where "client_poll (cache_key (q_key q)) i (set_query_data peq t (q_key q) d opts c1)
        = (Inr \<lparr>su_key = cache_key (q_key q), su_variant = V_Success\<rparr>, c2)"
      "cl_cache c2 = cl_cache (set_query_data peq t (q_key q) d opts c1)"
    using notify_poll [OF c0(2), of V_Success] unfolding c0(1) by auto
  then have "dedup_loop ty (q_key q) i [set_query_data peq t (q_key q) d opts] c1 = Some (Success v, c2)"
    using v(1) get_query_data_cache [of c2] by simp
  then show ?thesis
    using sub none v(2) dedup_loop_gated [OF lis] fr by (simp add: wait_for_dedup_def)
qed

theorem dedup_waiting_witness:
  "wait_for_dedup (T_Other 0) 0 (QueryKey_new ''k'')
     (replicate 1000 (gated_run (Query_new (QueryKey_new ''k'')))) offline_client = None"
  using dedup_waiting [of offline_client "T_Other 0" "Query_new (QueryKey_new ''k'')" "OtherV 0 1"
      0 "(=)" 0 QueryOptions_default 1000]
  by (simp add: get_query_data_def)

subsection \<open>A spawned task and its registration\<close>

definition spawn_reach ::
  "('v dynval \<Rightarrow> 'v dynval \<Rightarrow> bool) \<Rightarrow> type_id \<Rightarrow> 'v query \<Rightarrow> in_flight_task
   \<Rightarrow> 'v spawn_state \<Rightarrow> 'v spawn_state \<Rightarrow> bool" where
  "spawn_reach peq ty q t = (spawn_query_step peq ty q t)\<^sup>*\<^sup>*"

lemma two_steps: "R a b \<Longrightarrow> R b c \<Longrightarrow> R\<^sup>*\<^sup>* a c"
  by (rule rtranclp.rtrancl_into_rtrancl [OF r_into_rtranclp])

lemma fetching_roundtrip: "cl_fetching_count (dec_fetching (clear_in_flight k c)) = cl_fetching_count c - 1"
  by (simp add: dec_fetching_def clear_in_flight_def send_activity_def Let_def)

lemma task_clears:
  "spawned_task peq ty now envs q c = Some (st, c') \<Longrightarrow> \<not> is_in_flight (q_key q) c'"
  by (auto simp: spawned_task_def dec_fetching_def clear_in_flight_def send_activity_def Let_def
      is_in_flight_def dm_contains_def split: option.splits)

text \<open>Invariant of the interleaving: a registered task that has not finished is in flight; a finished
  task is in flight only if it was registered after it finished.\<close>

lemma spawn_order:
  assumes "spawn_query_step peq ty q t s s'"
  shows "(sp_registered s \<and> sp_sent s = None \<and> sp_sent s' \<noteq> None \<longrightarrow> \<not> is_in_flight (q_key q) (sp_client s'))
     \<and> (\<not> sp_registered s \<and> sp_registered s' \<longrightarrow> is_in_flight (q_key q) (sp_client s'))"
  using assms
  by (cases rule: spawn_query_step.cases)
    (auto simp: set_in_flight_def is_in_flight_def dm_contains_def dest: task_clears)

text \<open>
  The registration race of \<open>spawn_query\<close>. The task is handed to the runtime before it is entered
  in the in-flight table. If it is registered first, its completion removes the entry. If the task
  completes first, the registration comes last and leaves an entry for a task that no longer runs:
  both interleavings end with the task's state sent, and in the second the key stays in flight, so
  that every later \<open>execute_query\<close> of the key becomes a deduplicated wait.
\<close>

theorem spawn_query_race:
  assumes "\<not> client_is_restoring c"
    and "spawned_task peq ty now envs q (inc_fetching c) = Some (st, c1)"
    and "spawned_task peq ty now envs q (set_in_flight (q_key q) t (inc_fetching c)) = Some (st, c2)"
  shows "(\<exists>s. spawn_reach peq ty q t (spawn_query_init c) s \<and> sp_sent s = Some st \<and> sp_registered s
            \<and> \<not> is_in_flight (q_key q) (sp_client s))
     \<and> (\<exists>s. spawn_reach peq ty q t (spawn_query_init c) s \<and> sp_sent s = Some st \<and> sp_registered s
            \<and> is_in_flight (q_key q) (sp_client s)
            \<and> (\<forall>now' fs envs'. \<not> client_is_restoring (sp_client s) \<longrightarrow>
                 execute_query peq ty now' fs envs' q (sp_client s) =
                   map_option (\<lambda>(s', c'). (Returned s', c', [])) (wait_for_dedup ty now' (q_key q) fs (sp_client s))))"
proof
  let ?s0 = "spawn_query_init c"
  have s0: "?s0 = \<lparr>sp_client = inc_fetching c, sp_registered = False, sp_sent = None\<rparr>"
    using assms(1) by (simp add: spawn_query_init_def)
  let ?r = "?s0\<lparr>sp_client := set_in_flight (q_key q) t (sp_client ?s0), sp_registered := True\<rparr>"
  have "spawn_query_step peq ty q t ?s0 ?r" by (rule spawn_query_step.register) (simp add: s0)
  moreover have "spawn_query_step peq ty q t ?r (?r\<lparr>sp_client := c2, sp_sent := Some st\<rparr>)"
    by (rule spawn_query_step.run) (use assms(3) in \<open>simp_all add: s0\<close>)
  ultimately have "spawn_reach peq ty q t ?s0 (?r\<lparr>sp_client := c2, sp_sent := Some st\<rparr>)"
    unfolding spawn_reach_def by (rule two_steps)
  then show "\<exists>s. spawn_reach peq ty q t ?s0 s \<and> sp_sent s = Some st \<and> sp_registered s
            \<and> \<not> is_in_flight (q_key q) (sp_client s)"
    using task_clears [OF assms(3)] by (intro exI conjI) auto
  let ?f = "?s0\<lparr>sp_client := c1, sp_sent := Some st\<rparr>"
  let ?e = "?f\<lparr>sp_client := set_in_flight (q_key q) t (sp_client ?f), sp_registered := True\<rparr>"
  have "spawn_query_step peq ty q t ?s0 ?f"
    by (rule spawn_query_step.run) (use assms(2) in \<open>simp_all add: s0\<close>)
  moreover have "spawn_query_step peq ty q t ?f ?e" by (rule spawn_query_step.register) (simp add: s0)
  ultimately have "spawn_reach peq ty q t ?s0 ?e"
    unfolding spawn_reach_def by (rule two_steps)
  moreover have "is_in_flight (q_key q) (sp_client ?e)"
    by (simp add: set_in_flight_def is_in_flight_def dm_contains_def)
  ultimately show "\<exists>s. spawn_reach peq ty q t ?s0 s \<and> sp_sent s = Some st \<and> sp_registered s
            \<and> is_in_flight (q_key q) (sp_client s)
            \<and> (\<forall>now' fs envs'. \<not> client_is_restoring (sp_client s) \<longrightarrow>
                 execute_query peq ty now' fs envs' q (sp_client s) =
                   map_option (\<lambda>(s', c'). (Returned s', c', [])) (wait_for_dedup ty now' (q_key q) fs (sp_client s)))"
    by (intro exI [of _ ?e] conjI) (auto simp: execute_query_def execute_query_inner_def)
qed

lemma offline_spawned_task:
  assumes "\<not> cl_is_restoring c" "\<not> om_online (cl_online c)" "cl_cache c = []"
  shows "\<exists>c'. spawned_task (=) (T_Other 0) 0 [] (Query_new k) c = Some (Error PausedErr None, c')"
  using assms
  by (auto simp: spawned_task_def execute_query_inner_def spawned_state_def client_is_restoring_def
      OnlineManager_is_online_def get_query_data_def Let_def)

theorem spawn_query_race_witness:
  "\<exists>s. spawn_reach (=) (T_Other 0) (Query_new (QueryKey_new ''k'')) \<lparr>if_abort = 1, if_cancel_token = 1\<rparr>
      (spawn_query_init offline_client) s
     \<and> sp_sent s = Some (Error PausedErr None) \<and> sp_registered s
     \<and> is_in_flight (QueryKey_new ''k'') (sp_client s)"
proof -
  let ?q = "Query_new (QueryKey_new ''k'') :: nat query" and ?t = "\<lparr>if_abort = 1, if_cancel_token = 1\<rparr>"
  obtain c1 where c1: "spawned_task (=) (T_Other 0) 0 [] ?q (inc_fetching offline_client)
      = Some (Error PausedErr None, c1)"
    using offline_spawned_task [of "inc_fetching offline_client" "QueryKey_new ''k''"]
    by (auto simp: inc_fetching_def send_activity_def Let_def)
  obtain c2 where c2: "spawned_task (=) (T_Other 0) 0 [] ?q
      (set_in_flight (q_key ?q) ?t (inc_fetching offline_client)) = Some (Error PausedErr None, c2)"
    using offline_spawned_task [of "set_in_flight (q_key ?q) ?t (inc_fetching offline_client)"
        "QueryKey_new ''k''"]
    by (auto simp: inc_fetching_def send_activity_def set_in_flight_def Let_def)
  have "\<not> client_is_restoring offline_client" by (simp add: client_is_restoring_def)
  from spawn_query_race [OF this c1 c2] show ?thesis by auto
qed

end
