(* ===== verification/Query_Observer.thy ===== *)
theory Query_Observer
  imports Executor_Laws
begin

text \<open>
  \<open>src/observer.rs\<close>: the per-key observer, its local fetch bookkeeping and its subscription to the
  client. The observer owns a subscription (a receiver number of the key's channel) and a clone of the
  client; operations that read or write the client take it as an argument. Counters saturate at
  \<open>u32::MAX\<close>.
\<close>

subsection \<open>State and operations\<close>

record query_result_flags =
  fl_data_updated_at :: "instant option"
  fl_error_updated_at :: "instant option"
  fl_error_update_count :: nat
  fl_failure_count :: nat
  fl_failure_reason :: "query_error option"
  fl_is_fetched :: bool
  fl_is_fetched_after_mount :: bool
  fl_is_loading_error :: bool
  fl_is_refetch_error :: bool
  fl_is_placeholder_data :: bool
  fl_is_paused :: bool
  fl_is_enabled :: bool

record 'v query_observer =
  ob_key :: query_key
  ob_state :: "'v dynval query_state"
  ob_receiver :: nat
  ob_options :: query_options
  ob_fetch_started_at :: "instant option"
  ob_placeholder_data :: "'v dynval placeholder_data option"
  ob_data_updated_at :: "instant option"
  ob_error_updated_at :: "instant option"
  ob_error_update_count :: nat
  ob_failure_count :: nat
  ob_failure_reason :: "query_error option"
  ob_is_fetched :: bool
  ob_is_fetched_after_mount :: bool

definition QueryObserver_clone :: "'v query_observer \<Rightarrow> 'v client \<Rightarrow> 'v query_observer \<times> 'v client" where
  "QueryObserver_clone o' c =
     (let (c1, i) = client_subscribe (cache_key (ob_key o')) c
      in (o'\<lparr>ob_receiver := i\<rparr>, QueryClient_clone c1))"

definition QueryObserver_new ::
  "type_id \<Rightarrow> instant \<Rightarrow> query_key \<Rightarrow> 'v client \<Rightarrow> 'v query_observer \<times> 'v client" where
  "QueryObserver_new ty now key c =
     (let (c1, i) = client_subscribe (cache_key key) c;
          state = (case get_query_data ty key c1 of
                     Some d \<Rightarrow> if client_is_stale now key c1 then Stale d else Success d
                   | None \<Rightarrow> Idle)
      in (\<lparr>ob_key = key, ob_state = state, ob_receiver = i, ob_options = QueryOptions_default,
           ob_fetch_started_at = None, ob_placeholder_data = None, ob_data_updated_at = None,
           ob_error_updated_at = None, ob_error_update_count = 0, ob_failure_count = 0,
           ob_failure_reason = None, ob_is_fetched = False, ob_is_fetched_after_mount = False\<rparr>,
          QueryClient_clone c1))"

definition QueryObserver_from_query ::
  "('v dynval \<Rightarrow> 'v dynval \<Rightarrow> bool) \<Rightarrow> type_id \<Rightarrow> instant \<Rightarrow> 'v query \<Rightarrow> 'v client
   \<Rightarrow> 'v query_observer \<times> 'v client" where
  "QueryObserver_from_query peq ty now q c =
     (let (c1, i) = client_subscribe (cache_key (q_key q)) c;
          (state, c2) =
            (case get_query_data ty (q_key q) c1 of
               Some d \<Rightarrow> (if client_is_stale now (q_key q) c1 then Stale d else Success d, c1)
             | None \<Rightarrow>
                 (case q_initial_data q of
                    Some initial \<Rightarrow>
                      (Success initial, set_query_data peq now (q_key q) initial (q_options q) c1)
                  | None \<Rightarrow> (Idle, c1)))
      in (\<lparr>ob_key = q_key q, ob_state = state, ob_receiver = i, ob_options = q_options q,
           ob_fetch_started_at = None, ob_placeholder_data = q_placeholder_data q,
           ob_data_updated_at = None, ob_error_updated_at = None, ob_error_update_count = 0,
           ob_failure_count = 0, ob_failure_reason = None, ob_is_fetched = False,
           ob_is_fetched_after_mount = False\<rparr>,
          QueryClient_clone c2))"

definition QueryObserver_with_options ::
  "type_id \<Rightarrow> instant \<Rightarrow> query_key \<Rightarrow> query_options \<Rightarrow> 'v client \<Rightarrow> 'v query_observer \<times> 'v client" where
  "QueryObserver_with_options ty now key opts c =
     (let (o', c') = QueryObserver_new ty now key c in (o'\<lparr>ob_options := opts\<rparr>, c'))"

fun observer_resolve ::
  "'v dynval query_state \<Rightarrow> 'v dynval option \<Rightarrow> bool \<Rightarrow> 'v dynval query_state" where
  "observer_resolve s None stale = Idle"
| "observer_resolve Loading (Some d) stale = (if stale then Stale d else Success d)"
| "observer_resolve (LoadingWithPlaceholder p) (Some d) stale = (if stale then Stale d else Success d)"
| "observer_resolve (Refetching p) (Some d) stale = (if stale then Stale d else Success d)"
| "observer_resolve s (Some d) True = Stale d"
| "observer_resolve s (Some d) False = Success d"

definition observer_update ::
  "type_id \<Rightarrow> instant \<Rightarrow> 'v client \<Rightarrow> 'v query_observer \<Rightarrow> 'v query_observer" where
  "observer_update ty now c o' =
     o'\<lparr>ob_state := observer_resolve (ob_state o') (get_query_data ty (ob_key o') c)
                      (client_is_stale now (ob_key o') c)\<rparr>"

definition set_loading :: "instant \<Rightarrow> 'v query_observer \<Rightarrow> 'v query_observer" where
  "set_loading now o' =
     (let o1 = o'\<lparr>ob_fetch_started_at := Some now, ob_failure_count := 0, ob_failure_reason := None\<rparr>
      in case QueryState_data_cloned (ob_state o1) of
           Some d \<Rightarrow> o1\<lparr>ob_state := Refetching d\<rparr>
         | None \<Rightarrow>
             (case ob_placeholder_data o1 of
                Some p \<Rightarrow> o1\<lparr>ob_state := LoadingWithPlaceholder (PlaceholderData_resolve p None)\<rparr>
              | None \<Rightarrow> o1\<lparr>ob_state := Loading\<rparr>))"

definition set_success :: "instant \<Rightarrow> 'v dynval \<Rightarrow> 'v query_observer \<Rightarrow> 'v query_observer" where
  "set_success now d o' =
     (let had_fetch = ob_fetch_started_at o' \<noteq> None
      in o'\<lparr>ob_fetch_started_at := None, ob_state := Success d, ob_data_updated_at := Some now,
            ob_is_fetched := True,
            ob_is_fetched_after_mount := (had_fetch \<or> ob_is_fetched_after_mount o'),
            ob_failure_count := 0, ob_failure_reason := None\<rparr>)"

definition set_error :: "instant \<Rightarrow> query_error \<Rightarrow> 'v query_observer \<Rightarrow> 'v query_observer" where
  "set_error now e o' =
     (let had_fetch = ob_fetch_started_at o' \<noteq> None
      in o'\<lparr>ob_fetch_started_at := None,
            ob_state := Error e (QueryState_data_cloned (ob_state o')),
            ob_error_updated_at := Some now,
            ob_error_update_count := sat32 (ob_error_update_count o' + 1),
            ob_failure_count := sat32 (ob_failure_count o' + 1),
            ob_failure_reason := Some e, ob_is_fetched := True,
            ob_is_fetched_after_mount := (had_fetch \<or> ob_is_fetched_after_mount o')\<rparr>)"

definition set_stale :: "instant \<Rightarrow> 'v query_observer \<Rightarrow> 'v query_observer" where
  "set_stale now o' =
     (case QueryState_data_cloned (ob_state o') of
        Some d \<Rightarrow> o'\<lparr>ob_state := Stale d, ob_data_updated_at := Some now\<rparr>
      | None \<Rightarrow> o')"

text \<open>\<open>for _ in 0..n { match receiver.try_recv() { Ok(u) => last = Some(u), Err(_) => break } }\<close>.\<close>

fun observer_drain ::
  "string \<Rightarrow> nat \<Rightarrow> nat \<Rightarrow> query_state_update option \<Rightarrow> 'v client
   \<Rightarrow> query_state_update option \<times> 'v client" where
  "observer_drain k i 0 latest c = (latest, c)"
| "observer_drain k i (Suc n) latest c =
     (case client_poll k i c of
        (Inr u, c') \<Rightarrow> observer_drain k i n (Some u) c'
      | (Inl e, c') \<Rightarrow> (latest, c'))"

definition observer_try_recv ::
  "'v query_observer \<Rightarrow> 'v client \<Rightarrow> query_state_update option \<times> 'v client" where
  "observer_try_recv o' c =
     (case client_poll (cache_key (ob_key o')) (ob_receiver o') c of
        (Inr u, c') \<Rightarrow> (Some u, c')
      | (Inl (TE_Lagged n), c') \<Rightarrow> observer_drain (cache_key (ob_key o')) (ob_receiver o') n None c'
      | (Inl e, c') \<Rightarrow> (None, c'))"

definition observer_refetch :: "'v query_observer \<Rightarrow> 'v client \<Rightarrow> 'v client" where
  "observer_refetch o' c = invalidate_queries (ob_key o') c"

definition observer_refetch_with :: "bool \<Rightarrow> 'v query_observer \<Rightarrow> 'v client \<Rightarrow> 'v client" where
  "observer_refetch_with cancel_refetch o' c =
     observer_refetch o' (if cancel_refetch then cancel_query (ob_key o') c else c)"

definition observer_flags :: "'v client \<Rightarrow> 'v query_observer \<Rightarrow> query_result_flags" where
  "observer_flags c o' =
     \<lparr>fl_data_updated_at = ob_data_updated_at o', fl_error_updated_at = ob_error_updated_at o',
      fl_error_update_count = ob_error_update_count o', fl_failure_count = ob_failure_count o',
      fl_failure_reason = ob_failure_reason o', fl_is_fetched = ob_is_fetched o',
      fl_is_fetched_after_mount = ob_is_fetched_after_mount o',
      fl_is_loading_error = (QueryState_is_error (ob_state o') \<and> \<not> QueryState_has_data (ob_state o')),
      fl_is_refetch_error = (QueryState_is_error (ob_state o') \<and> QueryState_has_data (ob_state o')),
      fl_is_placeholder_data = (case ob_state o' of LoadingWithPlaceholder _ \<Rightarrow> True | _ \<Rightarrow> False),
      fl_is_paused = (\<not> can_fetch (net_mode (ob_options o')) (OnlineManager_is_online (cl_online c))),
      fl_is_enabled = QueryOptions_is_enabled (ob_options o')\<rparr>"

subsection \<open>The bookkeeping invariant\<close>

datatype 'v observer_op =
    ObUpdate instant "'v client" | ObLoading instant | ObSuccess instant "'v dynval"
  | ObError instant query_error | ObStale instant

fun observer_step :: "type_id \<Rightarrow> 'v observer_op \<Rightarrow> 'v query_observer \<Rightarrow> 'v query_observer" where
  "observer_step ty (ObUpdate now c) o' = observer_update ty now c o'"
| "observer_step ty (ObLoading now) o' = set_loading now o'"
| "observer_step ty (ObSuccess now d) o' = set_success now d o'"
| "observer_step ty (ObError now e) o' = set_error now e o'"
| "observer_step ty (ObStale now) o' = set_stale now o'"

definition observer_inv :: "'v query_observer \<Rightarrow> bool" where
  "observer_inv o' \<longleftrightarrow>
     (ob_failure_count o' = 0 \<longleftrightarrow> ob_failure_reason o' = None)
     \<and> ob_failure_count o' \<le> ob_error_update_count o'
     \<and> (ob_error_update_count o' = 0 \<longleftrightarrow> ob_error_updated_at o' = None)
     \<and> (ob_is_fetched_after_mount o' \<longrightarrow> ob_is_fetched o')
     \<and> (ob_error_updated_at o' \<noteq> None \<longrightarrow> ob_is_fetched o')
     \<and> (ob_fetch_started_at o' \<noteq> None \<longrightarrow> ob_failure_count o' = 0)"

lemma sat32_Suc: "sat32 (Suc n) \<noteq> 0" "m \<le> n \<Longrightarrow> sat32 (Suc m) \<le> sat32 (Suc n)"
  by (auto simp: sat32_def u32_max_def)

lemma observer_inv_update: "observer_inv o' \<Longrightarrow> observer_inv (observer_update ty now c o')"
  by (simp add: observer_inv_def observer_update_def)

lemma observer_inv_loading: "observer_inv o' \<Longrightarrow> observer_inv (set_loading now o')"
  by (simp add: observer_inv_def set_loading_def Let_def split: option.split)

lemma observer_inv_success: "observer_inv o' \<Longrightarrow> observer_inv (set_success now d o')"
  by (simp add: observer_inv_def set_success_def Let_def)

lemma observer_inv_error: "observer_inv o' \<Longrightarrow> observer_inv (set_error now e o')"
  by (simp add: observer_inv_def set_error_def Let_def sat32_Suc)

lemma observer_inv_stale: "observer_inv o' \<Longrightarrow> observer_inv (set_stale now o')"
  by (simp add: observer_inv_def set_stale_def split: option.split)

lemma observer_inv_new: "observer_inv (fst (QueryObserver_new ty now key c))"
  by (simp add: observer_inv_def QueryObserver_new_def Let_def case_prod_beta)

interpretation observer_m:
  inv_machine "fst (QueryObserver_new ty now key c)" "observer_step ty" observer_inv for ty now key c
proof
  show "observer_inv (fst (QueryObserver_new ty now key c))" by (rule observer_inv_new)
next
  fix s :: "'a query_observer" and a assume "observer_inv s"
  then show "observer_inv (observer_step ty a s)"
    by (cases a) (simp_all add: observer_inv_update observer_inv_loading observer_inv_success
        observer_inv_error observer_inv_stale)
qed

text \<open>
  C28. The result flags of an observer are consistent after every sequence of its operations: a failure
  reason is present exactly when failures were counted, failures never exceed the errors seen, an error
  timestamp exists exactly when an error was seen, \<open>is_fetched_after_mount\<close> and any error imply
  \<open>is_fetched\<close>, a running fetch has no failures yet, and loading and refetch error exclude each other.
\<close>

theorem observer_flags_consistent:
  assumes "o' = fold (observer_step ty) ops (fst (QueryObserver_new ty now key c0))"
    and "fl = observer_flags c o'"
  shows "(fl_failure_count fl = 0 \<longleftrightarrow> fl_failure_reason fl = None)
     \<and> fl_failure_count fl \<le> fl_error_update_count fl
     \<and> (fl_error_update_count fl = 0 \<longleftrightarrow> fl_error_updated_at fl = None)
     \<and> (fl_is_fetched_after_mount fl \<or> fl_error_updated_at fl \<noteq> None \<longrightarrow> fl_is_fetched fl)
     \<and> (ob_fetch_started_at o' \<noteq> None \<longrightarrow> fl_failure_count fl = 0)
     \<and> \<not> (fl_is_loading_error fl \<and> fl_is_refetch_error fl)
     \<and> (fl_is_placeholder_data fl \<longrightarrow> \<not> fl_is_loading_error fl \<and> \<not> fl_is_refetch_error fl)"
proof -
  have "observer_inv o'" unfolding assms(1) by (rule observer_m.inv_run)
  then show ?thesis
    unfolding assms(2) by (cases "ob_state o'") (auto simp: observer_inv_def observer_flags_def)
qed

theorem observer_flags_consistent_witness:
  "fl_failure_count (observer_flags QueryClient_new
     (fold (observer_step T_String) [ObLoading 1, ObError 2 PausedErr, ObError 3 PausedErr]
       (fst (QueryObserver_new T_String 0 (QueryKey_new ''k'') (QueryClient_new :: nat client)))))
   \<le> fl_error_update_count (observer_flags QueryClient_new
     (fold (observer_step T_String) [ObLoading 1, ObError 2 PausedErr, ObError 3 PausedErr]
       (fst (QueryObserver_new T_String 0 (QueryKey_new ''k'') (QueryClient_new :: nat client)))))"
  using observer_flags_consistent [of _ T_String "[ObLoading 1, ObError 2 PausedErr, ObError 3 PausedErr]"
      0 "QueryKey_new ''k''" "QueryClient_new :: nat client" _ "QueryClient_new :: nat client", OF refl refl]
  by blast

subsection \<open>Following the cache\<close>

text \<open>What a fresh observer shows: a function of the cache alone.\<close>

definition cached_state :: "type_id \<Rightarrow> instant \<Rightarrow> query_key \<Rightarrow> 'v client \<Rightarrow> 'v dynval query_state" where
  "cached_state ty now key c =
     (case get_query_data ty key c of
        Some d \<Rightarrow> if client_is_stale now key c then Stale d else Success d
      | None \<Rightarrow> Idle)"

lemma observer_resolve_state:
  "observer_resolve s d stale = (case d of None \<Rightarrow> Idle | Some v \<Rightarrow> if stale then Stale v else Success v)"
  by (cases "(s, d, stale)" rule: observer_resolve.cases) auto

lemma observer_update_state: "ob_state (observer_update ty now c o') = cached_state ty now (ob_key o') c"
  by (simp add: observer_update_def observer_resolve_state cached_state_def split: option.split)

lemma client_is_stale_cache: "cl_cache c' = cl_cache c \<Longrightarrow> client_is_stale now k c' = client_is_stale now k c"
  by (simp add: client_is_stale_def)

lemma subscribe_cache: "cl_cache (fst (client_subscribe k c)) = cl_cache c"
  by (simp add: client_subscribe_def Let_def case_prod_beta)

lemma observer_new_state: "ob_state (fst (QueryObserver_new ty now key c)) = cached_state ty now key c"
  by (simp add: QueryObserver_new_def cached_state_def Let_def case_prod_beta
      get_query_data_cache [OF subscribe_cache] client_is_stale_cache [OF subscribe_cache] split: option.split)

lemma set_query_data_notifies:
  "set_query_data peq now key data opts c = notify_subscribers (cache_key key) V_Success
     (c\<lparr>cl_next_arc := cl_next_arc c + 1,
        cl_cache := cl_cache (set_query_data peq now key data opts c)\<rparr>)"
  by (simp add: set_query_data_def Let_def)

lemma listening_cache: "listening k i (c\<lparr>cl_next_arc := n, cl_cache := m\<rparr>) = listening k i c"
  by (simp add: listening_def)

text \<open>
  A write reaches the observers of the key. After \<open>set_query_data\<close> an observer that had consumed
  everything receives the \<open>Success\<close> update of that key, and updating then shows \<open>Success\<close> of the
  value the cache returns for the key, whatever state it was in before (idle, loading, failed), as a new
  observer would show; it is again fully caught up.
\<close>

theorem observer_sees_write:
  assumes "listening (cache_key (ob_key o')) (ob_receiver o') c"
    and "c1 = set_query_data peq now (ob_key o') data opts c"
  shows "\<exists>c2 v. observer_try_recv o' c1 = (Some \<lparr>su_key = cache_key (ob_key o'), su_variant = V_Success\<rparr>, c2)
     \<and> get_query_data (value_type data) (ob_key o') c1 = Some v
     \<and> ob_state (observer_update (value_type data) now c2 o') = Success v
     \<and> ob_state (fst (QueryObserver_new (value_type data) now (ob_key o') c2)) = Success v
     \<and> listening (cache_key (ob_key o')) (ob_receiver o') c2"
proof -
  let ?c0 = "c\<lparr>cl_next_arc := cl_next_arc c + 1, cl_cache := cl_cache c1\<rparr>"
  have c1: "c1 = notify_subscribers (cache_key (ob_key o')) V_Success ?c0"
    unfolding assms(2) by (rule set_query_data_notifies)
  obtain c2 where c2: "client_poll (cache_key (ob_key o')) (ob_receiver o') c1
      = (Inr \<lparr>su_key = cache_key (ob_key o'), su_variant = V_Success\<rparr>, c2)"
    "listening (cache_key (ob_key o')) (ob_receiver o') c2" "cl_cache c2 = cl_cache c1"
    using notify_poll [OF listening_cache [THEN iffD2, OF assms(1)], of V_Success "cl_cache c1" "cl_next_arc c + 1",
        folded c1] by auto
  obtain v where v: "get_query_data (value_type data) (ob_key o') c1 = Some v"
    using set_query_data_read unfolding assms(2) by blast
  then have "cached_state (value_type data) now (ob_key o') c2 = Success v"
    using get_query_data_cache [OF c2(3)] client_is_stale_cache [OF c2(3)]
      set_query_data_fresh [of now "ob_key o'" peq data opts c]
    by (simp add: cached_state_def assms(2))
  then show ?thesis
    using c2 v by (simp add: observer_try_recv_def observer_update_state observer_new_state)
qed

theorem observer_sees_write_witness:
  "\<exists>c2. observer_try_recv (fst (QueryObserver_new T_String 0 (QueryKey_new ''k'') QueryClient_new))
      (set_query_data (=) 5 (QueryKey_new ''k'') (StrV ''v'') QueryOptions_default
        (snd (QueryObserver_new T_String 0 (QueryKey_new ''k'') (QueryClient_new :: nat client))))
    = (Some \<lparr>su_key = ''k'', su_variant = V_Success\<rparr>, c2)"
proof -
  let ?o = "fst (QueryObserver_new T_String 0 (QueryKey_new ''k'') (QueryClient_new :: nat client))"
  let ?c = "snd (QueryObserver_new T_String 0 (QueryKey_new ''k'') (QueryClient_new :: nat client))"
  have k: "ob_key ?o = QueryKey_new ''k''"
    by (simp add: QueryObserver_new_def Let_def case_prod_beta)
  have "listening (cache_key (ob_key ?o)) (ob_receiver ?o) ?c"
    by (simp add: QueryObserver_new_def client_subscribe_def QueryClient_clone_def QueryClient_new_def
        listening_def new_sender_def Sender_subscribe_def Sender_channel_def Receiver_drop_def
        fresh_recv_def Let_def)
  from observer_sees_write [OF this refl, of "(=)" 5 "StrV ''v''" QueryOptions_default] show ?thesis
    unfolding k by (auto simp: QueryKey_new_def)
qed

subsection \<open>Lag\<close>

lemma client_poll_queue:
  assumes "dm_get (cl_subscribers c) k = Some b" "dm_get (receivers b) i = Some s" "rs_missed s = 0"
    "rs_queue s = u # us"
  shows "client_poll k i c = (Inr u, c\<lparr>cl_subscribers := dm_insert k
     (b\<lparr>receivers := dm_insert i (s\<lparr>rs_queue := us\<rparr>) (receivers b)\<rparr>) (cl_subscribers c)\<rparr>)"
  using assms by (simp add: recv_defs)

lemma observer_drain_queue:
  assumes "dm_get (cl_subscribers c) k = Some b" "dm_get (receivers b) i = Some s" "rs_missed s = 0"
    "n \<le> length (rs_queue s)"
  shows "\<exists>c' b'. observer_drain k i n latest c
       = (if n = 0 then latest else Some (rs_queue s ! (n - 1)), c')
     \<and> dm_get (cl_subscribers c') k = Some b' \<and> cl_cache c' = cl_cache c
     \<and> dm_get (receivers b') i = Some (s\<lparr>rs_queue := drop n (rs_queue s)\<rparr>)"
  using assms
proof (induction n arbitrary: latest c b s)
  case 0
  then show ?case by auto
next
  case (Suc n)
  then obtain u us where q: "rs_queue s = u # us" by (cases "rs_queue s") auto
  let ?b = "b\<lparr>receivers := dm_insert i (s\<lparr>rs_queue := us\<rparr>) (receivers b)\<rparr>"
  let ?c = "c\<lparr>cl_subscribers := dm_insert k ?b (cl_subscribers c)\<rparr>"
  note ih = Suc.IH [of ?c ?b "s\<lparr>rs_queue := us\<rparr>" "Some u"]
  show ?case
    using ih Suc.prems(3,4) q client_poll_queue [OF Suc.prems(1,2,3) q]
    by (cases n) auto
qed

text \<open>
  A lagged observer skips more than it lost. When its channel dropped \<open>n\<close> updates, \<open>try_recv\<close>
  consumes up to \<open>n\<close> further updates that are still queued and returns only the last of them; the
  updates before it, which were delivered, are never reported.
\<close>

theorem observer_lag_skips:
  assumes "dm_get (cl_subscribers c) (cache_key (ob_key o')) = Some b"
    and "dm_get (receivers b) (ob_receiver o') = Some s"
    and "0 < rs_missed s" and "rs_missed s \<le> length (rs_queue s)"
  shows "\<exists>c' b'. observer_try_recv o' c = (Some (rs_queue s ! (rs_missed s - 1)), c')
     \<and> dm_get (cl_subscribers c') (cache_key (ob_key o')) = Some b'
     \<and> map_option rs_queue (dm_get (receivers b') (ob_receiver o')) = Some (drop (rs_missed s) (rs_queue s))"
proof -
  let ?k = "cache_key (ob_key o')" and ?i = "ob_receiver o'" and ?s = "s\<lparr>rs_missed := 0\<rparr>"
  let ?b = "b\<lparr>receivers := dm_insert ?i ?s (receivers b)\<rparr>"
  have "client_poll ?k ?i c = (Inl (TE_Lagged (rs_missed s)),
      c\<lparr>cl_subscribers := dm_insert ?k ?b (cl_subscribers c)\<rparr>)"
    using assms by (simp add: recv_defs)
  then show ?thesis
    using observer_drain_queue [of "c\<lparr>cl_subscribers := dm_insert ?k ?b (cl_subscribers c)\<rparr>" ?k ?b ?i ?s
        "rs_missed s" None] assms(3,4)
    by (auto simp: observer_try_recv_def)
qed

theorem observer_lag_skips_witness:
  "fst (observer_try_recv (fst (QueryObserver_new T_String 0 (QueryKey_new ''k'') QueryClient_new))
     ((QueryClient_new :: nat client)\<lparr>cl_subscribers := [(''k'', \<lparr>capacity = 2, next_id = 2,
        senders_alive = True, sender_count = 1, receivers = [(1,
          \<lparr>rs_queue = [\<lparr>su_key = ''k'', su_variant = V_Error\<rparr>, \<lparr>su_key = ''k'', su_variant = V_Loading\<rparr>],
           rs_waker = None, rs_missed = 2, rs_alive = True\<rparr>)]\<rparr>)]\<rparr>))
   = Some \<lparr>su_key = ''k'', su_variant = V_Loading\<rparr>"
proof -
  let ?o = "fst (QueryObserver_new T_String 0 (QueryKey_new ''k'') (QueryClient_new :: nat client))"
  let ?s = "\<lparr>rs_queue = [\<lparr>su_key = ''k'', su_variant = V_Error\<rparr>, \<lparr>su_key = ''k'', su_variant = V_Loading\<rparr>],
           rs_waker = None, rs_missed = 2, rs_alive = True\<rparr>"
  let ?b = "\<lparr>capacity = 2, next_id = 2, senders_alive = True, sender_count = 1, receivers = [(1, ?s)]\<rparr>"
  have o': "cache_key (ob_key ?o) = ''k''" "ob_receiver ?o = 1"
    by (simp_all add: QueryObserver_new_def client_subscribe_def QueryClient_new_def new_sender_def
        Sender_subscribe_def Sender_channel_def Receiver_drop_def QueryKey_new_def Let_def)
  show ?thesis
    using observer_lag_skips [of "(QueryClient_new :: nat client)\<lparr>cl_subscribers := [(''k'', ?b)]\<rparr>" ?o ?b ?s]
    by (auto simp: o' dm_get_def)
qed

subsection \<open>Placeholder data\<close>

text \<open>
  Placeholder data turns into data. An observer with no cached data and a placeholder shows the
  placeholder while loading, but when that fetch fails the placeholder is kept as stale data, so the
  failure is flagged as a refetch error and not as a loading error although nothing was ever fetched;
  and starting the fetch a second time reports a background refetch of the placeholder.
\<close>

theorem observer_placeholder_leak:
  assumes "QueryState_data (ob_state o') = None" and "ob_placeholder_data o' = Some p"
    and "v = PlaceholderData_resolve p None"
  shows "ob_state (set_loading now o') = LoadingWithPlaceholder v
     \<and> ob_state (set_error now e (set_loading now o')) = Error e (Some v)
     \<and> fl_is_refetch_error (observer_flags c (set_error now e (set_loading now o')))
     \<and> \<not> fl_is_loading_error (observer_flags c (set_error now e (set_loading now o')))
     \<and> ob_state (set_loading now (set_loading now o')) = Refetching v"
  using assms
  by (simp add: set_loading_def set_error_def observer_flags_def QueryState_data_cloned_def
      QueryState_has_data_def Let_def)

theorem observer_placeholder_leak_witness:
  "ob_state (set_error 0 (Network ''x'') (set_loading 0 (fst (QueryObserver_from_query (=) T_String 0
      (Query_placeholder_data (PValue (StrV ''...'')) (Query_new (QueryKey_new ''k'')))
      (QueryClient_new :: nat client))))) = Error (Network ''x'') (Some (StrV ''...''))"
  using observer_placeholder_leak [of "fst (QueryObserver_from_query (=) T_String 0
      (Query_placeholder_data (PValue (StrV ''...'')) (Query_new (QueryKey_new ''k'')))
      (QueryClient_new :: nat client))" "PValue (StrV ''...'')" "StrV ''...''" 0 "Network ''x''"
      "QueryClient_new :: nat client"]
  by (simp add: QueryObserver_from_query_def Query_placeholder_data_def Query_new_def Let_def
      case_prod_beta get_query_data_def client_subscribe_def QueryClient_new_def)

end
