(* ===== verification/Page_Slot.thy ===== *)
theory Page_Slot
  imports Network
begin

text \<open>
  The capacity-1 request slot of \<open>src/infinite_executor.rs\<close> (\<open>PageRequestSender\<close>,
  \<open>PageRequestReceiver\<close>): a mutex-protected option, a watch cell that signals changes, and the strong
  count of the shared allocation, which tells the receiver that the sender is gone.

  \<open>recv\<close> is a loop with four points at which another thread can act: taking the slot, reading the
  strong count, subscribing to the watch cell, and waiting on it. They are the phases of the receiver;
  \<open>recv_step\<close> runs from one to the next, and one poll of the future on a cooperative scheduler runs
  through all of them. Dropping the sender first signals (the body of \<open>Drop\<close>) and then releases the
  allocation (the drop glue of its field).
\<close>

subsection \<open>The slot\<close>

datatype page_request = PR_Next | PR_Previous

record page_slot =
  sl_slot :: "page_request option"
  sl_release :: "unit watch"
  sl_strong :: nat

definition PageRequestSender_pair :: page_slot where
  "PageRequestSender_pair = \<lparr>sl_slot = None, sl_release = fst (Watch_new ()), sl_strong = 2\<rparr>"

definition slot_signal :: "page_slot \<Rightarrow> page_slot" where
  "slot_signal s = s\<lparr>sl_release := fst (Watch_send () (sl_release s))\<rparr>"

definition PageRequestSender_try_send :: "page_request \<Rightarrow> page_slot \<Rightarrow> page_slot \<times> bool" where
  "PageRequestSender_try_send r s =
     (if sl_slot s \<noteq> None then (s, False) else (slot_signal (s\<lparr>sl_slot := Some r\<rparr>), True))"

definition PageRequestSender_drop :: "page_slot \<Rightarrow> page_slot" where
  "PageRequestSender_drop s = slot_signal s"

definition slot_arc_drop :: "page_slot \<Rightarrow> page_slot" where
  "slot_arc_drop s = s\<lparr>sl_strong := sl_strong s - 1\<rparr>"

datatype recv_phase =
    RecvTake | RecvCount | RecvSubscribe | RecvParked watcher | RecvDone "page_request option"

fun recv_step :: "recv_phase \<times> page_slot \<Rightarrow> recv_phase \<times> page_slot" where
  "recv_step (RecvTake, s) =
     (case sl_slot s of
        Some r \<Rightarrow> (RecvDone (Some r), s\<lparr>sl_slot := None\<rparr>)
      | None \<Rightarrow> (RecvCount, s))"
| "recv_step (RecvCount, s) = (if sl_strong s = 1 then (RecvDone None, s) else (RecvSubscribe, s))"
| "recv_step (RecvSubscribe, s) =
     (let (w, r) = Watch_subscribe (sl_release s) in (RecvParked r, s\<lparr>sl_release := w\<rparr>))"
| "recv_step (RecvParked r, s) =
     (case Changed_poll (sl_release s) r of
        (ChangePending, w, r') \<Rightarrow> (RecvParked r', s\<lparr>sl_release := w\<rparr>)
      | (_, w, r') \<Rightarrow> (RecvTake, s\<lparr>sl_release := w\<rparr>))"
| "recv_step (RecvDone x, s) = (RecvDone x, s)"

text \<open>One poll of the future: from a resolved wait it takes the slot, reads the count, subscribes and
  waits again; five steps reach the next pending wait or the result, and both are left unchanged by
  further steps.\<close>

definition recv_poll :: "recv_phase \<times> page_slot \<Rightarrow> recv_phase \<times> page_slot" where
  "recv_poll x = recv_step (recv_step (recv_step (recv_step (recv_step x))))"

subsection \<open>Sender and receiver together\<close>

datatype sender_phase = SenderLive | SenderSignalled | SenderGone

record slot_sys =
  sy_slot :: page_slot
  sy_recv :: recv_phase
  sy_sender :: sender_phase
  sy_accepted :: "page_request list"
  sy_served :: "page_request list"

definition slot_start :: slot_sys where
  "slot_start = \<lparr>sy_slot = PageRequestSender_pair, sy_recv = RecvTake, sy_sender = SenderLive,
     sy_accepted = [], sy_served = []\<rparr>"

definition sys_recv :: "(recv_phase \<times> page_slot \<Rightarrow> recv_phase \<times> page_slot) \<Rightarrow> slot_sys \<Rightarrow> slot_sys" where
  "sys_recv f y = (let (p, s) = f (sy_recv y, sy_slot y) in y\<lparr>sy_recv := p, sy_slot := s\<rparr>)"

definition sys_send :: "page_request \<Rightarrow> slot_sys \<Rightarrow> slot_sys" where
  "sys_send r y =
     (let (s, ok) = PageRequestSender_try_send r (sy_slot y)
      in y\<lparr>sy_slot := s, sy_accepted := sy_accepted y @ (if ok then [r] else [])\<rparr>)"

inductive slot_step :: "bool \<Rightarrow> slot_sys \<Rightarrow> slot_sys \<Rightarrow> bool" for threads where
  send: "sy_sender y = SenderLive \<Longrightarrow> slot_step threads y (sys_send r y)"
| signal: "\<lbrakk>threads; sy_sender y = SenderLive\<rbrakk> \<Longrightarrow> slot_step threads y
    (y\<lparr>sy_slot := PageRequestSender_drop (sy_slot y), sy_sender := SenderSignalled\<rparr>)"
| release: "sy_sender y = SenderSignalled \<Longrightarrow> slot_step threads y
    (y\<lparr>sy_slot := slot_arc_drop (sy_slot y), sy_sender := SenderGone\<rparr>)"
| drop: "\<lbrakk>\<not> threads; sy_sender y = SenderLive\<rbrakk> \<Longrightarrow> slot_step threads y
    (y\<lparr>sy_slot := slot_arc_drop (PageRequestSender_drop (sy_slot y)), sy_sender := SenderGone\<rparr>)"
| recv: "slot_step threads y (sys_recv (if threads then recv_step else recv_poll) y)"
| serve: "sy_recv y = RecvDone (Some r) \<Longrightarrow> slot_step threads y
    (y\<lparr>sy_recv := RecvTake, sy_served := sy_served y @ [r]\<rparr>)"

inductive_cases slot_stepE: "slot_step threads y z"

fun in_hand :: "recv_phase \<Rightarrow> page_request list" where
  "in_hand (RecvDone (Some r)) = [r]"
| "in_hand _ = []"

subsection \<open>Delivery\<close>

definition slot_delivery :: "slot_sys \<Rightarrow> bool" where
  "slot_delivery y \<longleftrightarrow>
     sy_accepted y = sy_served y @ in_hand (sy_recv y) @ (case sl_slot (sy_slot y) of None \<Rightarrow> [] | Some r \<Rightarrow> [r])"

lemma recv_step_delivery:
  "in_hand (fst (recv_step (p, s))) @ (case sl_slot (snd (recv_step (p, s))) of None \<Rightarrow> [] | Some r \<Rightarrow> [r])
   = in_hand p @ (case sl_slot s of None \<Rightarrow> [] | Some r \<Rightarrow> [r])"
  by (cases "(p, s)" rule: recv_step.cases)
    (auto simp: Watch_subscribe_def split: option.splits prod.splits change_poll.splits)

lemma recv_poll_delivery:
  "in_hand (fst (recv_poll (p, s))) @ (case sl_slot (snd (recv_poll (p, s))) of None \<Rightarrow> [] | Some r \<Rightarrow> [r])
   = in_hand p @ (case sl_slot s of None \<Rightarrow> [] | Some r \<Rightarrow> [r])"
  unfolding recv_poll_def using recv_step_delivery by (metis prod.collapse)

lemma slot_delivery_step:
  assumes "slot_step threads y z" "slot_delivery y"
  shows "slot_delivery z"
  using assms(1)
proof cases
  case recv
  then show ?thesis
    using assms(2) recv_step_delivery [of "sy_recv y" "sy_slot y"] recv_poll_delivery [of "sy_recv y" "sy_slot y"]
    by (simp add: slot_delivery_def sys_recv_def case_prod_beta split: if_splits)
qed (use assms(2) in \<open>auto simp: slot_delivery_def sys_send_def PageRequestSender_try_send_def
    slot_signal_def PageRequestSender_drop_def slot_arc_drop_def split: option.splits\<close>)

lemma slot_delivery_start: "slot_delivery slot_start"
  by (simp add: slot_delivery_def slot_start_def PageRequestSender_pair_def)

lemma slot_delivery_reach: "(slot_step threads)\<^sup>*\<^sup>* slot_start y \<Longrightarrow> slot_delivery y"
  by (induction rule: rtranclp_induct) (auto intro: slot_delivery_step slot_delivery_start)

subsection \<open>Wakeups\<close>

text \<open>A parked receiver that nothing will wake: its watch cell has not changed since it subscribed.\<close>

definition asleep :: "slot_sys \<Rightarrow> bool" where
  "asleep y \<longleftrightarrow> (\<exists>r. sy_recv y = RecvParked r \<and> w_version (sl_release (sy_slot y)) = wr_last_seen r
     \<and> w_alive (sl_release (sy_slot y)))"

definition coop_inv :: "slot_sys \<Rightarrow> bool" where
  "coop_inv y \<longleftrightarrow> w_alive (sl_release (sy_slot y)) \<and> sy_sender y \<noteq> SenderSignalled
     \<and> (sy_sender y = SenderGone \<longleftrightarrow> sl_strong (sy_slot y) = 1)
     \<and> (sy_recv y = RecvTake \<or> (\<exists>r. sy_recv y = RecvParked r) \<or> (\<exists>x. sy_recv y = RecvDone x))
     \<and> (asleep y \<longrightarrow> sl_slot (sy_slot y) = None \<and> sy_sender y = SenderLive)
     \<and> (\<forall>r. sy_recv y = RecvParked r \<longrightarrow> wr_last_seen r \<le> w_version (sl_release (sy_slot y)))
     \<and> (sl_strong (sy_slot y) = 2 \<or> sl_strong (sy_slot y) = 1)"

definition parked_slot :: "page_slot \<Rightarrow> page_slot" where
  "parked_slot s = s\<lparr>sl_release := (sl_release s)\<lparr>w_next_id := w_next_id (sl_release s) + 1,
     w_waiters := List.insert (w_next_id (sl_release s)) (w_waiters (sl_release s))\<rparr>\<rparr>"

lemma recv_poll_take:
  assumes "w_alive (sl_release s)"
  shows "recv_poll (RecvTake, s) =
    (case sl_slot s of
       Some r \<Rightarrow> (RecvDone (Some r), s\<lparr>sl_slot := None\<rparr>)
     | None \<Rightarrow> if sl_strong s = 1 then (RecvDone None, s)
               else (RecvParked (snd (Watch_subscribe (sl_release s))), parked_slot s))"
  using assms
  by (auto simp: recv_poll_def Changed_poll_def Watch_subscribe_def parked_slot_def split: option.split)

lemma recv_poll_fires:
  assumes "w_alive (sl_release s)" "w_version (sl_release s) \<noteq> wr_last_seen r"
  shows "recv_poll (RecvParked r, s) = recv_poll (RecvTake, s)"
  using assms
  by (auto simp: recv_poll_def Changed_poll_def Watch_subscribe_def split: option.split)

lemma recv_poll_pending:
  assumes "w_alive (sl_release s)" "w_version (sl_release s) = wr_last_seen r"
  shows "recv_poll (RecvParked r, s) = (RecvParked r,
    s\<lparr>sl_release := (sl_release s)\<lparr>w_waiters := List.insert (wr_id r) (w_waiters (sl_release s))\<rparr>\<rparr>)"
  using assms by (simp add: recv_poll_def Changed_poll_def)

lemma recv_poll_done: "recv_poll (RecvDone x, s) = (RecvDone x, s)"
  by (simp add: recv_poll_def)

lemma coop_inv_take:
  assumes "coop_inv y" "sy_recv y = RecvTake"
  shows "coop_inv (sys_recv recv_poll y)"
  using assms
  by (cases "sy_sender y")
    (auto simp: coop_inv_def asleep_def sys_recv_def recv_poll_take parked_slot_def Watch_subscribe_def
      split: option.split)

lemma coop_inv_recv:
  assumes "coop_inv y"
  shows "coop_inv (sys_recv recv_poll y)"
proof -
  consider "sy_recv y = RecvTake" | x where "sy_recv y = RecvDone x" | r where "sy_recv y = RecvParked r"
    using assms by (auto simp: coop_inv_def)
  then show ?thesis
  proof cases
    case 1
    then show ?thesis using coop_inv_take [OF assms] by blast
  next
    case (2 x)
    then show ?thesis using assms by (auto simp: sys_recv_def recv_poll_done coop_inv_def asleep_def)
  next
    case (3 r)
    show ?thesis
    proof (cases "w_version (sl_release (sy_slot y)) = wr_last_seen r")
      case True
      then show ?thesis
        using assms 3 by (auto simp: coop_inv_def asleep_def sys_recv_def recv_poll_pending)
    next
      case False
      have "coop_inv (y\<lparr>sy_recv := RecvTake\<rparr>)" using assms by (auto simp: coop_inv_def asleep_def)
      then have "coop_inv (sys_recv recv_poll (y\<lparr>sy_recv := RecvTake\<rparr>))" by (rule coop_inv_take) simp
      moreover have "sys_recv recv_poll y = sys_recv recv_poll (y\<lparr>sy_recv := RecvTake\<rparr>)"
        using assms 3 False by (simp add: sys_recv_def coop_inv_def recv_poll_fires case_prod_beta)
      ultimately show ?thesis by simp
    qed
  qed
qed

lemma coop_inv_step:
  assumes "slot_step False y z" "coop_inv y"
  shows "coop_inv z"
  using assms(1)
proof cases
  case recv
  then show ?thesis using coop_inv_recv [OF assms(2)] by simp
qed (use assms(2) in \<open>auto simp: coop_inv_def asleep_def sys_send_def PageRequestSender_try_send_def
    slot_signal_def PageRequestSender_drop_def slot_arc_drop_def Watch_send_def\<close>)

lemma coop_inv_start: "coop_inv slot_start"
  by (auto simp: coop_inv_def asleep_def slot_start_def PageRequestSender_pair_def Watch_new_def)

lemma coop_inv_reach: "(slot_step False)\<^sup>*\<^sup>* slot_start y \<Longrightarrow> coop_inv y"
  by (induction rule: rtranclp_induct) (auto intro: coop_inv_step coop_inv_start)

text \<open>
  C23. The request slot, on a cooperative scheduler: accepted requests are served exactly once and in
  order (at most one is pending), and no wakeup is lost: whenever the receiver sleeps with no wakeup
  due, the slot is empty and the sender still lives. So a pending request is always served and the loop
  always learns that its observer is gone.
\<close>

theorem page_slot_reliable:
  assumes "(slot_step False)\<^sup>*\<^sup>* slot_start y"
  shows "sy_accepted y = sy_served y @ in_hand (sy_recv y)
        @ (case sl_slot (sy_slot y) of None \<Rightarrow> [] | Some r \<Rightarrow> [r])
     \<and> (asleep y \<longrightarrow> sl_slot (sy_slot y) = None \<and> sy_sender y = SenderLive)"
  using slot_delivery_reach [OF assms] coop_inv_reach [OF assms]
  by (simp add: slot_delivery_def coop_inv_def)

theorem page_slot_reliable_witness:
  "sy_accepted (sys_recv recv_poll (sys_send PR_Next (sys_recv recv_poll slot_start))) = [PR_Next]
   \<and> in_hand (sy_recv (sys_recv recv_poll (sys_send PR_Next (sys_recv recv_poll slot_start)))) = [PR_Next]"
proof -
  have 1: "slot_step False slot_start (sys_recv recv_poll slot_start)"
    using slot_step.recv [of False slot_start] by simp
  have "sy_sender (sys_recv recv_poll slot_start) = SenderLive"
    by (simp add: sys_recv_def slot_start_def case_prod_beta)
  then have 2: "slot_step False (sys_recv recv_poll slot_start) (sys_send PR_Next (sys_recv recv_poll slot_start))"
    by (rule slot_step.send)
  have 3: "slot_step False (sys_send PR_Next (sys_recv recv_poll slot_start))
      (sys_recv recv_poll (sys_send PR_Next (sys_recv recv_poll slot_start)))"
    using slot_step.recv [of False "sys_send PR_Next (sys_recv recv_poll slot_start)"] by simp
  have "(slot_step False)\<^sup>*\<^sup>* slot_start (sys_recv recv_poll (sys_send PR_Next (sys_recv recv_poll slot_start)))"
    using 1 2 3 by (meson rtranclp.rtrancl_into_rtrancl rtranclp.rtrancl_refl)
  from page_slot_reliable [OF this] show ?thesis
    by (simp add: sys_recv_def sys_send_def slot_start_def PageRequestSender_pair_def Watch_new_def
        recv_poll_def Watch_subscribe_def Changed_poll_def PageRequestSender_try_send_def slot_signal_def
        Watch_send_def)
qed

subsection \<open>Lost wakeups with threads\<close>

lemma asleep_step:
  assumes "slot_step True y z" "asleep y" "sy_sender y = SenderGone \<or> (sy_sender y = SenderLive \<and> sl_slot (sy_slot y) \<noteq> None)"
    "sy_sender z = sy_sender y"
  shows "asleep z \<and> sy_served z = sy_served y \<and> sy_accepted z = sy_accepted y
    \<and> sl_slot (sy_slot z) = sl_slot (sy_slot y)"
  using assms
  by (cases rule: slot_step.cases)
    (auto simp: asleep_def sys_send_def sys_recv_def PageRequestSender_try_send_def Changed_poll_def)

lemma sender_step: "slot_step True y z \<Longrightarrow> (sy_sender z = SenderLive \<longrightarrow> sy_sender y = SenderLive)
   \<and> (sy_sender y = SenderGone \<longrightarrow> sy_sender z = SenderGone)"
  by (erule slot_stepE) (auto simp: sys_send_def sys_recv_def case_prod_beta)

lemma stuck_forever:
  assumes "(slot_step True)\<^sup>*\<^sup>* y z" "asleep y" "sl_slot (sy_slot y) \<noteq> None" "sy_sender z = SenderLive"
  shows "asleep z \<and> sy_served z = sy_served y \<and> sy_accepted z = sy_accepted y
    \<and> sl_slot (sy_slot z) = sl_slot (sy_slot y)"
  using assms
proof (induction rule: rtranclp_induct)
  case (step z z')
  then have "sy_sender z = SenderLive" using sender_step [of z z'] by blast
  then show ?case using step asleep_step [of z z'] by auto
qed simp

lemma leaked_forever:
  assumes "(slot_step True)\<^sup>*\<^sup>* y z" "asleep y" "sy_sender y = SenderGone"
  shows "asleep z \<and> sy_sender z = SenderGone"
  using assms
proof (induction rule: rtranclp_induct)
  case (step z z')
  then have "sy_sender z' = SenderGone" using sender_step [of z z'] by blast
  then show ?case using step asleep_step [of z z'] by auto
qed simp

text \<open>The receiver has found the slot empty and is about to subscribe.\<close>

definition about_to_park :: slot_sys where
  "about_to_park = slot_start\<lparr>sy_recv := RecvSubscribe\<rparr>"

lemma about_to_park_reach: "(slot_step True)\<^sup>*\<^sup>* slot_start about_to_park"
proof -
  have "slot_step True slot_start (slot_start\<lparr>sy_recv := RecvCount\<rparr>)"
    using slot_step.recv [of True slot_start] by (simp add: sys_recv_def slot_start_def PageRequestSender_pair_def)
  moreover have "slot_step True (slot_start\<lparr>sy_recv := RecvCount\<rparr>) about_to_park"
    using slot_step.recv [of True "slot_start\<lparr>sy_recv := RecvCount\<rparr>"]
    by (simp add: sys_recv_def slot_start_def PageRequestSender_pair_def about_to_park_def)
  ultimately show ?thesis by (meson rtranclp.rtrancl_into_rtrancl rtranclp.rtrancl_refl)
qed

lemmas race_simps = about_to_park_def slot_start_def PageRequestSender_pair_def sys_recv_def sys_send_def
  PageRequestSender_try_send_def PageRequestSender_drop_def slot_arc_drop_def slot_signal_def
  Watch_new_def Watch_send_def Watch_subscribe_def asleep_def Let_def

lemma lost_request_reach:
  obtains y where "(slot_step True)\<^sup>*\<^sup>* slot_start y" "asleep y" "sl_slot (sy_slot y) = Some r"
    "sy_sender y = SenderLive" "sy_served y = []" "sy_accepted y = [r]"
proof -
  let ?y = "sys_recv recv_step (sys_send r about_to_park)"
  have "slot_step True about_to_park (sys_send r about_to_park)"
    by (rule slot_step.send) (simp add: race_simps)
  moreover have "slot_step True (sys_send r about_to_park) ?y"
    using slot_step.recv [of True "sys_send r about_to_park"] by simp
  ultimately have "(slot_step True)\<^sup>*\<^sup>* slot_start ?y"
    using about_to_park_reach by (meson rtranclp.rtrancl_into_rtrancl)
  then show thesis by (rule that) (simp_all add: race_simps)
qed

lemma leaked_receiver_reach:
  obtains y where "(slot_step True)\<^sup>*\<^sup>* slot_start y" "asleep y" "sy_sender y = SenderGone"
proof -
  let ?y1 = "about_to_park\<lparr>sy_slot := PageRequestSender_drop (sy_slot about_to_park), sy_sender := SenderSignalled\<rparr>"
  let ?y2 = "sys_recv recv_step ?y1"
  let ?y3 = "?y2\<lparr>sy_slot := slot_arc_drop (sy_slot ?y2), sy_sender := SenderGone\<rparr>"
  have "slot_step True about_to_park ?y1"
    by (rule slot_step.signal) (simp_all add: race_simps)
  moreover have "slot_step True ?y1 ?y2" using slot_step.recv [of True ?y1] by simp
  moreover have "slot_step True ?y2 ?y3"
    by (rule slot_step.release) (simp add: race_simps)
  ultimately have "(slot_step True)\<^sup>*\<^sup>* slot_start ?y3"
    using about_to_park_reach by (meson rtranclp.rtrancl_into_rtrancl)
  then show thesis by (rule that) (simp_all add: race_simps)
qed

text \<open>
  With sender and receiver on different threads a wakeup can be lost, because the receiver looks
  at the slot before it subscribes to changes. There is an execution in which a request is accepted and
  then, whatever happens while the observer lives, is never served and no further request is accepted;
  and one in which the observer is gone and the receiving task never ends.
\<close>

theorem page_slot_lost_wakeup:
  "(\<exists>y. (slot_step True)\<^sup>*\<^sup>* slot_start y \<and> sy_accepted y = [r] \<and> sy_sender y = SenderLive
     \<and> (\<forall>z. (slot_step True)\<^sup>*\<^sup>* y z \<and> sy_sender z = SenderLive \<longrightarrow> sy_served z = [] \<and> sy_accepted z = [r]))
   \<and> (\<exists>y. (slot_step True)\<^sup>*\<^sup>* slot_start y \<and> sy_sender y = SenderGone
     \<and> (\<forall>z. (slot_step True)\<^sup>*\<^sup>* y z \<longrightarrow> (\<exists>w. sy_recv z = RecvParked w)))"
proof (intro conjI)
  obtain y where y: "(slot_step True)\<^sup>*\<^sup>* slot_start y" "asleep y" "sl_slot (sy_slot y) = Some r"
    "sy_sender y = SenderLive" "sy_served y = []" "sy_accepted y = [r]" by (rule lost_request_reach)
  have "sy_served z = [] \<and> sy_accepted z = [r]" if "(slot_step True)\<^sup>*\<^sup>* y z" "sy_sender z = SenderLive" for z
    using stuck_forever [OF that(1) y(2) _ that(2)] y(3,5,6) by simp
  then show "\<exists>y. (slot_step True)\<^sup>*\<^sup>* slot_start y \<and> sy_accepted y = [r] \<and> sy_sender y = SenderLive
     \<and> (\<forall>z. (slot_step True)\<^sup>*\<^sup>* y z \<and> sy_sender z = SenderLive \<longrightarrow> sy_served z = [] \<and> sy_accepted z = [r])"
    using y(1,4,6) by blast
next
  obtain y where y: "(slot_step True)\<^sup>*\<^sup>* slot_start y" "asleep y" "sy_sender y = SenderGone"
    by (rule leaked_receiver_reach)
  have "\<exists>w. sy_recv z = RecvParked w" if "(slot_step True)\<^sup>*\<^sup>* y z" for z
    using leaked_forever [OF that y(2,3)] by (auto simp: asleep_def)
  then show "\<exists>y. (slot_step True)\<^sup>*\<^sup>* slot_start y \<and> sy_sender y = SenderGone
     \<and> (\<forall>z. (slot_step True)\<^sup>*\<^sup>* y z \<longrightarrow> (\<exists>w. sy_recv z = RecvParked w))"
    using y by blast
qed

text \<open>Applied to a request for the next page.\<close>

theorem page_slot_lost_wakeup_witness:
  "\<exists>y. (slot_step True)\<^sup>*\<^sup>* slot_start y \<and> sy_accepted y = [PR_Next] \<and> sy_served y = []"
  using page_slot_lost_wakeup [of PR_Next] by blast

end
