(* ===== verification/Infinite_Executor.thy ===== *)
theory Infinite_Executor
  imports Query_Observer Page_Slot
begin

text \<open>
  \<open>src/infinite_executor.rs\<close>: the page loop of an infinite query and the observer handle that drives
  it. The loop serves one request per round; a round of its script has what other tasks do to the
  client before the request arrives and while the page is fetched, the request, and the answer of the
  fetch function to the page parameter the loop asks for (\<open>None\<close> when it panics, which ends the task).
  The request slot itself is the theory \<open>Page_Slot\<close>.
\<close>

subsection \<open>The page loop\<close>

record 'v page_env =
  pe_before :: "'v client \<Rightarrow> 'v client"
  pe_request :: page_request
  pe_task :: in_flight_task
  pe_during :: "'v client \<Rightarrow> 'v client"
  pe_fetch :: "'v \<Rightarrow> (query_error, 'v) result option"
  pe_now :: instant

text \<open>\<open>Inl\<close>: the task has died by a panic; \<open>Inr\<close>: it goes on.\<close>

type_synonym 'v loop_state = "'v client \<times> 'v query_observer"

type_synonym 'v loop_result = "('v loop_state, 'v loop_state) result"

definition requested_param :: "'v infinite_query \<Rightarrow> page_request \<Rightarrow> 'v infinite_data \<Rightarrow> 'v option" where
  "requested_param q r d =
     (case r of
        PR_Next \<Rightarrow>
          (case iq_get_next_page_param q of None \<Rightarrow> None
           | Some f \<Rightarrow> (case last_page d of None \<Rightarrow> None | Some p \<Rightarrow> f p (pages d)))
      | PR_Previous \<Rightarrow>
          (case iq_get_previous_page_param q of None \<Rightarrow> None
           | Some f \<Rightarrow> (case first_page d of None \<Rightarrow> None | Some p \<Rightarrow> f p (pages d))))"

definition store_page ::
  "nat \<Rightarrow> nat \<Rightarrow> 'v infinite_query \<Rightarrow> instant \<Rightarrow> page_request \<Rightarrow> 'v \<Rightarrow> 'v \<Rightarrow> 'v client \<Rightarrow> 'v client option" where
  "store_page t p q now r page param c =
     (case r of
        PR_Next \<Rightarrow> map_option snd (append_infinite_page now (iq_key q) t p page param (iq_max_pages q) c)
      | PR_Previous \<Rightarrow> Some (snd (prepend_infinite_page now (iq_key q) t p page param (iq_max_pages q) c)))"

definition serve_request ::
  "nat \<Rightarrow> nat \<Rightarrow> 'v infinite_query \<Rightarrow> 'v page_env \<Rightarrow> 'v loop_state \<Rightarrow> 'v loop_result" where
  "serve_request t p q env st =
     (let key = iq_key q; o' = snd st; c0 = pe_before env (fst st) in
      case get_infinite_data t p key c0 of
        None \<Rightarrow> Inr (c0, o')
      | Some d \<Rightarrow>
          if is_in_flight key c0 then Inr (c0, o')
          else (case requested_param q (pe_request env) d of
                  None \<Rightarrow> Inr (c0, o')
                | Some param \<Rightarrow>
                    (let c1 = pe_during env (set_in_flight key (pe_task env) c0) in
                     case pe_fetch env param of
                       None \<Rightarrow> Inl (c1, o')
                     | Some (Inr page) \<Rightarrow>
                         (case store_page t p q (pe_now env) (pe_request env) page param c1 of
                            None \<Rightarrow> Inl (c1, o')
                          | Some c2 \<Rightarrow>
                              Inr (clear_in_flight key c2,
                                   observer_update (T_Infinite t p) (pe_now env) c2 o'))
                     | Some (Inl e) \<Rightarrow>
                         Inr (clear_in_flight key (notify_subscribers (cache_key key) V_Error c1), o'))))"

fun serve_requests ::
  "nat \<Rightarrow> nat \<Rightarrow> 'v infinite_query \<Rightarrow> 'v page_env list \<Rightarrow> 'v loop_state \<Rightarrow> 'v loop_result" where
  "serve_requests t p q [] st = Inr st"
| "serve_requests t p q (env # envs) st =
     (case serve_request t p q env st of
        Inl dead \<Rightarrow> Inl dead
      | Inr st' \<Rightarrow> serve_requests t p q envs st')"

text \<open>The initial fetch; of its environment the request and the task are not used.\<close>

definition initial_fetch ::
  "('v dynval \<Rightarrow> 'v dynval \<Rightarrow> bool) \<Rightarrow> nat \<Rightarrow> nat \<Rightarrow> 'v infinite_query \<Rightarrow> 'v page_env \<Rightarrow> 'v loop_state
   \<Rightarrow> 'v loop_result" where
  "initial_fetch peq t p q env st =
     (let o1 = set_loading (pe_now env) (snd st);
          c1 = pe_during env (fst st)
      in case pe_fetch env (initial_page_param q) of
           None \<Rightarrow> Inl (c1, o1)
         | Some r \<Rightarrow>
             (let c2 = (case r of
                          Inr page \<Rightarrow>
                            set_infinite_data peq (pe_now env) (iq_key q) t p
                              (push_page page (initial_page_param q) InfiniteData_new) (iq_options q) c1
                        | Inl e \<Rightarrow> notify_subscribers (cache_key (iq_key q)) V_Error c1)
              in Inr (c2, observer_update (T_Infinite t p) (pe_now env) c2 o1)))"

definition run_infinite_query_loop ::
  "('v dynval \<Rightarrow> 'v dynval \<Rightarrow> bool) \<Rightarrow> nat \<Rightarrow> nat \<Rightarrow> 'v infinite_query \<Rightarrow> 'v page_env \<Rightarrow> 'v page_env list
   \<Rightarrow> 'v loop_state \<Rightarrow> 'v loop_result" where
  "run_infinite_query_loop peq t p q env envs st =
     (case initial_fetch peq t p q env st of
        Inl dead \<Rightarrow> Inl dead
      | Inr st' \<Rightarrow> serve_requests t p q envs st')"

subsection \<open>The observer handle\<close>

definition DIRECTION_FORWARD :: nat where "DIRECTION_FORWARD = 0"

definition DIRECTION_BACKWARD :: nat where "DIRECTION_BACKWARD = 1"

record 'v infinite_observer =
  io_observer :: "'v query_observer"
  io_query :: "'v infinite_query"
  io_fetch_direction :: nat

text \<open>What \<open>spawn_infinite_query\<close> hands out: the handle, its slot, and the start state of the loop task,
  whose observer is a clone of the handle's. The client handle the task owns is a clone too.\<close>

definition spawn_infinite_query ::
  "nat \<Rightarrow> nat \<Rightarrow> instant \<Rightarrow> 'v infinite_query \<Rightarrow> 'v client
   \<Rightarrow> 'v infinite_observer \<times> page_slot \<times> 'v loop_state" where
  "spawn_infinite_query t p now q c =
     (let c0 = QueryClient_clone c;
          (ob, c1) = QueryObserver_with_options (T_Infinite t p) now (iq_key q) (iq_options q) c0;
          (task_ob, c2) = QueryObserver_clone ob c1
      in (\<lparr>io_observer = ob, io_query = q, io_fetch_direction = DIRECTION_FORWARD\<rparr>,
          PageRequestSender_pair, (c2, task_ob)))"

definition io_data :: "nat \<Rightarrow> nat \<Rightarrow> 'v client \<Rightarrow> 'v infinite_observer \<Rightarrow> 'v infinite_data option" where
  "io_data t p c io =
     (case QueryState_data (ob_state (io_observer io)) of
        Some (InfV _ _ d) \<Rightarrow> Some d
      | Some _ \<Rightarrow> None
      | None \<Rightarrow> get_infinite_data t p (iq_key (io_query io)) c)"

definition io_has_next_page :: "nat \<Rightarrow> nat \<Rightarrow> 'v client \<Rightarrow> 'v infinite_observer \<Rightarrow> bool" where
  "io_has_next_page t p c io =
     (case io_data t p c io of
        None \<Rightarrow> False
      | Some d \<Rightarrow> (case iq_get_next_page_param (io_query io) of None \<Rightarrow> False
         | Some f \<Rightarrow> (case last_page d of None \<Rightarrow> False | Some pg \<Rightarrow> f pg (pages d) \<noteq> None)))"

definition io_has_previous_page :: "nat \<Rightarrow> nat \<Rightarrow> 'v client \<Rightarrow> 'v infinite_observer \<Rightarrow> bool" where
  "io_has_previous_page t p c io =
     (case io_data t p c io of
        None \<Rightarrow> False
      | Some d \<Rightarrow> (case iq_get_previous_page_param (io_query io) of None \<Rightarrow> False
         | Some f \<Rightarrow> (case first_page d of None \<Rightarrow> False | Some pg \<Rightarrow> f pg (pages d) \<noteq> None)))"

definition fetch_next_page ::
  "'v infinite_observer \<times> page_slot \<Rightarrow> 'v infinite_observer \<times> page_slot" where
  "fetch_next_page x =
     ((fst x)\<lparr>io_fetch_direction := DIRECTION_FORWARD\<rparr>, fst (PageRequestSender_try_send PR_Next (snd x)))"

definition fetch_previous_page ::
  "'v infinite_observer \<times> page_slot \<Rightarrow> 'v infinite_observer \<times> page_slot" where
  "fetch_previous_page x =
     ((fst x)\<lparr>io_fetch_direction := DIRECTION_BACKWARD\<rparr>,
      fst (PageRequestSender_try_send PR_Previous (snd x)))"

definition io_is_fetching :: "'v client \<Rightarrow> 'v infinite_observer \<Rightarrow> bool" where
  "io_is_fetching c io = is_in_flight (iq_key (io_query io)) c"

definition is_fetching_next_page :: "'v client \<Rightarrow> 'v infinite_observer \<Rightarrow> bool" where
  "is_fetching_next_page c io = (io_is_fetching c io \<and> io_fetch_direction io = DIRECTION_FORWARD)"

definition is_fetching_previous_page :: "'v client \<Rightarrow> 'v infinite_observer \<Rightarrow> bool" where
  "is_fetching_previous_page c io = (io_is_fetching c io \<and> io_fetch_direction io = DIRECTION_BACKWARD)"

definition fetch_page_with ::
  "bool \<Rightarrow> bool \<Rightarrow> 'v client \<Rightarrow> 'v infinite_observer \<times> page_slot
   \<Rightarrow> 'v client \<times> ('v infinite_observer \<times> page_slot)" where
  "fetch_page_with cancel_refetch forward c x =
     (if io_is_fetching c (fst x) \<and> \<not> cancel_refetch then (c, x)
      else (if io_is_fetching c (fst x) then cancel_query (iq_key (io_query (fst x))) c else c,
            if forward then fetch_next_page x else fetch_previous_page x))"

definition fetch_next_page_with ::
  "bool \<Rightarrow> 'v client \<Rightarrow> 'v infinite_observer \<times> page_slot
   \<Rightarrow> 'v client \<times> ('v infinite_observer \<times> page_slot)" where
  "fetch_next_page_with cancel_refetch c x = fetch_page_with cancel_refetch True c x"

definition fetch_previous_page_with ::
  "bool \<Rightarrow> 'v client \<Rightarrow> 'v infinite_observer \<times> page_slot
   \<Rightarrow> 'v client \<times> ('v infinite_observer \<times> page_slot)" where
  "fetch_previous_page_with cancel_refetch c x = fetch_page_with cancel_refetch False c x"

subsection \<open>The pages stay consistent\<close>

text \<open>Every cached page is an answer to the parameter stored beside it, and there are no more pages
  than \<open>max_pages\<close> (the first page is always kept by the initial fetch).\<close>

definition pages_ok :: "('v \<Rightarrow> 'v \<Rightarrow> bool) \<Rightarrow> nat option \<Rightarrow> 'v infinite_data \<Rightarrow> bool" where
  "pages_ok F mx d \<longleftrightarrow> list_all2 F (page_params d) (pages d)
     \<and> (case mx of None \<Rightarrow> True | Some n \<Rightarrow> length (pages d) \<le> max n 1)"

definition cache_pages_ok ::
  "('v \<Rightarrow> 'v \<Rightarrow> bool) \<Rightarrow> nat \<Rightarrow> nat \<Rightarrow> 'v infinite_query \<Rightarrow> 'v client \<Rightarrow> bool" where
  "cache_pages_ok F t p q c \<longleftrightarrow>
     (\<forall>d. get_infinite_data t p (iq_key q) c = Some d \<longrightarrow> pages_ok F (iq_max_pages q) d)"

lemma pages_ok_wf: "pages_ok F mx d \<Longrightarrow> inf_wf d"
  by (auto simp: pages_ok_def inf_wf_def dest: list_all2_lengthD)

lemma list_all2_last_n: "list_all2 P xs ys \<Longrightarrow> list_all2 P (last_n n xs) (last_n n ys)"
  by (auto simp: last_n_def list_all2_lengthD)

lemma pages_ok_append:
  assumes "pages_ok F mx d" "F param page"
  shows "\<exists>d'. (case mx of None \<Rightarrow> Some (push_page page param d) | Some n \<Rightarrow> trim_front n (push_page page param d)) = Some d'
    \<and> pages_ok F mx d'"
proof -
  have push: "list_all2 F (page_params (push_page page param d)) (pages (push_page page param d))"
    using assms by (auto simp: pages_ok_def push_page_def intro: list_all2_appendI)
  then have wf: "inf_wf (push_page page param d)" by (auto simp: inf_wf_def dest: list_all2_lengthD)
  show ?thesis
    using push by (auto simp: pages_ok_def trim_front_last_n [OF wf] list_all2_last_n length_last_n
        split: option.split)
qed

lemma pages_ok_prepend:
  assumes "pages_ok F mx d" "F param page"
  defines "d0 \<equiv> \<lparr>pages = page # pages d, page_params = param # page_params d\<rparr>"
  shows "pages_ok F mx (case mx of None \<Rightarrow> d0 | Some n \<Rightarrow> trim_back n d0)"
proof -
  have ok: "list_all2 F (page_params d0) (pages d0)" using assms by (simp add: pages_ok_def d0_def)
  then have wf: "inf_wf d0" by (auto simp: inf_wf_def dest: list_all2_lengthD)
  show ?thesis
    using ok by (auto simp: pages_ok_def trim_back_take [OF wf] split: option.split intro: list_all2_takeI)
qed

lemma get_infinite_cases:
  assumes "client_wf c"
  shows "get_infinite_data t p key c =
     (case dm_get (cl_cache c) (cache_key key) of
        None \<Rightarrow> None
      | Some e \<Rightarrow> (case ce_data e of InfV t' p' d \<Rightarrow> if t' = t \<and> p' = p then Some d else None | _ \<Rightarrow> None))"
  using wf_type [OF assms, of "cache_key key"]
  by (auto simp: get_infinite_data_def get_query_data_def downcast_def split: option.split dynval.split)

lemma get_infinite_cache: "cl_cache c' = cl_cache c \<Longrightarrow> get_infinite_data t p k c' = get_infinite_data t p k c"
  by (simp add: get_infinite_data_def get_query_data_def)

lemma append_page_eq:
  assumes "client_wf c"
  shows "append_infinite_page now key t p page param mx c =
     (case get_infinite_data t p key c of
        None \<Rightarrow> Some (None, c)
      | Some d \<Rightarrow>
          (case (case mx of None \<Rightarrow> Some (push_page page param d) | Some n \<Rightarrow> trim_front n (push_page page param d)) of
             None \<Rightarrow> None
           | Some d' \<Rightarrow> Some (Some d', store_pages now (cache_key key) (InfV t p d') c)))"
  by (auto simp: append_infinite_page_def get_infinite_cases [OF assms] downcast_def
      split: option.split dynval.split)

lemma prepend_page_eq:
  assumes "client_wf c"
  shows "prepend_infinite_page now key t p page param mx c =
     (case get_infinite_data t p key c of
        None \<Rightarrow> (None, c)
      | Some d \<Rightarrow>
          (let d0 = \<lparr>pages = page # pages d, page_params = param # page_params d\<rparr>;
               d' = (case mx of None \<Rightarrow> d0 | Some n \<Rightarrow> trim_back n d0)
           in (Some d', store_pages now (cache_key key) (InfV t p d') c)))"
  by (auto simp: prepend_infinite_page_def get_infinite_cases [OF assms] downcast_def Let_def
      split: option.split dynval.split)

lemma store_pages_read:
  assumes "get_infinite_data t p key c = Some d"
  shows "get_infinite_data t p key (store_pages now (cache_key key) (InfV t p d') c) = Some d'"
  using assms
  by (auto simp: get_infinite_data_def get_query_data_def store_pages_def downcast_def
      split: option.splits if_splits)

text \<open>What the loop keeps of the client and relies on the other tasks to keep.\<close>

definition pages_inv :: "('v \<Rightarrow> 'v \<Rightarrow> bool) \<Rightarrow> nat \<Rightarrow> nat \<Rightarrow> 'v infinite_query \<Rightarrow> 'v client \<Rightarrow> bool" where
  "pages_inv F t p q c \<longleftrightarrow> client_wf c \<and> cache_pages_ok F t p q c"

lemma pages_inv_cache:
  "pages_inv F t p q c \<Longrightarrow> client_wf c' \<Longrightarrow> cl_cache c' = cl_cache c \<Longrightarrow> pages_inv F t p q c'"
  using get_infinite_cache [of c' c t p "iq_key q"] by (simp add: pages_inv_def cache_pages_ok_def)

lemma pages_inv_stored:
  assumes "pages_inv F t p q c" "get_infinite_data t p (iq_key q) c = Some d" "pages_ok F (iq_max_pages q) d'"
  shows "pages_inv F t p q (store_pages now (cache_key (iq_key q)) (InfV t p d') c)"
proof -
  have "ce_type_id e = value_type (InfV t p d')" if "dm_get (cl_cache c) (cache_key (iq_key q)) = Some e" for e
    using assms(2) that by (auto simp: get_infinite_data_def get_query_data_def split: if_splits)
  then have "client_wf (store_pages now (cache_key (iq_key q)) (InfV t p d') c)"
    using assms(1) by (intro wf_store_pages) (auto simp: pages_inv_def)
  then show ?thesis
    using assms(3) by (simp add: pages_inv_def cache_pages_ok_def store_pages_read [OF assms(2)])
qed

lemma store_page_ok:
  assumes "pages_inv F t p q c" "F param page"
  shows "\<exists>c'. store_page t p q now r page param c = Some c' \<and> pages_inv F t p q c'"
proof (cases "get_infinite_data t p (iq_key q) c")
  case None
  then show ?thesis
    using assms by (auto simp: store_page_def append_page_eq prepend_page_eq pages_inv_def
        split: page_request.split)
next
  case (Some d)
  have wf: "client_wf c" and ok: "pages_ok F (iq_max_pages q) d"
    using assms(1) Some by (auto simp: pages_inv_def cache_pages_ok_def)
  show ?thesis
  proof (cases r)
    case PR_Next
    then show ?thesis
      using pages_ok_append [OF ok assms(2)] pages_inv_stored [OF assms(1) Some]
      by (auto simp: store_page_def append_page_eq [OF wf] Some)
  next
    case PR_Previous
    then show ?thesis
      using pages_ok_prepend [OF ok assms(2)] pages_inv_stored [OF assms(1) Some]
      by (auto simp: store_page_def prepend_page_eq [OF wf] Some Let_def)
  qed
qed

lemma initial_pages_inv:
  assumes "pages_inv F t p q c" "F (initial_page_param q) page"
  shows "pages_inv F t p q (set_infinite_data peq now (iq_key q) t p
     (push_page page (initial_page_param q) InfiniteData_new) opts c)"
proof -
  let ?d = "push_page page (initial_page_param q) InfiniteData_new"
  let ?c = "set_infinite_data peq now (iq_key q) t p ?d opts c"
  have wf: "client_wf c" "client_wf ?c"
    using assms(1) by (simp_all add: pages_inv_def set_infinite_data_def wf_set_query_data)
  have "pages_ok F (iq_max_pages q) ?d"
    using assms(2) by (simp add: pages_ok_def push_page_def InfiniteData_new_def split: option.split)
  moreover have "get_infinite_data t p (iq_key q) ?c \<in> {Some ?d, get_infinite_data t p (iq_key q) c}"
    unfolding get_infinite_cases [OF wf(1)] get_infinite_cases [OF wf(2) [unfolded set_infinite_data_def]]
      set_infinite_data_def set_query_data_entry
    by (cases "dm_get (cl_cache c) (cache_key (iq_key q))") (auto simp: Let_def)
  ultimately show ?thesis
    using assms(1) wf(2) by (auto simp: pages_inv_def cache_pages_ok_def)
qed

definition rely_ok :: "('v \<Rightarrow> 'v \<Rightarrow> bool) \<Rightarrow> nat \<Rightarrow> nat \<Rightarrow> 'v infinite_query \<Rightarrow> 'v page_env \<Rightarrow> bool" where
  "rely_ok F t p q env \<longleftrightarrow>
     (\<forall>c. pages_inv F t p q c \<longrightarrow> pages_inv F t p q (pe_before env c) \<and> pages_inv F t p q (pe_during env c))
     \<and> (\<forall>param page. pe_fetch env param = Some (Inr page) \<longrightarrow> F param page)"

abbreviation final_state :: "'v loop_result \<Rightarrow> 'v loop_state" where
  "final_state r \<equiv> (case r of Inl st \<Rightarrow> st | Inr st \<Rightarrow> st)"

definition fetch_panics :: "'v page_env \<Rightarrow> bool" where
  "fetch_panics env \<longleftrightarrow> (\<exists>param. pe_fetch env param = None)"

lemma pages_inv_basic:
  assumes "pages_inv F t p q c"
  shows "pages_inv F t p q (set_in_flight k task c)" "pages_inv F t p q (clear_in_flight k c)"
    "pages_inv F t p q (notify_subscribers s v c)"
proof -
  have "client_wf c" using assms by (simp add: pages_inv_def)
  then have "client_wf (set_in_flight k task c)" "client_wf (clear_in_flight k c)"
    by (simp_all add: client_wf_def set_in_flight_def clear_in_flight_def)
  then show "pages_inv F t p q (set_in_flight k task c)" "pages_inv F t p q (clear_in_flight k c)"
    by (auto intro!: pages_inv_cache [OF assms] simp: set_in_flight_def clear_in_flight_def)
  show "pages_inv F t p q (notify_subscribers s v c)"
    using \<open>client_wf c\<close> by (intro pages_inv_cache [OF assms]) simp_all
qed

lemma serve_request_inv:
  assumes "rely_ok F t p q env" "pages_inv F t p q (fst st)"
  shows "pages_inv F t p q (fst (final_state (serve_request t p q env st)))
    \<and> (is_ok (serve_request t p q env st) \<or> fetch_panics env)"
proof -
  define c0 where "c0 = pe_before env (fst st)"
  define c1 where "c1 = pe_during env (set_in_flight (iq_key q) (pe_task env) c0)"
  have i0: "pages_inv F t p q c0" using assms by (simp add: rely_ok_def c0_def)
  then have i1: "pages_inv F t p q c1"
    using assms(1) pages_inv_basic(1) [OF i0] by (simp add: rely_ok_def c1_def)
  have st: "store_page t p q now r page param c1 \<noteq> None"
    "store_page t p q now r page param c1 = Some c' \<Longrightarrow> pages_inv F t p q c'"
    if "pe_fetch env param = Some (Inr page)" for now r page param c'
    using store_page_ok [OF i1, of param page now r] assms(1) that by (auto simp: rely_ok_def)
  show ?thesis
    unfolding serve_request_def Let_def c0_def [symmetric] c1_def [symmetric]
    using i0 i1
    by (auto simp: fetch_panics_def pages_inv_basic split: option.split sum.split dest: st)
qed

lemma serve_requests_inv:
  assumes "\<forall>env\<in>set envs. rely_ok F t p q env" "pages_inv F t p q (fst st)"
  shows "pages_inv F t p q (fst (final_state (serve_requests t p q envs st)))
    \<and> (is_ok (serve_requests t p q envs st) \<or> (\<exists>env\<in>set envs. fetch_panics env))"
  using assms
proof (induction envs arbitrary: st)
  case Nil
  then show ?case by simp
next
  case (Cons env envs)
  then have "pages_inv F t p q (fst (final_state (serve_request t p q env st)))
    \<and> (is_ok (serve_request t p q env st) \<or> fetch_panics env)"
    by (intro serve_request_inv) auto
  then show ?case using Cons by (cases "serve_request t p q env st") auto
qed

text \<open>
  C17. The page loop keeps the cached pages consistent, whatever requests arrive and whatever the fetch
  function answers: under the query's key every page is an answer to the parameter stored at the same
  position, pages and parameters have the same number, and that number never exceeds \<open>max_pages\<close>.
  Other tasks may change the client meanwhile as long as they keep the same property. The task ends
  early only if the fetch function itself panics.
\<close>

theorem infinite_loop_pages:
  assumes "\<forall>env\<in>set (env0 # envs). rely_ok F t p q env" and "pages_inv F t p q c"
    and "r = run_infinite_query_loop peq t p q env0 envs (c, o')"
  shows "(\<forall>d. get_infinite_data t p (iq_key q) (fst (final_state r)) = Some d \<longrightarrow>
        list_all2 F (page_params d) (pages d)
        \<and> (\<forall>n. iq_max_pages q = Some n \<longrightarrow> length (pages d) \<le> max n 1))
     \<and> (is_ok r \<or> (\<exists>env\<in>set (env0 # envs). fetch_panics env))"
proof -
  have i1: "pages_inv F t p q (pe_during env0 c)" using assms(1,2) by (simp add: rely_ok_def)
  have "pages_inv F t p q (fst (final_state (initial_fetch peq t p q env0 (c, o'))))
      \<and> (is_ok (initial_fetch peq t p q env0 (c, o')) \<or> fetch_panics env0)"
    using i1 assms(1) initial_pages_inv [OF i1] pages_inv_basic [OF i1]
    by (auto simp: initial_fetch_def Let_def fetch_panics_def rely_ok_def split: option.split sum.split)
  moreover have "pages_inv F t p q (fst st) \<Longrightarrow>
      pages_inv F t p q (fst (final_state (serve_requests t p q envs st)))
      \<and> (is_ok (serve_requests t p q envs st) \<or> (\<exists>env\<in>set envs. fetch_panics env))" for st
    using assms(1) by (intro serve_requests_inv) auto
  ultimately have "pages_inv F t p q (fst (final_state r))
      \<and> (is_ok r \<or> (\<exists>env\<in>set (env0 # envs). fetch_panics env))"
    unfolding assms(3) run_infinite_query_loop_def
    by (cases "initial_fetch peq t p q env0 (c, o')") auto
  then show ?thesis by (auto simp: pages_inv_def cache_pages_ok_def pages_ok_def)
qed

text \<open>A query over numbers whose page for parameter \<open>n\<close> is \<open>10 * n\<close>.\<close>

definition demo_infinite :: "nat infinite_query" where
  "demo_infinite = InfiniteQuery_max_pages 2 (InfiniteQuery_get_next_page_param
     (\<lambda>lp ps. if lp < 50 then Some (lp div 10 + 1) else None) (InfiniteQuery_new (QueryKey_new ''n'') 0))"

definition demo_page_env :: "page_request \<Rightarrow> nat page_env" where
  "demo_page_env r = \<lparr>pe_before = (\<lambda>c. c), pe_request = r, pe_task = \<lparr>if_abort = 0, if_cancel_token = 0\<rparr>,
     pe_during = (\<lambda>c. c), pe_fetch = (\<lambda>n. Some (Inr (10 * n))), pe_now = 1\<rparr>"

theorem infinite_loop_pages_witness:
  "is_ok (run_infinite_query_loop (=) 0 0 demo_infinite (demo_page_env PR_Next)
      [demo_page_env PR_Next, demo_page_env PR_Next, demo_page_env PR_Previous]
      (QueryClient_new, fst (QueryObserver_new (T_Infinite 0 0) 0 (QueryKey_new ''n'') QueryClient_new)))"
proof -
  let ?F = "\<lambda>n m. m = 10 * n"
  have r: "rely_ok ?F 0 0 demo_infinite (demo_page_env x)" for x
    by (simp add: rely_ok_def demo_page_env_def)
  have "pages_inv ?F 0 0 demo_infinite QueryClient_new"
    unfolding pages_inv_def cache_pages_ok_def
    by (simp add: client_wf_new, simp add: get_infinite_data_def get_query_data_def QueryClient_new_def)
  moreover have "\<not> fetch_panics (demo_page_env x)" for x by (simp add: fetch_panics_def demo_page_env_def)
  ultimately show ?thesis
    using infinite_loop_pages [of "demo_page_env PR_Next"
        "[demo_page_env PR_Next, demo_page_env PR_Next, demo_page_env PR_Previous]" ?F 0 0 demo_infinite
        QueryClient_new _ "(=)", OF _ _ refl] r by auto
qed

subsection \<open>One request\<close>

text \<open>
  C29. What one next-page request does, when pages are cached, no fetch of the key is in flight and other
  tasks leave the cached pages alone. Without a next parameter nothing happens. If the fetch succeeds
  the page is appended with its parameter and the oldest pages beyond \<open>max_pages\<close> are dropped; if it
  fails the pages stay as they were. Either way the key is no longer in flight. This holds in particular when another task cancels the fetch meanwhile: the page of a
  cancelled page fetch is stored all the same.
\<close>

theorem infinite_next_page:
  assumes "client_wf c" and "get_infinite_data t p (iq_key q) c = Some d" and "inf_wf d"
    and "\<not> is_in_flight (iq_key q) c"
    and "pe_before env = (\<lambda>c. c)" and "pe_request env = PR_Next"
    and "pe_during env = (\<lambda>c. c) \<or> pe_during env = cancel_query (iq_key q)"
  shows "(requested_param q PR_Next d = None \<longrightarrow> serve_request t p q env (c, o') = Inr (c, o'))
     \<and> (\<forall>param page. requested_param q PR_Next d = Some param \<and> pe_fetch env param = Some (Inr page) \<longrightarrow>
         (\<exists>c' o2. serve_request t p q env (c, o') = Inr (c', o2) \<and> \<not> is_in_flight (iq_key q) c'
            \<and> get_infinite_data t p (iq_key q) c' = Some (case iq_max_pages q of
                 None \<Rightarrow> push_page page param d
               | Some n \<Rightarrow> \<lparr>pages = last_n n (pages d @ [page]), page_params = last_n n (page_params d @ [param])\<rparr>)))
     \<and> (\<forall>param e. requested_param q PR_Next d = Some param \<and> pe_fetch env param = Some (Inl e) \<longrightarrow>
         (\<exists>c'. serve_request t p q env (c, o') = Inr (c', o') \<and> \<not> is_in_flight (iq_key q) c'
            \<and> get_infinite_data t p (iq_key q) c' = Some d))"
proof -
  let ?c1 = "pe_during env (set_in_flight (iq_key q) (pe_task env) c)"
  have wf0: "client_wf (set_in_flight (iq_key q) (pe_task env) c)"
    using assms(1) by (simp add: client_wf_def set_in_flight_def)
  then have wf: "client_wf ?c1"
    using assms(7) by (auto simp: cancel_query_def wf_abort_pair split: prod.split bool.split)
  have cache: "cl_cache ?c1 = cl_cache c"
    using assms(7) by (auto simp: cancel_query_def set_in_flight_def abort_in_flight_def split: prod.split bool.split option.split)
  have d1: "get_infinite_data t p (iq_key q) ?c1 = Some d"
    using assms(2) get_infinite_cache [OF cache] by simp
  have push: "inf_wf (push_page page param d)" for page param
    using assms(3) by (simp add: inf_wf_def push_page_def)
  have gone: "\<not> is_in_flight (iq_key q) (clear_in_flight (iq_key q) x)" for x :: "'a client"
    by (simp add: is_in_flight_def clear_in_flight_def dm_contains_def)
  have read: "get_infinite_data t p (iq_key q) (clear_in_flight (iq_key q) x) = get_infinite_data t p (iq_key q) x"
    for x :: "'a client" by (rule get_infinite_cache) (simp add: clear_in_flight_def)
  have told: "get_infinite_data t p (iq_key q) (notify_subscribers k v x) = get_infinite_data t p (iq_key q) x"
    for x :: "'a client" and k v by (rule get_infinite_cache) simp
  show ?thesis
    using assms(2,4,5,6) gone store_pages_read [OF d1]
    by (auto simp: serve_request_def Let_def store_page_def append_page_eq [OF wf] d1 read told
        trim_front_last_n [OF push] split: option.split)
      (auto simp: push_page_def)
qed

definition demo_pages_client :: "nat client" where
  "demo_pages_client = set_infinite_data (=) 0 (QueryKey_new ''n'') 0 0
     \<lparr>pages = [0, 10], page_params = [0, 1]\<rparr> QueryOptions_default QueryClient_new"

lemma demo_pages:
  "client_wf demo_pages_client"
  "get_infinite_data 0 0 (QueryKey_new ''n'') demo_pages_client = Some \<lparr>pages = [0, 10], page_params = [0, 1]\<rparr>"
  "\<not> is_in_flight (QueryKey_new ''n'') demo_pages_client"
  unfolding demo_pages_client_def set_infinite_data_def
  by (simp_all add: wf_set_query_data client_wf_new get_infinite_data_def get_query_data_def
      set_query_data_entry Let_def is_in_flight_def dm_contains_def)
    (simp_all add: set_query_data_def Let_def QueryClient_new_def downcast_def)

theorem infinite_next_page_witness:
  "\<exists>c' o2. serve_request 0 0 demo_infinite ((demo_page_env PR_Next)\<lparr>pe_during := cancel_query (QueryKey_new ''n'')\<rparr>)
       (demo_pages_client, fst (QueryObserver_new (T_Infinite 0 0) 0 (QueryKey_new ''n'') demo_pages_client)) = Inr (c', o2)
     \<and> get_infinite_data 0 0 (QueryKey_new ''n'') c' = Some \<lparr>pages = [10, 20], page_params = [1, 2]\<rparr>"
proof -
  have k: "iq_key demo_infinite = QueryKey_new ''n''" and m: "iq_max_pages demo_infinite = Some 2"
    by (simp_all add: demo_infinite_def InfiniteQuery_max_pages_def InfiniteQuery_get_next_page_param_def
        InfiniteQuery_new_def)
  have "requested_param demo_infinite PR_Next \<lparr>pages = [0, 10], page_params = [0, 1]\<rparr> = Some 2"
    by (simp add: requested_param_def demo_infinite_def InfiniteQuery_max_pages_def
        InfiniteQuery_get_next_page_param_def InfiniteQuery_new_def last_page_def)
  then show ?thesis
    using infinite_next_page [of demo_pages_client 0 0 demo_infinite "\<lparr>pages = [0, 10], page_params = [0, 1]\<rparr>"
        "(demo_page_env PR_Next)\<lparr>pe_during := cancel_query (QueryKey_new ''n'')\<rparr>"
        "fst (QueryObserver_new (T_Infinite 0 0) 0 (QueryKey_new ''n'') demo_pages_client)"] demo_pages
    by (auto simp: k m demo_page_env_def inf_wf_def last_n_def)
qed

subsection \<open>The handle's snapshot\<close>

text \<open>
  The handle never sees what the loop fetches. The loop updates its own clone of the observer; when
  pages were cached at the time of the spawn, the handle answers \<open>has_next_page\<close> from those pages for
  ever, whatever the client has cached since.
\<close>

theorem infinite_handle_frozen:
  assumes "get_infinite_data t p (iq_key q) c = Some d"
  shows "io_has_next_page t p c' (fst (spawn_infinite_query t p now q c)) = has_next_page q (Some d)
     \<and> io_has_previous_page t p c' (fst (spawn_infinite_query t p now q c)) = has_previous_page q (Some d)"
proof -
  let ?io = "fst (spawn_infinite_query t p now q c)"
  have "get_query_data (T_Infinite t p) (iq_key q) (QueryClient_clone c) = Some (InfV t p d)"
    using assms by (auto simp: get_infinite_data_def get_query_data_def QueryClient_clone_def
        split: option.splits dynval.splits if_splits) (metis value_type.simps(3) type_id.inject(2))
  then have "QueryState_data (ob_state (io_observer ?io)) = Some (InfV t p d)"
    by (simp add: spawn_infinite_query_def QueryObserver_with_options_def Let_def case_prod_beta
        observer_new_state cached_state_def)
  moreover have "io_query ?io = q" by (simp add: spawn_infinite_query_def Let_def case_prod_beta)
  ultimately show ?thesis
    by (simp add: io_has_next_page_def io_has_previous_page_def io_data_def has_next_page_def
        has_previous_page_def)
qed

theorem infinite_handle_frozen_witness:
  "io_has_next_page 0 0 QueryClient_new (fst (spawn_infinite_query 0 0 1 demo_infinite demo_pages_client))"
  using infinite_handle_frozen [of 0 0 demo_infinite demo_pages_client _ QueryClient_new 1] demo_pages(2)
  by (simp add: demo_infinite_def InfiniteQuery_max_pages_def InfiniteQuery_get_next_page_param_def
      InfiniteQuery_new_def has_next_page_def last_page_def)

end
