(* ===== verification/Queries_Observer.thy ===== *)
theory Queries_Observer
  imports Executor_Laws
begin

text \<open>
  \<open>src/queries_observer.rs\<close>: an observer of a list of queries. The buffer of completed states is
  shared between the observer and the tasks it has spawned and is replaced by \<open>set_specs\<close>, so buffers
  live in an explicit heap and the observer and each task hold the address of one. A task's execution
  is the executor's \<open>execute_query\<close>; its arguments are those of that model.
\<close>

subsection \<open>State\<close>

type_synonym 'v slots = "'v dynval query_state option list"

record 'v slot_heap =
  sh_buffers :: "(nat, 'v slots) dashmap"
  sh_next :: nat

definition alloc_slots :: "'v slots \<Rightarrow> 'v slot_heap \<Rightarrow> nat \<times> 'v slot_heap" where
  "alloc_slots xs h =
     (sh_next h, h\<lparr>sh_buffers := dm_insert (sh_next h) xs (sh_buffers h), sh_next := sh_next h + 1\<rparr>)"

definition read_slots :: "nat \<Rightarrow> 'v slot_heap \<Rightarrow> 'v slots" where
  "read_slots a h = (case dm_get (sh_buffers h) a of Some xs \<Rightarrow> xs | None \<Rightarrow> [])"

record 'v queries_observer =
  qo_specs :: "'v query list"
  qo_results :: "'v dynval query_state list"
  qo_completed :: nat

record 'v query_task =
  qt_idx :: nat
  qt_query :: "'v query"
  qt_completed :: nat

subsection \<open>Operations\<close>

definition initial_result ::
  "('v dynval \<Rightarrow> 'v dynval \<Rightarrow> bool) \<Rightarrow> type_id \<Rightarrow> instant \<Rightarrow> 'v query \<Rightarrow> 'v client
   \<Rightarrow> 'v dynval query_state \<times> 'v client" where
  "initial_result peq ty now q c =
     (let c1 = (case (get_query_data ty (q_key q) c, q_initial_data q) of
                  (None, Some initial) \<Rightarrow> set_query_data peq now (q_key q) initial (q_options q) c
                | _ \<Rightarrow> c)
      in ((case get_query_data ty (q_key q) c1 of
             Some d \<Rightarrow> if is_in_flight (q_key q) c1 then Refetching d
                        else if client_is_stale now (q_key q) c1 then Stale d else Success d
           | None \<Rightarrow> if is_in_flight (q_key q) c1 then Loading else Idle), c1))"

fun initial_results ::
  "('v dynval \<Rightarrow> 'v dynval \<Rightarrow> bool) \<Rightarrow> type_id \<Rightarrow> instant \<Rightarrow> 'v query list \<Rightarrow> 'v client
   \<Rightarrow> 'v dynval query_state list \<times> 'v client" where
  "initial_results peq ty now [] c = ([], c)"
| "initial_results peq ty now (q # qs) c =
     (let r = initial_result peq ty now q c; rs = initial_results peq ty now qs (snd r)
      in (fst r # fst rs, snd rs))"

definition QueriesObserver_new ::
  "('v dynval \<Rightarrow> 'v dynval \<Rightarrow> bool) \<Rightarrow> type_id \<Rightarrow> instant \<Rightarrow> 'v query list \<Rightarrow> 'v client \<Rightarrow> 'v slot_heap
   \<Rightarrow> 'v queries_observer \<times> 'v client \<times> 'v slot_heap" where
  "QueriesObserver_new peq ty now specs c h =
     (let (results, c') = initial_results peq ty now specs c;
          (a, h') = alloc_slots (replicate (length specs) None) h
      in (\<lparr>qo_specs = specs, qo_results = results, qo_completed = a\<rparr>, c', h'))"

definition optimistic :: "'v dynval query_state \<Rightarrow> 'v dynval query_state" where
  "optimistic r = (case QueryState_data_cloned r of Some d \<Rightarrow> Refetching d | None \<Rightarrow> Loading)"

definition mark_optimistic :: "nat \<Rightarrow> 'v queries_observer \<Rightarrow> 'v queries_observer" where
  "mark_optimistic idx ob =
     (if idx < length (qo_results ob)
      then ob\<lparr>qo_results := (qo_results ob)[idx := optimistic (qo_results ob ! idx)]\<rparr> else ob)"

fun run_indices :: "nat list \<Rightarrow> 'v queries_observer \<Rightarrow> 'v queries_observer \<times> 'v query_task list" where
  "run_indices [] ob = (ob, [])"
| "run_indices (idx # is) ob =
     (if idx \<ge> length (qo_specs ob) then run_indices is ob
      else if \<not> QueryOptions_is_enabled (q_options (qo_specs ob ! idx)) then run_indices is ob
      else let r = run_indices is (mark_optimistic idx ob)
           in (fst r, \<lparr>qt_idx = idx, qt_query = qo_specs ob ! idx, qt_completed = qo_completed ob\<rparr> # snd r))"

definition run_all :: "'v queries_observer \<Rightarrow> 'v queries_observer \<times> 'v query_task list" where
  "run_all ob = run_indices [0..<length (qo_specs ob)] ob"

definition qo_refresh :: "nat \<Rightarrow> 'v queries_observer \<Rightarrow> 'v queries_observer \<times> 'v query_task option" where
  "qo_refresh idx ob =
     (if idx \<ge> length (qo_specs ob) then (ob, None)
      else let (ob', ts) = run_indices [idx] ob
           in (ob', case ts of [] \<Rightarrow> None | t # _ \<Rightarrow> Some t))"

text \<open>
  The reconciliation loop: the new specs from index \<open>idx\<close> on, with the old results still to be taken
  (\<open>None\<close>: taken already).
\<close>

fun reconcile ::
  "('v dynval \<Rightarrow> 'v dynval \<Rightarrow> bool) \<Rightarrow> type_id \<Rightarrow> instant \<Rightarrow> 'v query list \<Rightarrow> 'v slots \<Rightarrow> nat \<Rightarrow> 'v query list
   \<Rightarrow> 'v dynval query_state option list \<Rightarrow> 'v client
   \<Rightarrow> 'v dynval query_state list \<times> 'v slots \<times> nat list \<times> 'v client" where
  "reconcile peq ty now previous old_slots idx [] old_results c = ([], [], [], c)"
| "reconcile peq ty now previous old_slots idx (spec # specs) old_results c =
     (case Option.bind (position (\<lambda>q. cache_key (q_key q) = cache_key (q_key spec)) previous)
             (\<lambda>old_idx. if old_idx < length old_results then Some old_idx else None) of
        Some old_idx \<Rightarrow>
          let (rs, cs, ns, c') = reconcile peq ty now previous old_slots (idx + 1) specs
                                   (old_results[old_idx := None]) c
          in ((case old_results ! old_idx of Some r \<Rightarrow> r | None \<Rightarrow> Idle) # rs,
              (if old_idx < length old_slots then old_slots ! old_idx else None) # cs, ns, c')
      | None \<Rightarrow>
          let (r, c1) = initial_result peq ty now spec c;
              (rs, cs, ns, c') = reconcile peq ty now previous old_slots (idx + 1) specs old_results c1
          in (r # rs, None # cs, idx # ns, c'))"

definition set_specs ::
  "('v dynval \<Rightarrow> 'v dynval \<Rightarrow> bool) \<Rightarrow> type_id \<Rightarrow> instant \<Rightarrow> 'v query list
   \<Rightarrow> 'v queries_observer \<times> 'v client \<times> 'v slot_heap
   \<Rightarrow> ('v queries_observer \<times> 'v client \<times> 'v slot_heap) \<times> 'v query_task list" where
  "set_specs peq ty now specs st =
     (case st of (ob, c, h) \<Rightarrow>
        let (results, completed, new_indices, c') =
              reconcile peq ty now (qo_specs ob) (read_slots (qo_completed ob) h) 0 specs
                (map Some (qo_results ob)) c;
            (a, h') = alloc_slots completed h;
            (ob', ts) = run_indices new_indices
              \<lparr>qo_specs = specs, qo_results = results, qo_completed = a\<rparr>
        in ((ob', c', h'), ts))"

text \<open>What a task does when its execution returns: it fills its slot of the buffer it was spawned with.\<close>

definition deposit :: "'v query_task \<Rightarrow> 'v dynval query_state \<Rightarrow> 'v slot_heap \<Rightarrow> 'v slot_heap" where
  "deposit t s h =
     h\<lparr>sh_buffers := dm_modify (qt_completed t)
         (\<lambda>xs. if qt_idx t < length xs then xs[qt_idx t := Some s] else xs) (sh_buffers h)\<rparr>"

text \<open>
  The whole task; \<open>None\<close> while it waits, and a panic of the fetch unwinds through the task, which then
  deposits nothing.
\<close>

definition query_task_run ::
  "('v dynval \<Rightarrow> 'v dynval \<Rightarrow> bool) \<Rightarrow> type_id \<Rightarrow> instant \<Rightarrow> ('v client \<Rightarrow> 'v client) list \<Rightarrow> 'v attempt_env list
   \<Rightarrow> 'v query_task \<Rightarrow> 'v client \<times> 'v slot_heap \<Rightarrow> ('v dynval query_state option \<times> 'v client \<times> 'v slot_heap) option" where
  "query_task_run peq ty now fs envs t ch =
     (case execute_query peq ty now fs envs (qt_query t) (fst ch) of
        None \<Rightarrow> None
      | Some (Returned s, c', ds) \<Rightarrow> Some (Some s, c', deposit t s (snd ch))
      | Some (Panicked p, c', ds) \<Rightarrow> Some (None, c', snd ch))"

definition qo_sync :: "'v slot_heap \<Rightarrow> 'v queries_observer \<Rightarrow> 'v queries_observer" where
  "qo_sync h ob =
     (let slots = read_slots (qo_completed ob) h
      in ob\<lparr>qo_results := map (\<lambda>(idx, r). if idx < length slots then case slots ! idx of Some s \<Rightarrow> s | None \<Rightarrow> r else r)
              (enumerate 0 (qo_results ob))\<rparr>)"

definition qo_combine :: "('v dynval query_state list \<Rightarrow> 'r) \<Rightarrow> 'v queries_observer \<Rightarrow> 'r" where
  "qo_combine f ob = f (qo_results ob)"

definition qo_len :: "'v queries_observer \<Rightarrow> nat" where
  "qo_len ob = length (qo_specs ob)"

definition qo_is_empty :: "'v queries_observer \<Rightarrow> bool" where
  "qo_is_empty ob = (qo_specs ob = [])"

subsection \<open>Shape of the state\<close>

definition qo_wf :: "'v queries_observer \<Rightarrow> 'v slot_heap \<Rightarrow> bool" where
  "qo_wf ob h \<longleftrightarrow> length (qo_results ob) = length (qo_specs ob)
     \<and> map_option length (dm_get (sh_buffers h) (qo_completed ob)) = Some (length (qo_specs ob))
     \<and> (\<forall>a. dm_get (sh_buffers h) a \<noteq> None \<longrightarrow> a < sh_next h)"

lemma initial_results_length [simp]: "length (fst (initial_results peq ty now qs c)) = length qs"
  by (induction qs arbitrary: c) (simp_all add: Let_def)

lemma mark_optimistic_frame [simp]:
  "qo_specs (mark_optimistic i ob) = qo_specs ob" "qo_completed (mark_optimistic i ob) = qo_completed ob"
  "length (qo_results (mark_optimistic i ob)) = length (qo_results ob)"
  by (simp_all add: mark_optimistic_def)

lemma run_indices_frame [simp]:
  "qo_specs (fst (run_indices is ob)) = qo_specs ob" "qo_completed (fst (run_indices is ob)) = qo_completed ob"
  "length (qo_results (fst (run_indices is ob))) = length (qo_results ob)"
  by (induction "is" arbitrary: ob) (simp_all add: Let_def)

lemma run_indices_tasks:
  "t \<in> set (snd (run_indices is ob)) \<Longrightarrow>
     qt_idx t \<in> set is \<and> qt_idx t < length (qo_specs ob) \<and> qt_query t = qo_specs ob ! qt_idx t
   \<and> QueryOptions_is_enabled (q_options (qt_query t)) \<and> qt_completed t = qo_completed ob"
proof (induction "is" arbitrary: ob)
  case (Cons i "is")
  show ?case
  proof (cases "i < length (qo_specs ob) \<and> QueryOptions_is_enabled (q_options (qo_specs ob ! i))")
    case True
    then consider "t = \<lparr>qt_idx = i, qt_query = qo_specs ob ! i, qt_completed = qo_completed ob\<rparr>"
      | "t \<in> set (snd (run_indices is (mark_optimistic i ob)))"
      using Cons.prems by (auto simp: Let_def)
    then show ?thesis
    proof cases
      case 1
      then show ?thesis using True by simp
    next
      case 2
      from Cons.IH [OF this] show ?thesis by auto
    qed
  next
    case False
    then have "t \<in> set (snd (run_indices is ob))" using Cons.prems by (auto split: if_splits)
    from Cons.IH [OF this] show ?thesis by auto
  qed
qed simp

lemma run_indices_covers:
  "idx \<in> set is \<Longrightarrow> idx < length (qo_specs ob) \<Longrightarrow> QueryOptions_is_enabled (q_options (qo_specs ob ! idx)) \<Longrightarrow>
   \<exists>t \<in> set (snd (run_indices is ob)). qt_idx t = idx"
  by (induction "is" arbitrary: ob) (auto simp: Let_def)

lemma read_deposit:
  "read_slots a (deposit t s h) =
     (if a = qt_completed t \<and> qt_idx t < length (read_slots a h) then (read_slots a h)[qt_idx t := Some s]
      else read_slots a h)"
  by (auto simp: read_slots_def deposit_def split: option.splits)

lemma read_deposit_nth:
  "i < length (read_slots a h) \<Longrightarrow>
   read_slots a (deposit t s h) ! i = (if a = qt_completed t \<and> i = qt_idx t then Some s else read_slots a h ! i)"
  by (auto simp: read_deposit nth_list_update)

lemma length_read_deposit [simp]: "length (read_slots a (deposit t s h)) = length (read_slots a h)"
  by (simp add: read_deposit)

lemma deposit_wf: "qo_wf ob h \<Longrightarrow> qo_wf ob (deposit t s h)"
  unfolding qo_wf_def deposit_def
  by (cases "qo_completed ob = qt_completed t")
    (auto simp: option.map_comp comp_def if_distrib cong: if_cong split: if_splits)

lemma run_indices_wf: "qo_wf ob h \<Longrightarrow> qo_wf (fst (run_indices is ob)) h"
  by (simp add: qo_wf_def)

lemma qo_sync_wf: "qo_wf ob h \<Longrightarrow> qo_wf (qo_sync h ob) h"
  by (simp add: qo_wf_def qo_sync_def Let_def)

lemma sync_nth:
  "i < length (qo_results ob) \<Longrightarrow> qo_results (qo_sync h ob) ! i =
     (if i < length (read_slots (qo_completed ob) h)
      then case read_slots (qo_completed ob) h ! i of Some s \<Rightarrow> s | None \<Rightarrow> qo_results ob ! i
      else qo_results ob ! i)"
  by (simp add: qo_sync_def Let_def nth_enumerate_eq)

lemma alloc_read:
  "alloc_slots xs h = (a, h') \<Longrightarrow> read_slots a h' = xs \<and> a = sh_next h"
  by (auto simp: alloc_slots_def read_slots_def)

subsection \<open>Reconciliation\<close>

abbreviation spec_key :: "'v query \<Rightarrow> string" where
  "spec_key q \<equiv> cache_key (q_key q)"

definition reconciled ::
  "'v query list \<Rightarrow> 'v slots \<Rightarrow> 'v dynval query_state option list \<Rightarrow> 'v query \<Rightarrow> 'v dynval query_state
   \<Rightarrow> 'v dynval query_state option \<Rightarrow> bool \<Rightarrow> bool" where
  "reconciled previous old_slots old_results spec r sl is_new =
     (case position (\<lambda>q. spec_key q = spec_key spec) previous of
        Some j \<Rightarrow> Some r = old_results ! j \<and> sl = (if j < length old_slots then old_slots ! j else None) \<and> \<not> is_new
      | None \<Rightarrow> sl = None \<and> is_new)"

lemma reconcile_spec:
  assumes "reconcile peq ty now previous old_slots idx specs old_results c = (rs, cs, ns, c')"
    "distinct (map spec_key specs)" "length old_results = length previous"
    "\<And>q j. q \<in> set specs \<Longrightarrow> position (\<lambda>q'. spec_key q' = spec_key q) previous = Some j \<Longrightarrow> old_results ! j \<noteq> None"
  shows "length rs = length specs \<and> length cs = length specs \<and> set ns \<subseteq> {idx..<idx + length specs}
   \<and> (\<forall>i < length specs. reconciled previous old_slots old_results (specs ! i) (rs ! i) (cs ! i) (idx + i \<in> set ns))"
  using assms
proof (induction specs arbitrary: idx old_results c rs cs ns c')
  case (Cons spec specs)
  have less: "(\<forall>i < length (spec # specs). P i) \<longleftrightarrow> P 0 \<and> (\<forall>i < length specs. P (Suc i))" for P
    by (simp add: All_less_Suc2)
  show ?case
  proof (cases "position (\<lambda>q'. spec_key q' = spec_key spec) previous")
    case None
    obtain r c1 where r: "initial_result peq ty now spec c = (r, c1)" by fastforce
    obtain rs' cs' ns' where rec: "reconcile peq ty now previous old_slots (idx + 1) specs old_results c1
        = (rs', cs', ns', c')" and eq: "rs = r # rs'" "cs = None # cs'" "ns = idx # ns'"
      using Cons.prems(1) None r by (auto simp: Let_def split: prod.splits)
    have ih: "length rs' = length specs" "length cs' = length specs" "set ns' \<subseteq> {idx + 1..<idx + 1 + length specs}"
      "\<forall>i < length specs. reconciled previous old_slots old_results (specs ! i) (rs' ! i) (cs' ! i) (idx + 1 + i \<in> set ns')"
      using Cons.IH [OF rec] Cons.prems(2-4) by auto
    have "reconciled previous old_slots old_results spec r None True" using None by (simp add: reconciled_def)
    then show ?thesis using ih unfolding less by (auto simp: eq)
  next
    case (Some j)
    note j = position_Some [OF Some]
    have other: "position (\<lambda>q'. spec_key q' = spec_key q) previous = Some j' \<Longrightarrow> q \<in> set specs \<Longrightarrow> j' \<noteq> j" for q j'
      using position_Some [of "\<lambda>q'. spec_key q' = spec_key q" previous j'] j Cons.prems(2) by auto
    obtain rs' cs' ns' where rec: "reconcile peq ty now previous old_slots (idx + 1) specs (old_results[j := None]) c
        = (rs', cs', ns', c')"
      and eq: "rs = (case old_results ! j of Some r \<Rightarrow> r | None \<Rightarrow> Idle) # rs'"
        "cs = (if j < length old_slots then old_slots ! j else None) # cs'" "ns = ns'"
      using Cons.prems(1,3) Some j by (auto simp: Let_def split: prod.splits)
    have ih: "length rs' = length specs" "length cs' = length specs" "set ns' \<subseteq> {idx + 1..<idx + 1 + length specs}"
      "\<forall>i < length specs. reconciled previous old_slots (old_results[j := None]) (specs ! i) (rs' ! i) (cs' ! i) (idx + 1 + i \<in> set ns')"
      using Cons.IH [OF rec] Cons.prems(2-4) other by fastforce+
    have tl: "reconciled previous old_slots old_results (specs ! i) (rs' ! i) (cs' ! i) (idx + 1 + i \<in> set ns')"
      if "i < length specs" for i
      using ih(4) that other [of "specs ! i"] by (auto simp: reconciled_def split: option.splits)
    have "idx \<notin> set ns'" using ih(3) by auto
    then have "reconciled previous old_slots old_results spec
        (case old_results ! j of Some r \<Rightarrow> r | None \<Rightarrow> Idle) (if j < length old_slots then old_slots ! j else None) (idx \<in> set ns')"
      using Cons.prems(4) [of spec j] Some by (auto simp: reconciled_def)
    then show ?thesis using ih(1-3) tl unfolding less by (auto simp: eq)
  qed
qed simp

subsection \<open>The observer's events\<close>

datatype 'v qo_event =
    QO_Set_Specs instant "'v query list"
  | QO_Run_All
  | QO_Refresh nat
  | QO_Deposit "'v query_task" "'v dynval query_state"
  | QO_Sync

fun qo_step ::
  "('v dynval \<Rightarrow> 'v dynval \<Rightarrow> bool) \<Rightarrow> type_id \<Rightarrow> 'v qo_event
   \<Rightarrow> 'v queries_observer \<times> 'v client \<times> 'v slot_heap \<Rightarrow> 'v queries_observer \<times> 'v client \<times> 'v slot_heap" where
  "qo_step peq ty (QO_Set_Specs now specs) st = fst (set_specs peq ty now specs st)"
| "qo_step peq ty QO_Run_All (ob, c, h) = (fst (run_all ob), c, h)"
| "qo_step peq ty (QO_Refresh i) (ob, c, h) = (fst (qo_refresh i ob), c, h)"
| "qo_step peq ty (QO_Deposit t s) (ob, c, h) = (ob, c, deposit t s h)"
| "qo_step peq ty QO_Sync (ob, c, h) = (qo_sync h ob, c, h)"

lemma reconcile_lengths:
  "reconcile peq ty now previous old_slots idx specs old_results c = (rs, cs, ns, c') \<Longrightarrow>
   length rs = length specs \<and> length cs = length specs"
proof (induction specs arbitrary: idx old_results c rs cs ns c')
  case (Cons spec specs)
  then show ?case by (auto simp: Let_def split: option.splits prod.splits)
qed simp

lemma set_specs_wf:
  assumes "\<forall>a. dm_get (sh_buffers h) a \<noteq> None \<longrightarrow> a < sh_next h" "set_specs peq ty now specs (ob, c, h) = ((ob', c', h'), ts)"
  shows "qo_wf ob' h' \<and> qo_specs ob' = specs"
proof -
  obtain rs cs ns c1 where rec: "reconcile peq ty now (qo_specs ob) (read_slots (qo_completed ob) h) 0 specs
      (map Some (qo_results ob)) c = (rs, cs, ns, c1)" by (metis prod_cases4)
  note len = reconcile_lengths [OF rec]
  have ob': "ob' = fst (run_indices ns \<lparr>qo_specs = specs, qo_results = rs, qo_completed = sh_next h\<rparr>)"
    "h' = h\<lparr>sh_buffers := dm_insert (sh_next h) cs (sh_buffers h), sh_next := sh_next h + 1\<rparr>"
    using assms(2) by (auto simp: set_specs_def rec alloc_slots_def split: prod.splits dest: arg_cong [where f = fst])
  have "qo_wf \<lparr>qo_specs = specs, qo_results = rs, qo_completed = sh_next h\<rparr> h'"
    using len assms(1) by (auto simp: qo_wf_def ob'(2) less_Suc_eq)
  from run_indices_wf [OF this, of ns] show ?thesis by (simp add: ob'(1))
qed

lemma qo_step_wf:
  assumes "qo_wf ob h" "qo_step peq ty ev (ob, c, h) = (ob', c', h')"
  shows "qo_wf ob' h'"
proof (cases ev)
  case (QO_Set_Specs now specs)
  then have "fst (set_specs peq ty now specs (ob, c, h)) = (ob', c', h')" using assms(2) by simp
  then obtain ts where "set_specs peq ty now specs (ob, c, h) = ((ob', c', h'), ts)" by (metis prod.collapse)
  moreover have "\<forall>a. dm_get (sh_buffers h) a \<noteq> None \<longrightarrow> a < sh_next h" using assms(1) by (simp add: qo_wf_def)
  ultimately show ?thesis using set_specs_wf by blast
next
  case QO_Run_All
  then show ?thesis using assms run_indices_wf by (auto simp: run_all_def)
next
  case (QO_Refresh i)
  then show ?thesis using assms run_indices_wf [OF assms(1), of "[i]"]
    by (auto simp: qo_refresh_def split: prod.splits if_splits)
next
  case (QO_Deposit t s)
  then show ?thesis using assms deposit_wf by auto
next
  case QO_Sync
  then show ?thesis using assms qo_sync_wf by auto
qed

lemma qo_run_wf:
  "qo_wf ob h \<Longrightarrow> fold (qo_step peq ty) evs (ob, c, h) = (ob', c', h') \<Longrightarrow> qo_wf ob' h'"
proof (induction evs arbitrary: ob c h)
  case (Cons ev evs)
  obtain ob1 c1 h1 where "qo_step peq ty ev (ob, c, h) = (ob1, c1, h1)" by (metis prod_cases3)
  then show ?case using Cons.IH [of ob1 h1 c1] qo_step_wf [OF Cons.prems(1)] Cons.prems(2) by auto
qed simp

lemma qo_new_wf:
  assumes "\<forall>a. dm_get (sh_buffers h) a \<noteq> None \<longrightarrow> a < sh_next h"
    "QueriesObserver_new peq ty now specs c h = (ob, c', h')"
  shows "qo_wf ob h'"
proof -
  obtain rs c1 where rs: "initial_results peq ty now specs c = (rs, c1)" by fastforce
  then have "length rs = length specs" by (metis fst_conv initial_results_length)
  then show ?thesis using assms rs by (auto simp: QueriesObserver_new_def alloc_slots_def qo_wf_def less_Suc_eq)
qed

definition empty_heap :: "'v slot_heap" where
  "empty_heap = \<lparr>sh_buffers = [], sh_next = 0\<rparr>"

text \<open>
  C34. The observer keeps its shape: from its creation and after any sequence of \<open>set_specs\<close>,
  \<open>run_all\<close>, \<open>refresh\<close>, completions of tasks (current or left over from earlier specs, with any index)
  and \<open>sync\<close>, there is one result and one completion slot per spec, so no operation indexes out of
  range.
\<close>

theorem queries_observer_shape:
  assumes "QueriesObserver_new peq ty now specs c empty_heap = (ob0, c0, h0)"
    and "fold (qo_step peq ty) evs (ob0, c0, h0) = (ob, c', h)"
  shows "length (qo_results ob) = qo_len ob \<and> length (read_slots (qo_completed ob) h) = qo_len ob"
proof -
  have "qo_wf ob0 h0" using qo_new_wf [OF _ assms(1)] by (simp add: empty_heap_def)
  from qo_run_wf [OF this assms(2)] show ?thesis by (auto simp: qo_wf_def qo_len_def read_slots_def split: option.splits)
qed

subsection \<open>Completing and synchronising\<close>

definition deposits :: "(nat \<Rightarrow> 'v dynval query_state) \<Rightarrow> 'v query_task list \<Rightarrow> 'v slot_heap \<Rightarrow> 'v slot_heap" where
  "deposits f ts h = fold (\<lambda>t. deposit t (f (qt_idx t))) ts h"

lemma deposits_Nil [simp]: "deposits f [] h = h"
  by (simp add: deposits_def)

lemma deposits_Cons [simp]: "deposits f (t # ts) h = deposits f ts (deposit t (f (qt_idx t)) h)"
  by (simp add: deposits_def)

lemma deposits_length [simp]: "length (read_slots a (deposits f ts h)) = length (read_slots a h)"
  by (induction ts arbitrary: h) simp_all

lemma deposits_nth:
  "i < length (read_slots a h) \<Longrightarrow>
   read_slots a (deposits f ts h) ! i =
     (if \<exists>t \<in> set ts. qt_completed t = a \<and> qt_idx t = i then Some (f i) else read_slots a h ! i)"
proof (induction ts arbitrary: h)
  case (Cons t ts)
  show ?case
    using Cons.IH [of "deposit t (f (qt_idx t)) h"] Cons.prems by (auto simp: read_deposit_nth)
qed simp

lemma deposits_other: "\<forall>t \<in> set ts. qt_completed t \<noteq> a \<Longrightarrow> read_slots a (deposits f ts h) = read_slots a h"
  by (induction ts arbitrary: h) (simp_all add: read_deposit)

lemma wf_slots: "qo_wf ob h \<Longrightarrow> length (read_slots (qo_completed ob) h) = length (qo_specs ob)"
  by (auto simp: qo_wf_def read_slots_def split: option.splits)

text \<open>
  C33. After \<open>run_all\<close>, once the spawned tasks have completed, in any order, \<open>sync\<close> gives every
  enabled spec exactly the state its execution ended with. A disabled spec is not executed and keeps
  its last completed state, or its result if it has none.
\<close>

theorem run_all_sync:
  assumes "qo_wf ob h" and "run_all ob = (ob1, ts)" and "set ts' = set ts"
    and "i < qo_len ob"
  shows "qo_results (qo_sync (deposits f ts' h) ob1) ! i =
     (if QueryOptions_is_enabled (q_options (qo_specs ob ! i)) then f i
      else case read_slots (qo_completed ob) h ! i of Some s \<Rightarrow> s | None \<Rightarrow> qo_results ob1 ! i)"
proof -
  have ob1: "ob1 = fst (run_indices [0..<length (qo_specs ob)] ob)" and ts: "ts = snd (run_indices [0..<length (qo_specs ob)] ob)"
    using assms(2) by (simp_all add: run_all_def)
  have i: "i < length (qo_specs ob)" "i < length (read_slots (qo_completed ob) h)" "i < length (qo_results ob1)"
    using assms(1,4) by (simp_all add: qo_len_def wf_slots ob1) (simp add: qo_wf_def)
  have "(\<exists>t \<in> set ts'. qt_completed t = qo_completed ob \<and> qt_idx t = i)
     \<longleftrightarrow> QueryOptions_is_enabled (q_options (qo_specs ob ! i))"
    unfolding assms(3) ts
    using run_indices_tasks [of _ "[0..<length (qo_specs ob)]" ob] run_indices_covers [of i "[0..<length (qo_specs ob)]" ob] i(1)
    by fastforce
  moreover have "qo_completed ob1 = qo_completed ob" by (simp add: ob1)
  ultimately show ?thesis using i by (simp add: sync_nth deposits_nth)
qed

subsection \<open>Replacing the specs\<close>

lemma set_specs_reconciled:
  assumes "qo_wf ob h" "distinct (map spec_key specs)"
    "set_specs peq ty now specs (ob, c, h) = ((ob', c', h'), ts)"
  shows "\<exists>rs cs ns. qo_specs ob' = specs \<and> ob' = fst (run_indices ns \<lparr>qo_specs = specs, qo_results = rs, qo_completed = sh_next h\<rparr>)
     \<and> ts = snd (run_indices ns \<lparr>qo_specs = specs, qo_results = rs, qo_completed = sh_next h\<rparr>)
     \<and> qo_completed ob' = sh_next h \<and> read_slots (qo_completed ob') h' = cs
     \<and> length rs = length specs \<and> length cs = length specs
     \<and> (\<forall>i < length specs. reconciled (qo_specs ob) (read_slots (qo_completed ob) h) (map Some (qo_results ob))
          (specs ! i) (rs ! i) (cs ! i) (i \<in> set ns))"
proof -
  obtain rs cs ns c1 where rec: "reconcile peq ty now (qo_specs ob) (read_slots (qo_completed ob) h) 0 specs
      (map Some (qo_results ob)) c = (rs, cs, ns, c1)" by (metis prod_cases4)
  have "length (map Some (qo_results ob)) = length (qo_specs ob)" using assms(1) by (simp add: qo_wf_def)
  then have spec: "length rs = length specs \<and> length cs = length specs \<and> set ns \<subseteq> {0..<0 + length specs}
   \<and> (\<forall>i < length specs. reconciled (qo_specs ob) (read_slots (qo_completed ob) h) (map Some (qo_results ob))
        (specs ! i) (rs ! i) (cs ! i) (0 + i \<in> set ns))"
    using reconcile_spec [OF rec assms(2)] position_Some by (metis length_map nth_map option.discI)
  obtain a h1 where al: "alloc_slots cs h = (a, h1)" by fastforce
  have eq: "h' = h1" "ob' = fst (run_indices ns \<lparr>qo_specs = specs, qo_results = rs, qo_completed = a\<rparr>)"
    "ts = snd (run_indices ns \<lparr>qo_specs = specs, qo_results = rs, qo_completed = a\<rparr>)"
    using assms(3) by (auto simp: set_specs_def rec al split: prod.splits)
  then show ?thesis using spec alloc_read [OF al] by auto
qed

lemma run_indices_untouched:
  "i \<notin> set is \<Longrightarrow> qo_results (fst (run_indices is ob)) ! i = qo_results ob ! i"
  by (induction "is" arbitrary: ob) (auto simp: Let_def mark_optimistic_def)

text \<open>
  C32. \<open>set_specs\<close> reconciles by cache key. With distinct keys in the new list, a spec whose key was
  observed before keeps its result and its completed state and is not executed again, wherever it
  moves in the list; a spec with a new key is executed exactly when it is enabled. Every task that is
  started belongs to a new key.
\<close>

theorem set_specs_reconciles:
  assumes "qo_wf ob h" and "distinct (map spec_key specs)"
    and "set_specs peq ty now specs (ob, c, h) = ((ob', c', h'), ts)"
    and "i < length specs"
  shows "qo_specs ob' = specs
   \<and> (case position (\<lambda>q. spec_key q = spec_key (specs ! i)) (qo_specs ob) of
        Some j \<Rightarrow> qo_results ob' ! i = qo_results ob ! j
                \<and> read_slots (qo_completed ob') h' ! i = read_slots (qo_completed ob) h ! j
                \<and> (\<forall>t \<in> set ts. qt_idx t \<noteq> i)
      | None \<Rightarrow> read_slots (qo_completed ob') h' ! i = None
                \<and> ((\<exists>t \<in> set ts. qt_idx t = i) \<longleftrightarrow> QueryOptions_is_enabled (q_options (specs ! i))))"
proof -
  obtain rs cs ns where eq: "qo_specs ob' = specs"
      "ob' = fst (run_indices ns \<lparr>qo_specs = specs, qo_results = rs, qo_completed = sh_next h\<rparr>)"
      "ts = snd (run_indices ns \<lparr>qo_specs = specs, qo_results = rs, qo_completed = sh_next h\<rparr>)"
      "read_slots (qo_completed ob') h' = cs" "length rs = length specs"
    and rec: "reconciled (qo_specs ob) (read_slots (qo_completed ob) h) (map Some (qo_results ob))
          (specs ! i) (rs ! i) (cs ! i) (i \<in> set ns)"
    using set_specs_reconciled [OF assms(1-3)] assms(4) by blast
  have tasks: "qt_idx t \<in> set ns" "QueryOptions_is_enabled (q_options (specs ! qt_idx t))" if "t \<in> set ts" for t
    using run_indices_tasks [OF that [unfolded eq(3)]] by auto
  show ?thesis
  proof (cases "position (\<lambda>q. spec_key q = spec_key (specs ! i)) (qo_specs ob)")
    case None
    then have "cs ! i = None" "i \<in> set ns" using rec by (simp_all add: reconciled_def)
    then show ?thesis
      using None eq(1,4) tasks run_indices_covers [of i ns "\<lparr>qo_specs = specs, qo_results = rs, qo_completed = sh_next h\<rparr>"]
        assms(4) by (auto simp: eq(3))
  next
    case (Some j)
    note j = position_Some [OF Some]
    have len: "length (qo_results ob) = length (qo_specs ob)" using assms(1) by (simp add: qo_wf_def)
    have "rs ! i = qo_results ob ! j" "cs ! i = read_slots (qo_completed ob) h ! j" "i \<notin> set ns"
      using rec Some j len by (simp_all add: reconciled_def wf_slots [OF assms(1)])
    then show ?thesis
      using Some eq(1,4) tasks run_indices_untouched [of i ns "\<lparr>qo_specs = specs, qo_results = rs, qo_completed = sh_next h\<rparr>"]
      by (auto simp: eq(2))
  qed
qed

subsection \<open>Completions lost by replacing the specs\<close>

definition is_optimistic :: "'a query_state \<Rightarrow> bool" where
  "is_optimistic s = (QueryState_is_loading s \<or> QueryState_is_refetching s)"

lemma mark_optimistic_keeps:
  "is_optimistic (qo_results ob ! i) \<Longrightarrow> is_optimistic (qo_results (mark_optimistic j ob) ! i)"
  by (auto simp: mark_optimistic_def optimistic_def is_optimistic_def nth_list_update split: option.splits)

lemma run_indices_keeps:
  "is_optimistic (qo_results ob ! i) \<Longrightarrow> is_optimistic (qo_results (fst (run_indices is ob)) ! i)"
  by (induction "is" arbitrary: ob) (simp_all add: Let_def mark_optimistic_keeps)

lemma run_indices_marks:
  "i \<in> set is \<Longrightarrow> i < length (qo_specs ob) \<Longrightarrow> i < length (qo_results ob)
   \<Longrightarrow> QueryOptions_is_enabled (q_options (qo_specs ob ! i)) \<Longrightarrow> is_optimistic (qo_results (fst (run_indices is ob)) ! i)"
proof (induction "is" arbitrary: ob)
  case (Cons j "is")
  have "is_optimistic (qo_results (mark_optimistic i ob) ! i)"
    using Cons.prems by (simp add: mark_optimistic_def optimistic_def is_optimistic_def split: option.splits)
  then show ?case using Cons by (auto simp: Let_def run_indices_keeps)
qed simp

lemma position_same:
  "distinct (map spec_key xs) \<Longrightarrow> i < length xs \<Longrightarrow> position (\<lambda>q. spec_key q = spec_key (xs ! i)) xs = Some i"
proof (induction xs arbitrary: i)
  case (Cons x xs)
  then show ?case by (cases i) (auto simp: image_iff dest: nth_mem)
qed simp

text \<open>
  Completions are lost when the specs are replaced while executions are in flight, even by the same
  specs: the new completion buffer is a fresh one and the running tasks still write to the old one.
  The kept specs are not executed again, so after every task has completed a spec without an earlier
  completion still shows the optimistic mark of the call (loading or refetching), and no later
  \<open>sync\<close> changes that.
\<close>

theorem set_specs_orphans:
  assumes "qo_wf ob h" and "distinct (map spec_key (qo_specs ob))"
    and "run_all ob = (ob1, ts)"
    and "set_specs peq ty now (qo_specs ob) (ob1, c, h) = ((ob2, c2, h2), ts2)"
    and "i < qo_len ob" and "QueryOptions_is_enabled (q_options (qo_specs ob ! i))"
    and "read_slots (qo_completed ob) h ! i = None"
  shows "ts2 = [] \<and> (\<forall>f. is_optimistic (qo_results (qo_sync (deposits f ts h2) ob2) ! i))"
proof -
  have ob1: "ob1 = fst (run_indices [0..<length (qo_specs ob)] ob)" and ts: "ts = snd (run_indices [0..<length (qo_specs ob)] ob)"
    using assms(3) by (simp_all add: run_all_def)
  have specs1: "qo_specs ob1 = qo_specs ob" "qo_completed ob1 = qo_completed ob" and wf1: "qo_wf ob1 h"
    using assms(1) by (simp_all add: ob1 run_indices_wf)
  have i: "i < length (qo_specs ob)" using assms(5) by (simp add: qo_len_def)
  have pos: "position (\<lambda>q. spec_key q = spec_key (qo_specs ob ! j)) (qo_specs ob1) = Some j"
    if "j < length (qo_specs ob)" for j
    using position_same [OF assms(2) that] specs1 by simp
  obtain rs cs ns where eq: "ts2 = snd (run_indices ns \<lparr>qo_specs = qo_specs ob, qo_results = rs, qo_completed = sh_next h\<rparr>)"
      "ob2 = fst (run_indices ns \<lparr>qo_specs = qo_specs ob, qo_results = rs, qo_completed = sh_next h\<rparr>)"
      "qo_completed ob2 = sh_next h" "read_slots (qo_completed ob2) h2 = cs"
      "length rs = length (qo_specs ob)" "length cs = length (qo_specs ob)"
    and rec: "\<forall>j < length (qo_specs ob). reconciled (qo_specs ob1) (read_slots (qo_completed ob1) h) (map Some (qo_results ob1))
          (qo_specs ob ! j) (rs ! j) (cs ! j) (j \<in> set ns)"
    using set_specs_reconciled [OF wf1 assms(2,4)] by blast
  have len: "length (qo_results ob1) = length (qo_specs ob)" using wf1 specs1 by (simp add: qo_wf_def)
  have old: "j \<notin> set ns" "rs ! j = qo_results ob1 ! j" "cs ! j = read_slots (qo_completed ob) h ! j"
    if "j < length (qo_specs ob)" for j
    using rec that pos [OF that] len wf_slots [OF assms(1)] specs1 by (auto simp: reconciled_def)
  have "ts2 = []" using run_indices_tasks [of "hd ts2" ns "\<lparr>qo_specs = qo_specs ob, qo_results = rs, qo_completed = sh_next h\<rparr>"]
      old(1) by (cases ts2) (auto simp flip: eq(1))
  moreover have "qt_completed t \<noteq> sh_next h" if "t \<in> set ts" for t
    using run_indices_tasks [OF that [unfolded ts]] assms(1) by (auto simp: qo_wf_def)
  then have "read_slots (sh_next h) (deposits f ts h2) = cs" for f
    using deposits_other [of ts "sh_next h" f h2] eq(3,4) by simp
  moreover have "qo_results ob2 ! i = qo_results ob1 ! i" "i < length (qo_results ob2)"
    using run_indices_untouched [OF old(1) [OF i],
        of "\<lparr>qo_specs = qo_specs ob, qo_results = rs, qo_completed = sh_next h\<rparr>"] old(2) [OF i] eq(5) i
    by (simp_all add: eq(2))
  moreover have "is_optimistic (qo_results ob1 ! i)"
    unfolding ob1 by (rule run_indices_marks) (use assms(1,6) i in \<open>simp_all add: qo_wf_def\<close>)
  ultimately show ?thesis using old(3) [OF i] assms(7) eq(3,6) i by (simp add: sync_nth)
qed

subsection \<open>Witnesses\<close>

definition demo_specs :: "nat query list" where
  "demo_specs = [Query_new (QueryKey_new ''a''), Query_new (QueryKey_new ''b'')]"

definition demo_qo :: "nat queries_observer \<times> nat client \<times> nat slot_heap" where
  "demo_qo = QueriesObserver_new (=) T_String 0 demo_specs QueryClient_new empty_heap"

lemma demo_qo_wf: "qo_wf (fst demo_qo) (snd (snd demo_qo))"
  by (rule qo_new_wf [of empty_heap "(=)" T_String 0 demo_specs QueryClient_new _ "fst (snd demo_qo)"])
    (simp_all add: demo_qo_def empty_heap_def)

lemma demo_qo_simps:
  "qo_specs (fst demo_qo) = demo_specs" "qo_completed (fst demo_qo) = 0" "qo_len (fst demo_qo) = 2"
  "read_slots 0 (snd (snd demo_qo)) = [None, None]"
  by (simp_all add: demo_qo_def QueriesObserver_new_def alloc_slots_def empty_heap_def qo_len_def demo_specs_def
      read_slots_def dm_get_def dm_insert_def split: prod.splits)

lemma demo_enabled: "i < 2 \<Longrightarrow> QueryOptions_is_enabled (q_options (demo_specs ! i))"
  by (auto simp: demo_specs_def Query_new_def QueryOptions_is_enabled_def QueryOptions_default_def less_Suc_eq
      numeral_2_eq_2)

theorem queries_observer_shape_witness:
  "length (qo_results (fst (fold (qo_step (=) T_String) [QO_Run_All, QO_Set_Specs 5 (tl demo_specs), QO_Sync] demo_qo)))
   = qo_len (fst (fold (qo_step (=) T_String) [QO_Run_All, QO_Set_Specs 5 (tl demo_specs), QO_Sync] demo_qo))"
  using queries_observer_shape [of "(=)" T_String 0 demo_specs QueryClient_new "fst demo_qo" "fst (snd demo_qo)" "snd (snd demo_qo)"
      "[QO_Run_All, QO_Set_Specs 5 (tl demo_specs), QO_Sync]"
      "fst (fold (qo_step (=) T_String) [QO_Run_All, QO_Set_Specs 5 (tl demo_specs), QO_Sync] demo_qo)"
      "fst (snd (fold (qo_step (=) T_String) [QO_Run_All, QO_Set_Specs 5 (tl demo_specs), QO_Sync] demo_qo))"
      "snd (snd (fold (qo_step (=) T_String) [QO_Run_All, QO_Set_Specs 5 (tl demo_specs), QO_Sync] demo_qo))"]
  by (simp add: demo_qo_def)

theorem run_all_sync_witness:
  "qo_results (qo_sync (deposits (\<lambda>i. Success (StrV ''done'')) (rev (snd (run_all (fst demo_qo)))) (snd (snd demo_qo)))
     (fst (run_all (fst demo_qo)))) ! 1 = Success (StrV ''done'')"
  using run_all_sync [OF demo_qo_wf prod.collapse [symmetric], of "rev (snd (run_all (fst demo_qo)))" 1
      "\<lambda>i. Success (StrV ''done'')"] demo_enabled [of 1]
  by (simp add: demo_qo_simps)

lemma demo_specs_distinct: "distinct (map spec_key demo_specs)" "distinct (map spec_key (rev demo_specs))"
  by (simp_all add: demo_specs_def Query_new_def QueryKey_new_def)

theorem set_specs_reconciles_witness:
  "qo_results (fst (fst (set_specs (=) T_String 5 (rev demo_specs) demo_qo))) ! 0 = qo_results (fst demo_qo) ! 1"
proof -
  have "position (\<lambda>q. spec_key q = spec_key (rev demo_specs ! 0)) demo_specs = Some 1"
    by (simp add: demo_specs_def Query_new_def QueryKey_new_def)
  then show ?thesis
    using set_specs_reconciles [OF demo_qo_wf demo_specs_distinct(2), of "(=)" T_String 5 "fst (snd demo_qo)"
        "fst (fst (set_specs (=) T_String 5 (rev demo_specs) demo_qo))"
        "fst (snd (fst (set_specs (=) T_String 5 (rev demo_specs) demo_qo)))"
        "snd (snd (fst (set_specs (=) T_String 5 (rev demo_specs) demo_qo)))"
        "snd (set_specs (=) T_String 5 (rev demo_specs) demo_qo)" 0]
    by (simp add: demo_qo_simps) (simp add: demo_specs_def)
qed

theorem set_specs_orphans_witness:
  "\<exists>ob2 c2 h2 ts2. set_specs (=) T_String 5 demo_specs (fst (run_all (fst demo_qo)), snd demo_qo) = ((ob2, c2, h2), ts2)
   \<and> ts2 = [] \<and> is_optimistic (qo_results (qo_sync (deposits (\<lambda>i. Success (StrV ''done'')) (snd (run_all (fst demo_qo))) h2) ob2) ! 1)"
proof -
  obtain ob2 c2 h2 ts2 where s: "set_specs (=) T_String 5 demo_specs (fst (run_all (fst demo_qo)), snd demo_qo) = ((ob2, c2, h2), ts2)"
    by (metis prod.collapse)
  have "ts2 = [] \<and> (\<forall>f. is_optimistic (qo_results (qo_sync (deposits f (snd (run_all (fst demo_qo))) h2) ob2) ! 1))"
    by (rule set_specs_orphans [OF demo_qo_wf _ prod.collapse [symmetric], of "(=)" T_String 5 "fst (snd demo_qo)"])
      (use s demo_enabled [of 1] in \<open>simp_all add: demo_qo_simps demo_specs_distinct\<close>)
  then show ?thesis using s by blast
qed

end
