(* ===== verification/Mutation_Cache.thy ===== *)
theory Mutation_Cache
  imports Query_Filters Broadcast_Bus Network
begin

text \<open>
  \<open>src/mutation_cache.rs\<close>: the entries of submitted mutations, the scope table that serialises them,
  the event channel and the cache-level callbacks. User callbacks return nothing and run outside the
  locks; their invocations are recorded, in order, in the log \<open>mc_calls\<close>, which the lifecycle of a
  mutation shares. Of the callback configuration only which callbacks are set matters. The id counter
  is \<open>u64\<close> in the code and is kept as a natural number.
\<close>

record mutation_scope =
  scope_id :: string

record mutation_cache_config =
  cfg_on_mutate :: bool
  cfg_on_success :: bool
  cfg_on_error :: bool
  cfg_on_settled :: bool

record mutation_cache_entry =
  me_id :: nat
  me_mutation_key :: "query_key option"
  me_scope :: "mutation_scope option"
  me_status :: mutation_status
  me_is_paused :: bool
  me_submitted_at_ms :: "nat option"
  me_has_result :: bool
  me_error :: "query_error option"
  me_has_context :: bool

definition MutationCacheEntry_new ::
  "query_key option \<Rightarrow> mutation_scope option \<Rightarrow> mutation_cache_entry" where
  "MutationCacheEntry_new key scope =
     \<lparr>me_id = 0, me_mutation_key = key, me_scope = scope, me_status = MS_Idle, me_is_paused = False,
      me_submitted_at_ms = None, me_has_result = False, me_error = None, me_has_context = False\<rparr>"

definition MutationCacheEntry_snapshot :: "mutation_cache_entry \<Rightarrow> mutation_snapshot" where
  "MutationCacheEntry_snapshot e =
     MutationSnapshot_new (me_mutation_key e) (me_status e) (me_is_paused e)"

datatype mutation_cache_event =
    EvAdded nat | EvRemoved nat | EvUpdated nat | EvScopeResumed string | EvCleared

record scope_state =
  ss_running :: bool
  ss_queue :: "nat list"

definition ScopeState_default :: scope_state where
  "ScopeState_default = \<lparr>ss_running = False, ss_queue = []\<rparr>"

text \<open>A callback invocation: who was called, with the entry snapshot for the cache-level ones.\<close>

datatype callback =
    CacheOnMutate mutation_cache_entry | CacheOnSuccess mutation_cache_entry
  | CacheOnError mutation_cache_entry | CacheOnSettled mutation_cache_entry
  | MutOnSuccess | MutOnError query_error | MutOnSettled "query_error option"
  | CallOnSuccess | CallOnError query_error | CallOnSettled "query_error option"

record mutation_cache =
  mc_entries :: "mutation_cache_entry list"
  mc_scopes :: "(string, scope_state) dashmap"
  mc_next_id :: nat
  mc_config :: mutation_cache_config
  mc_tx :: "mutation_cache_event bus"
  mc_scope_release :: "(string, unit watch) dashmap"
  mc_calls :: "callback list"

definition EVENT_CAPACITY :: nat where
  "EVENT_CAPACITY = 256"

text \<open>\<open>duration_since(UNIX_EPOCH)\<close> fails for a clock before the epoch (\<open>None\<close>).\<close>

definition now_ms :: "duration option \<Rightarrow> nat" where
  "now_ms since_epoch = (case since_epoch of None \<Rightarrow> 0 | Some d \<Rightarrow> sat64 (as_millis d))"

definition MutationCache_with_config :: "mutation_cache_config \<Rightarrow> mutation_cache" where
  "MutationCache_with_config config =
     \<lparr>mc_entries = [], mc_scopes = [], mc_next_id = 0, mc_config = config,
      mc_tx = Receiver_drop 0 (fst (Sender_channel EVENT_CAPACITY)), mc_scope_release = [],
      mc_calls = []\<rparr>"

definition MutationCache_new :: mutation_cache where
  "MutationCache_new =
     MutationCache_with_config
       \<lparr>cfg_on_mutate = False, cfg_on_success = False, cfg_on_error = False, cfg_on_settled = False\<rparr>"

definition mc_send :: "mutation_cache_event \<Rightarrow> mutation_cache \<Rightarrow> mutation_cache" where
  "mc_send ev m = m\<lparr>mc_tx := fst (Sender_send ev (mc_tx m))\<rparr>"

definition mc_subscribe :: "mutation_cache \<Rightarrow> mutation_cache \<times> nat" where
  "mc_subscribe m = (let (b, i) = Sender_subscribe (mc_tx m) in (m\<lparr>mc_tx := b\<rparr>, i))"

definition scope_entry :: "string \<Rightarrow> mutation_cache \<Rightarrow> scope_state" where
  "scope_entry s m =
     (case dm_get (mc_scopes m) s of None \<Rightarrow> ScopeState_default | Some st \<Rightarrow> st)"

text \<open>\<open>add_with_hook\<close>; the hook sees the id before the \<open>Added\<close> event and is part of the observer.\<close>

definition mc_add :: "mutation_cache_entry \<Rightarrow> mutation_cache \<Rightarrow> mutation_cache \<times> nat" where
  "mc_add entry m =
     (let id = mc_next_id m + 1;
          e0 = entry\<lparr>me_id := id\<rparr>;
          m0 = m\<lparr>mc_next_id := id\<rparr>;
          (e1, m1) =
            (case me_scope e0 of
               None \<Rightarrow> (e0, m0)
             | Some sc \<Rightarrow>
                 (let st = scope_entry (scope_id sc) m0
                  in if ss_running st
                     then (e0\<lparr>me_is_paused := True\<rparr>,
                           m0\<lparr>mc_scopes := dm_insert (scope_id sc)
                               (st\<lparr>ss_queue := ss_queue st @ [id]\<rparr>) (mc_scopes m0)\<rparr>)
                     else (e0, m0\<lparr>mc_scopes := dm_insert (scope_id sc) st (mc_scopes m0)\<rparr>)))
      in (mc_send (EvAdded id) (m1\<lparr>mc_entries := mc_entries m1 @ [e1]\<rparr>), id))"

definition mc_build :: "mutation_cache_entry \<Rightarrow> mutation_cache \<Rightarrow> mutation_cache \<times> nat" where
  "mc_build entry m = mc_add entry m"

definition mc_get :: "nat \<Rightarrow> mutation_cache \<Rightarrow> mutation_cache_entry option" where
  "mc_get i m = List.find (\<lambda>e. me_id e = i) (mc_entries m)"

text \<open>The first entry with the id is updated in place.\<close>

fun update_first :: "nat \<Rightarrow> ('a \<Rightarrow> 'a) \<Rightarrow> ('a \<Rightarrow> nat) \<Rightarrow> 'a list \<Rightarrow> 'a list" where
  "update_first i f ident [] = []"
| "update_first i f ident (x # xs) =
     (if ident x = i then f x # xs else x # update_first i f ident xs)"

definition mc_update ::
  "nat \<Rightarrow> (mutation_cache_entry \<Rightarrow> mutation_cache_entry) \<Rightarrow> mutation_cache \<Rightarrow> mutation_cache \<times> bool" where
  "mc_update i f m =
     (if mc_get i m \<noteq> None
      then (mc_send (EvUpdated i) (m\<lparr>mc_entries := update_first i f me_id (mc_entries m)\<rparr>), True)
      else (m, False))"

definition mc_remove :: "nat \<Rightarrow> mutation_cache \<Rightarrow> mutation_cache \<times> bool" where
  "mc_remove i m =
     (case position (\<lambda>e. me_id e = i) (mc_entries m) of
        None \<Rightarrow> (mc_send (EvRemoved i) m, False)
      | Some n \<Rightarrow>
          (let entry = mc_entries m ! n;
               m1 = m\<lparr>mc_entries := remove_at n (mc_entries m)\<rparr>;
               m2 = (case me_scope entry of
                       None \<Rightarrow> m1
                     | Some sc \<Rightarrow>
                         m1\<lparr>mc_scopes := dm_modify (scope_id sc)
                             (\<lambda>st. st\<lparr>ss_queue := filter (\<lambda>q. q \<noteq> i) (ss_queue st)\<rparr>) (mc_scopes m1)\<rparr>)
           in (mc_send (EvRemoved i) m2, True)))"

definition mc_clear :: "mutation_cache \<Rightarrow> mutation_cache" where
  "mc_clear m =
     (let ids = map me_id (mc_entries m);
          m1 = m\<lparr>mc_entries := [], mc_scopes := []\<rparr>
      in mc_send EvCleared (fold (\<lambda>i. mc_send (EvRemoved i)) ids m1))"

definition mc_find :: "mutation_filters \<Rightarrow> mutation_cache \<Rightarrow> mutation_cache_entry option" where
  "mc_find f m = List.find (\<lambda>e. match_mutation (MutationCacheEntry_snapshot e) f) (mc_entries m)"

definition mc_find_all :: "mutation_filters \<Rightarrow> mutation_cache \<Rightarrow> mutation_cache_entry list" where
  "mc_find_all f m = filter (\<lambda>e. match_mutation (MutationCacheEntry_snapshot e) f) (mc_entries m)"

definition mc_len :: "mutation_cache \<Rightarrow> nat" where
  "mc_len m = length (mc_entries m)"

definition mc_is_empty :: "mutation_cache \<Rightarrow> bool" where
  "mc_is_empty m = (mc_len m = 0)"

definition mc_get_all :: "mutation_cache \<Rightarrow> mutation_cache_entry list" where
  "mc_get_all m = mc_entries m"

definition can_run :: "string \<Rightarrow> mutation_cache \<Rightarrow> bool" where
  "can_run s m = (case dm_get (mc_scopes m) s of None \<Rightarrow> True | Some st \<Rightarrow> \<not> ss_running st)"

definition mark_running :: "string \<Rightarrow> mutation_cache \<Rightarrow> mutation_cache" where
  "mark_running s m =
     m\<lparr>mc_scopes := dm_insert s ((scope_entry s m)\<lparr>ss_running := True\<rparr>) (mc_scopes m)\<rparr>"

definition notify_scope :: "string \<Rightarrow> mutation_cache \<Rightarrow> mutation_cache" where
  "notify_scope s m =
     m\<lparr>mc_scope_release := dm_modify s (\<lambda>w. fst (Watch_send () w)) (mc_scope_release m)\<rparr>"

definition mark_finished :: "string \<Rightarrow> mutation_cache \<Rightarrow> mutation_cache" where
  "mark_finished s m =
     notify_scope s
       (case dm_get (mc_scopes m) s of
          None \<Rightarrow> m
        | Some st \<Rightarrow>
            if ss_queue st = [] then m\<lparr>mc_scopes := dm_remove s (mc_scopes m)\<rparr>
            else m\<lparr>mc_scopes := dm_insert s (st\<lparr>ss_running := False\<rparr>) (mc_scopes m)\<rparr>)"

definition subscribe_scope :: "string \<Rightarrow> mutation_cache \<Rightarrow> mutation_cache \<times> watcher" where
  "subscribe_scope s m =
     (let w = (case dm_get (mc_scope_release m) s of None \<Rightarrow> fst (Watch_new ()) | Some w \<Rightarrow> w);
          (w', r) = Watch_subscribe w
      in (m\<lparr>mc_scope_release := dm_insert s w' (mc_scope_release m)\<rparr>, r))"

definition run_next :: "string \<Rightarrow> mutation_cache \<Rightarrow> mutation_cache \<times> nat option" where
  "run_next s m =
     (case dm_get (mc_scopes m) s of
        None \<Rightarrow> (m, None)
      | Some st \<Rightarrow>
          (case ss_queue st of
             [] \<Rightarrow> (m, None)
           | i # q \<Rightarrow>
               (notify_scope s (mc_send (EvScopeResumed s)
                  (m\<lparr>mc_scopes := dm_insert s (st\<lparr>ss_queue := q\<rparr>) (mc_scopes m)\<rparr>)), Some i)))"

definition mc_resume_paused_mutations :: "mutation_cache \<Rightarrow> mutation_cache \<times> nat" where
  "mc_resume_paused_mutations m =
     (let resumed = map me_id (filter me_is_paused (mc_entries m));
          m1 = m\<lparr>mc_entries := map (\<lambda>e. if me_is_paused e then e\<lparr>me_is_paused := False\<rparr> else e)
                   (mc_entries m)\<rparr>
      in (fold (\<lambda>i. mc_send (EvUpdated i)) resumed m1, length resumed))"

definition mc_call :: "callback \<Rightarrow> mutation_cache \<Rightarrow> mutation_cache" where
  "mc_call cb m = m\<lparr>mc_calls := mc_calls m @ [cb]\<rparr>"

definition fire_on_mutate :: "nat \<Rightarrow> mutation_cache \<Rightarrow> mutation_cache" where
  "fire_on_mutate i m =
     (if cfg_on_mutate (mc_config m)
      then (case mc_get i m of None \<Rightarrow> m | Some e \<Rightarrow> mc_call (CacheOnMutate e) m) else m)"

definition fire_on_success :: "nat \<Rightarrow> mutation_cache \<Rightarrow> mutation_cache" where
  "fire_on_success i m =
     (if cfg_on_success (mc_config m)
      then (case mc_get i m of None \<Rightarrow> m | Some e \<Rightarrow> mc_call (CacheOnSuccess e) m) else m)"

definition fire_on_error :: "nat \<Rightarrow> mutation_cache \<Rightarrow> mutation_cache" where
  "fire_on_error i m =
     (if cfg_on_error (mc_config m)
      then (case mc_get i m of None \<Rightarrow> m | Some e \<Rightarrow> mc_call (CacheOnError e) m) else m)"

definition fire_on_settled :: "nat \<Rightarrow> mutation_cache \<Rightarrow> mutation_cache" where
  "fire_on_settled i m =
     (if cfg_on_settled (mc_config m)
      then (case mc_get i m of None \<Rightarrow> m | Some e \<Rightarrow> mc_call (CacheOnSettled e) m) else m)"

subsection \<open>The cache invariant\<close>

text \<open>Ids are handed out in increasing order starting at one; the entries are in that order; the queue
  of a scope is in submission order and holds only entries of that scope that are in the cache.\<close>

definition sig_wf ::
  "(nat \<times> mutation_scope option) list \<Rightarrow> (string, scope_state) dashmap \<Rightarrow> nat \<Rightarrow> bool" where
  "sig_wf sg scopes n \<longleftrightarrow>
     sorted_wrt (<) (map fst sg) \<and> (\<forall>p\<in>set sg. 0 < fst p \<and> fst p \<le> n) \<and> dm_wf scopes
     \<and> (\<forall>s st. dm_get scopes s = Some st \<longrightarrow>
          sorted_wrt (<) (ss_queue st)
          \<and> (\<forall>i\<in>set (ss_queue st). (i, Some \<lparr>scope_id = s\<rparr>) \<in> set sg))"

definition entry_sig :: "mutation_cache \<Rightarrow> (nat \<times> mutation_scope option) list" where
  "entry_sig m = map (\<lambda>e. (me_id e, me_scope e)) (mc_entries m)"

definition mc_wf :: "mutation_cache \<Rightarrow> bool" where
  "mc_wf m \<longleftrightarrow> sig_wf (entry_sig m) (mc_scopes m) (mc_next_id m)"

lemma mc_send_frame [simp]:
  "mc_entries (mc_send ev m) = mc_entries m" "mc_scopes (mc_send ev m) = mc_scopes m"
  "mc_next_id (mc_send ev m) = mc_next_id m" "mc_calls (mc_send ev m) = mc_calls m"
  "mc_config (mc_send ev m) = mc_config m" "mc_scope_release (mc_send ev m) = mc_scope_release m"
  "mc_wf (mc_send ev m) = mc_wf m" "mc_get i (mc_send ev m) = mc_get i m"
  "scope_entry s (mc_send ev m) = scope_entry s m"
  by (simp_all add: mc_send_def mc_wf_def entry_sig_def mc_get_def scope_entry_def)

lemma mc_sends_frame [simp]:
  "mc_entries (fold (\<lambda>i. mc_send (f i)) is m) = mc_entries m"
  "mc_scopes (fold (\<lambda>i. mc_send (f i)) is m) = mc_scopes m"
  "mc_next_id (fold (\<lambda>i. mc_send (f i)) is m) = mc_next_id m"
  "mc_wf (fold (\<lambda>i. mc_send (f i)) is m) = mc_wf m"
  by (induction "is" arbitrary: m) simp_all

lemma notify_scope_frame [simp]:
  "mc_entries (notify_scope s m) = mc_entries m" "mc_scopes (notify_scope s m) = mc_scopes m"
  "mc_next_id (notify_scope s m) = mc_next_id m" "mc_wf (notify_scope s m) = mc_wf m"
  "mc_calls (notify_scope s m) = mc_calls m"
  by (simp_all add: notify_scope_def mc_wf_def entry_sig_def)

lemma mc_call_frame [simp]:
  "mc_wf (mc_call cb m) = mc_wf m" "mc_get i (mc_call cb m) = mc_get i m"
  "mc_config (mc_call cb m) = mc_config m" "mc_calls (mc_call cb m) = mc_calls m @ [cb]"
  by (simp_all add: mc_call_def mc_wf_def entry_sig_def mc_get_def)







subsection \<open>Every operation keeps it\<close>

definition keeps_identity :: "(mutation_cache_entry \<Rightarrow> mutation_cache_entry) \<Rightarrow> bool" where
  "keeps_identity f \<longleftrightarrow> (\<forall>e. me_id (f e) = me_id e \<and> me_scope (f e) = me_scope e)"










text \<open>The four updates the crate itself applies to an entry.\<close>

definition entry_unpause :: "mutation_cache_entry \<Rightarrow> mutation_cache_entry" where
  "entry_unpause e = e\<lparr>me_is_paused := False\<rparr>"

definition entry_context :: "mutation_cache_entry \<Rightarrow> mutation_cache_entry" where
  "entry_context e = e\<lparr>me_has_context := True\<rparr>"

definition entry_success :: "mutation_cache_entry \<Rightarrow> mutation_cache_entry" where
  "entry_success e =
     e\<lparr>me_status := MS_Success, me_has_result := True, me_error := None, me_is_paused := False\<rparr>"

definition entry_error :: "query_error \<Rightarrow> mutation_cache_entry \<Rightarrow> mutation_cache_entry" where
  "entry_error er e =
     e\<lparr>me_status := MS_Error, me_error := Some er, me_has_result := False, me_is_paused := False\<rparr>"

lemma entry_updates_keep [simp]:
  "keeps_identity entry_unpause" "keeps_identity entry_context" "keeps_identity entry_success"
  "keeps_identity (entry_error er)"
  by (simp_all add: keeps_identity_def entry_unpause_def entry_context_def entry_success_def
      entry_error_def)

datatype mc_op =
    MC_Add mutation_cache_entry | MC_Unpause nat | MC_Context nat | MC_Success nat
  | MC_Error nat query_error | MC_Remove nat | MC_Clear | MC_MarkRunning string
  | MC_MarkFinished string | MC_RunNext string | MC_SubscribeScope string | MC_Subscribe | MC_Resume
  | MC_FireMutate nat | MC_FireSuccess nat | MC_FireError nat | MC_FireSettled nat

fun mc_step :: "mc_op \<Rightarrow> mutation_cache \<Rightarrow> mutation_cache" where
  "mc_step (MC_Add e) m = fst (mc_add e m)"
| "mc_step (MC_Unpause i) m = fst (mc_update i entry_unpause m)"
| "mc_step (MC_Context i) m = fst (mc_update i entry_context m)"
| "mc_step (MC_Success i) m = fst (mc_update i entry_success m)"
| "mc_step (MC_Error i e) m = fst (mc_update i (entry_error e) m)"
| "mc_step (MC_Remove i) m = fst (mc_remove i m)"
| "mc_step MC_Clear m = mc_clear m"
| "mc_step (MC_MarkRunning s) m = mark_running s m"
| "mc_step (MC_MarkFinished s) m = mark_finished s m"
| "mc_step (MC_RunNext s) m = fst (run_next s m)"
| "mc_step (MC_SubscribeScope s) m = fst (subscribe_scope s m)"
| "mc_step MC_Subscribe m = fst (mc_subscribe m)"
| "mc_step MC_Resume m = fst (mc_resume_paused_mutations m)"
| "mc_step (MC_FireMutate i) m = fire_on_mutate i m"
| "mc_step (MC_FireSuccess i) m = fire_on_success i m"
| "mc_step (MC_FireError i) m = fire_on_error i m"
| "mc_step (MC_FireSettled i) m = fire_on_settled i m"







definition last_entry :: "mutation_cache \<Rightarrow> mutation_cache_entry option" where
  "last_entry m = (if mc_entries m = [] then None else Some (last (mc_entries m)))"

text \<open>
  A scope whose mutation is running pauses the next submission and queues it behind every earlier
  one; finishing the running mutation and advancing the queue reopens the scope, hands out the first
  queued id and keeps the rest in order.
\<close>

theorem scope_queue_fifo:
  assumes "me_scope e = Some \<lparr>scope_id = s\<rparr>" and "dm_get (mc_scopes m) s = Some st" and "ss_running st"
    and "ss_queue st = q0 # qs"
  shows "\<not> can_run s m
     \<and> map_option ss_queue (dm_get (mc_scopes (fst (mc_add e m))) s) = Some (q0 # qs @ [snd (mc_add e m)])
     \<and> map_option me_is_paused (last_entry (fst (mc_add e m))) = Some True
     \<and> snd (run_next s (mark_finished s m)) = Some q0
     \<and> can_run s (fst (run_next s (mark_finished s m)))
     \<and> map_option ss_queue (dm_get (mc_scopes (fst (run_next s (mark_finished s m)))) s) = Some qs"
  using assms
  by (simp add: can_run_def mc_add_def scope_entry_def mark_finished_def run_next_def last_entry_def Let_def)

theorem scope_queue_fifo_witness:
  "snd (run_next ''s'' (mark_finished ''s'' (fold mc_step
      [MC_MarkRunning ''s'', MC_Add (MutationCacheEntry_new None (Some \<lparr>scope_id = ''s''\<rparr>)),
       MC_Add (MutationCacheEntry_new None (Some \<lparr>scope_id = ''s''\<rparr>))] MutationCache_new))) = Some 1"
  using scope_queue_fifo [of "MutationCacheEntry_new None (Some \<lparr>scope_id = ''s''\<rparr>)" "''s''"
      "fold mc_step [MC_MarkRunning ''s'', MC_Add (MutationCacheEntry_new None (Some \<lparr>scope_id = ''s''\<rparr>)),
       MC_Add (MutationCacheEntry_new None (Some \<lparr>scope_id = ''s''\<rparr>))] MutationCache_new"
      "\<lparr>ss_running = True, ss_queue = [1, 2]\<rparr>" 1 "[2]"]
  by (simp add: mark_running_def mc_add_def scope_entry_def MutationCacheEntry_new_def
      MutationCache_new_def MutationCache_with_config_def ScopeState_default_def Let_def)

end
