(* ===== verification/Mutation_Run.thy ===== *)
theory Mutation_Run
  imports Mutation_Cache Query_Client
begin

text \<open>
  \<open>src/mutation.rs\<close> and the mutation part of \<open>src/executor.rs\<close>. A mutation value is closed over its
  parameters: the mutate function is represented by the results of its attempts (a script, together
  with what other tasks do to the client and the mutation cache while an attempt runs), the callbacks
  by whether they are set, their invocations being logged by the mutation cache model. \<open>on_mutate\<close>
  works on the client and yields a rollback, both functions on clients. A result \<open>None\<close> means that the
  execution is still waiting (for its scope or for the mutate function) when the script ends.
\<close>

subsection \<open>Mutations\<close>

type_synonym 'v rollback = "'v client \<Rightarrow> 'v client"

record 'v mutation =
  mu_invalidates_keys :: "query_key list"
  mu_on_mutate :: "('v client \<Rightarrow> 'v client \<times> (query_error, 'v rollback) result) option"
  mu_on_success :: bool
  mu_on_error :: bool
  mu_scope :: "mutation_scope option"
  mu_retry :: nat
  mu_retry_delay :: duration
  mu_mutation_key :: "query_key option"
  mu_on_settled :: bool
  mu_network_mode :: network_mode

definition Mutation_new :: "'v mutation" where
  "Mutation_new =
     \<lparr>mu_invalidates_keys = [], mu_on_mutate = None, mu_on_success = False, mu_on_error = False,
      mu_scope = None, mu_retry = 0, mu_retry_delay = from_secs 1, mu_mutation_key = None,
      mu_on_settled = False, mu_network_mode = Online\<rparr>"

definition Mutation_invalidates_key :: "query_key \<Rightarrow> 'v mutation \<Rightarrow> 'v mutation" where
  "Mutation_invalidates_key k mu = mu\<lparr>mu_invalidates_keys := mu_invalidates_keys mu @ [k]\<rparr>"

definition Mutation_invalidates :: "query_key list \<Rightarrow> 'v mutation \<Rightarrow> 'v mutation" where
  "Mutation_invalidates ks mu = mu\<lparr>mu_invalidates_keys := ks\<rparr>"


definition Mutation_on_success :: "'v mutation \<Rightarrow> 'v mutation" where
  "Mutation_on_success mu = mu\<lparr>mu_on_success := True\<rparr>"

definition Mutation_on_error :: "'v mutation \<Rightarrow> 'v mutation" where
  "Mutation_on_error mu = mu\<lparr>mu_on_error := True\<rparr>"

definition Mutation_set_scope :: "mutation_scope \<Rightarrow> 'v mutation \<Rightarrow> 'v mutation" where
  "Mutation_set_scope s mu = mu\<lparr>mu_scope := Some s\<rparr>"

definition Mutation_mutation_key :: "query_key \<Rightarrow> 'v mutation \<Rightarrow> 'v mutation" where
  "Mutation_mutation_key k mu = mu\<lparr>mu_mutation_key := Some k\<rparr>"

definition Mutation_retry :: "nat \<Rightarrow> 'v mutation \<Rightarrow> 'v mutation" where
  "Mutation_retry n mu = mu\<lparr>mu_retry := n\<rparr>"

definition Mutation_retry_delay :: "duration \<Rightarrow> 'v mutation \<Rightarrow> 'v mutation" where
  "Mutation_retry_delay d mu = mu\<lparr>mu_retry_delay := d\<rparr>"

definition Mutation_on_settled :: "'v mutation \<Rightarrow> 'v mutation" where
  "Mutation_on_settled mu = mu\<lparr>mu_on_settled := True\<rparr>"

definition Mutation_network_mode :: "network_mode \<Rightarrow> 'v mutation \<Rightarrow> 'v mutation" where
  "Mutation_network_mode md mu = mu\<lparr>mu_network_mode := md\<rparr>"

record mutate_options =
  po_on_success :: bool
  po_on_error :: bool
  po_on_settled :: bool

definition MutateOptions_new :: mutate_options where
  "MutateOptions_new = \<lparr>po_on_success = False, po_on_error = False, po_on_settled = False\<rparr>"

definition MutateOptions_on_success :: "mutate_options \<Rightarrow> mutate_options" where
  "MutateOptions_on_success p = p\<lparr>po_on_success := True\<rparr>"

definition MutateOptions_on_error :: "mutate_options \<Rightarrow> mutate_options" where
  "MutateOptions_on_error p = p\<lparr>po_on_error := True\<rparr>"

definition MutateOptions_on_settled :: "mutate_options \<Rightarrow> mutate_options" where
  "MutateOptions_on_settled p = p\<lparr>po_on_settled := True\<rparr>"

subsection \<open>Settling\<close>

definition call_if :: "bool \<Rightarrow> callback \<Rightarrow> mutation_cache \<Rightarrow> mutation_cache" where
  "call_if b cb m = (if b then mc_call cb m else m)"

definition settle_mutation_success ::
  "'v mutation \<Rightarrow> mutate_options option \<Rightarrow> nat \<Rightarrow> 'v client \<times> mutation_cache
   \<Rightarrow> 'v client \<times> mutation_cache" where
  "settle_mutation_success mu per_call i cm =
     (let c = fold invalidate_queries (mu_invalidates_keys mu) (fst cm);
          m1 = fst (mc_update i entry_success (snd cm));
          m2 = call_if (mu_on_success mu) MutOnSuccess m1;
          m3 = fire_on_success i m2;
          m4 = (case per_call of None \<Rightarrow> m3
                | Some p \<Rightarrow> call_if (po_on_settled p) (CallOnSettled None)
                              (call_if (po_on_success p) CallOnSuccess m3));
          m5 = call_if (mu_on_settled mu) (MutOnSettled None) m4
      in (c, fire_on_settled i m5))"

definition settle_mutation_error ::
  "'v mutation \<Rightarrow> mutate_options option \<Rightarrow> nat \<Rightarrow> query_error \<Rightarrow> mutation_cache \<Rightarrow> mutation_cache" where
  "settle_mutation_error mu per_call i er m =
     (let m1 = fst (mc_update i (entry_error er) m);
          m2 = call_if (mu_on_error mu) (MutOnError er) m1;
          m3 = fire_on_error i m2;
          m4 = (case per_call of None \<Rightarrow> m3
                | Some p \<Rightarrow> call_if (po_on_settled p) (CallOnSettled (Some er))
                              (call_if (po_on_error p) (CallOnError er) m3));
          m5 = call_if (mu_on_settled mu) (MutOnSettled (Some er)) m4
      in fire_on_settled i m5)"

definition release_scope :: "string option \<Rightarrow> bool \<Rightarrow> mutation_cache \<Rightarrow> mutation_cache" where
  "release_scope scope acquired m =
     (case scope of
        Some s \<Rightarrow> if acquired then fst (run_next s (mark_finished s m)) else m
      | None \<Rightarrow> m)"

subsection \<open>The lifecycle\<close>

text \<open>The scope gate; \<open>fs\<close> is what other tasks do to the client and the cache while this one is parked.\<close>

definition scope_enter :: "string \<Rightarrow> nat \<Rightarrow> mutation_cache \<Rightarrow> mutation_cache" where
  "scope_enter s i m =
     (let m1 = mark_running s m
      in if (case mc_get i m1 of None \<Rightarrow> False | Some e \<Rightarrow> me_is_paused e)
         then fst (mc_update i entry_unpause m1) else m1)"

fun scope_gate ::
  "string \<Rightarrow> nat \<Rightarrow> ('v client \<times> mutation_cache \<Rightarrow> 'v client \<times> mutation_cache) list
   \<Rightarrow> 'v client \<times> mutation_cache \<Rightarrow> ('v client \<times> mutation_cache) option" where
  "scope_gate s i fs cm =
     (if can_run s (snd cm) then Some (fst cm, scope_enter s i (snd cm))
      else (case fs of [] \<Rightarrow> None | f # fs' \<Rightarrow> scope_gate s i fs' (f cm)))"

record ('v, 'a) mutate_attempt =
  ma_client :: "'v client \<Rightarrow> 'v client"
  ma_cache :: "mutation_cache \<Rightarrow> mutation_cache"
  ma_result :: "(query_error, 'a) result"

fun mutate_loop ::
  "nat \<Rightarrow> duration \<Rightarrow> nat \<Rightarrow> ('v, 'a) mutate_attempt list \<Rightarrow> 'v client \<times> mutation_cache
   \<Rightarrow> ((query_error, 'a) result \<times> ('v client \<times> mutation_cache) \<times> duration list) option" where
  "mutate_loop retries delay used [] cm = None"
| "mutate_loop retries delay used (a # as) cm =
     (let cm1 = (ma_client a (fst cm), ma_cache a (snd cm))
      in case ma_result a of
           Inr d \<Rightarrow> Some (Inr d, cm1, [])
         | Inl e \<Rightarrow>
             if used < retries
             then map_option (\<lambda>(r, cm', ds). (r, cm', delay # ds))
                    (mutate_loop retries delay (used + 1) as cm1)
             else Some (Inl e, cm1, []))"

definition pending_entry :: "'v mutation \<Rightarrow> nat \<Rightarrow> mutation_cache_entry" where
  "pending_entry mu now =
     \<lparr>me_id = 0, me_mutation_key = mu_mutation_key mu, me_scope = mu_scope mu, me_status = MS_Pending,
      me_is_paused = False, me_submitted_at_ms = Some now, me_has_result = False, me_error = None,
      me_has_context = False\<rparr>"

definition mutation_scope_id :: "'v mutation \<Rightarrow> string option" where
  "mutation_scope_id mu = map_option scope_id (mu_scope mu)"

text \<open>Steps 5 to 8 of the lifecycle: the attempts, then settling and the release of the scope.\<close>

definition finish_mutation ::
  "'v mutation \<Rightarrow> mutate_options option \<Rightarrow> nat \<Rightarrow> 'v rollback option \<Rightarrow> ('v, 'a) mutate_attempt list
   \<Rightarrow> 'v client \<times> mutation_cache
   \<Rightarrow> ((query_error, 'a) result \<times> ('v client \<times> mutation_cache) \<times> duration list) option" where
  "finish_mutation mu per_call i rollback as cm =
     (case mutate_loop (mu_retry mu) (mu_retry_delay mu) 0 as cm of
        None \<Rightarrow> None
      | Some (Inr d, cm1, ds) \<Rightarrow>
          (let cm2 = settle_mutation_success mu per_call i cm1
           in Some (Inr d, (fst cm2, release_scope (mutation_scope_id mu) True (snd cm2)), ds))
      | Some (Inl e, cm1, ds) \<Rightarrow>
          (let c2 = (case rollback of None \<Rightarrow> fst cm1 | Some rb \<Rightarrow> rb (fst cm1))
           in Some (Inl e, (c2, release_scope (mutation_scope_id mu) True
                 (settle_mutation_error mu per_call i e (snd cm1))), ds)))"

text \<open>Step 4, the optimistic update; its failure takes the error path without a rollback.\<close>

definition run_acquired ::
  "'v mutation \<Rightarrow> mutate_options option \<Rightarrow> nat \<Rightarrow> ('v, 'a) mutate_attempt list
   \<Rightarrow> 'v client \<times> mutation_cache
   \<Rightarrow> ((query_error, 'a) result \<times> ('v client \<times> mutation_cache) \<times> duration list) option" where
  "run_acquired mu per_call i as cm =
     (case mu_on_mutate mu of
        None \<Rightarrow> finish_mutation mu per_call i None as cm
      | Some f \<Rightarrow>
          (case f (fst cm) of
             (c1, Inr rb) \<Rightarrow>
               finish_mutation mu per_call i (Some rb) as (c1, fst (mc_update i entry_context (snd cm)))
           | (c1, Inl e) \<Rightarrow>
               Some (Inl e, (c1, release_scope (mutation_scope_id mu) True
                 (settle_mutation_error mu per_call i e (snd cm))), [])))"

definition execute_mutation_full_tracked ::
  "'v mutation \<Rightarrow> mutate_options option \<Rightarrow> nat
   \<Rightarrow> ('v client \<times> mutation_cache \<Rightarrow> 'v client \<times> mutation_cache) list
   \<Rightarrow> ('v, 'a) mutate_attempt list \<Rightarrow> 'v client \<times> mutation_cache
   \<Rightarrow> ((query_error, 'a) result \<times> ('v client \<times> mutation_cache) \<times> duration list) option" where
  "execute_mutation_full_tracked mu per_call now fs as cm =
     (let (m1, i) = mc_add (pending_entry mu now) (snd cm);
          m2 = fire_on_mutate i m1
      in case mu_scope mu of
           None \<Rightarrow> run_acquired mu per_call i as (fst cm, m2)
         | Some sc \<Rightarrow>
             (case scope_gate (scope_id sc) i fs (fst cm, fst (subscribe_scope (scope_id sc) m2)) of
                None \<Rightarrow> None
              | Some cm3 \<Rightarrow> run_acquired mu per_call i as cm3))"

definition execute_mutation_full ::
  "'v mutation \<Rightarrow> mutate_options option \<Rightarrow> nat
   \<Rightarrow> ('v client \<times> mutation_cache \<Rightarrow> 'v client \<times> mutation_cache) list
   \<Rightarrow> ('v, 'a) mutate_attempt list \<Rightarrow> 'v client \<times> mutation_cache
   \<Rightarrow> ((query_error, 'a) result \<times> ('v client \<times> mutation_cache) \<times> duration list) option" where
  "execute_mutation_full mu per_call now fs as cm = execute_mutation_full_tracked mu per_call now fs as cm"

text \<open>\<open>executor.rs::execute_mutation\<close>, which knows no mutation cache: the callbacks it runs are listed.\<close>

definition execute_mutation ::
  "'v mutation \<Rightarrow> ('v client \<Rightarrow> 'v client) \<Rightarrow> (query_error, 'a) result \<Rightarrow> 'v client
   \<Rightarrow> (query_error, 'a) result \<times> 'v client \<times> callback list" where
  "execute_mutation mu others res c =
     (let run = (\<lambda>rollback c0.
            let c1 = others c0 in
            case res of
              Inr d \<Rightarrow> (Inr d, fold invalidate_queries (mu_invalidates_keys mu) c1,
                        if mu_on_success mu then [MutOnSuccess] else [])
            | Inl e \<Rightarrow> (Inl e, (case rollback of None \<Rightarrow> c1 | Some rb \<Rightarrow> rb c1),
                        if mu_on_error mu then [MutOnError e] else []))
      in case mu_on_mutate mu of
           None \<Rightarrow> run None c
         | Some f \<Rightarrow> (case f c of
                       (c0, Inr rb) \<Rightarrow> run (Some rb) c0
                     | (c0, Inl e) \<Rightarrow> (Inl e, c0, [])))"

definition spawn_mutation ::
  "'v mutation \<Rightarrow> ('v client \<Rightarrow> 'v client) \<Rightarrow> (query_error, 'a) result \<Rightarrow> 'v client
   \<Rightarrow> 'a mutation_state \<times> 'v client" where
  "spawn_mutation mu others res c =
     (if client_is_restoring c then (MIdle, c)
      else case execute_mutation mu others res (inc_mutating c) of
             (Inr d, c', cbs) \<Rightarrow> (MSuccess d, dec_mutating c')
           | (Inl e, c', cbs) \<Rightarrow> (MError e, dec_mutating c'))"

subsection \<open>Callback order\<close>

abbreviation calls_when :: "bool \<Rightarrow> callback \<Rightarrow> callback list" where
  "calls_when b cb \<equiv> (if b then [cb] else [])"

lemma call_if_frame [simp]:
  "mc_get i (call_if b cb m) = mc_get i m" "mc_config (call_if b cb m) = mc_config m"
  "mc_calls (call_if b cb m) = mc_calls m @ calls_when b cb"
  "mc_scopes (call_if b cb m) = mc_scopes m"
  by (simp_all add: call_if_def mc_call_def mc_get_def)

lemma fire_frame [simp]:
  "mc_get j (fire_on_success i m) = mc_get j m" "mc_get j (fire_on_error i m) = mc_get j m"
  "mc_get j (fire_on_settled i m) = mc_get j m" "mc_get j (fire_on_mutate i m) = mc_get j m"
  "mc_config (fire_on_success i m) = mc_config m" "mc_config (fire_on_error i m) = mc_config m"
  "mc_scopes (fire_on_success i m) = mc_scopes m" "mc_scopes (fire_on_error i m) = mc_scopes m"
  "mc_scopes (fire_on_settled i m) = mc_scopes m" "mc_scopes (fire_on_mutate i m) = mc_scopes m"
  by (simp_all add: fire_on_success_def fire_on_error_def fire_on_settled_def fire_on_mutate_def
      mc_call_def mc_get_def split: option.splits)

lemma fire_calls:
  assumes "mc_get i m = Some e"
  shows "mc_calls (fire_on_success i m) = mc_calls m @ calls_when (cfg_on_success (mc_config m)) (CacheOnSuccess e)"
    "mc_calls (fire_on_error i m) = mc_calls m @ calls_when (cfg_on_error (mc_config m)) (CacheOnError e)"
    "mc_calls (fire_on_settled i m) = mc_calls m @ calls_when (cfg_on_settled (mc_config m)) (CacheOnSettled e)"
  using assms
  by (simp_all add: fire_on_success_def fire_on_error_def fire_on_settled_def)

lemma find_update_first:
  "(\<And>e. ident (f e) = ident e) \<Longrightarrow> List.find (\<lambda>e. ident e = i) xs = Some e \<Longrightarrow>
   List.find (\<lambda>e. ident e = i) (update_first i f ident xs) = Some (f e)"
  by (induction xs) (auto split: if_splits)

lemma mc_get_update:
  "mc_get i m = Some e \<Longrightarrow> keeps_identity f \<Longrightarrow> mc_get i (fst (mc_update i f m)) = Some (f e)"
  by (simp add: mc_update_def) (simp add: mc_get_def find_update_first keeps_identity_def)

lemma mc_update_frame [simp]:
  "mc_config (fst (mc_update i f m)) = mc_config m" "mc_calls (fst (mc_update i f m)) = mc_calls m"
  "mc_scopes (fst (mc_update i f m)) = mc_scopes m"
  by (simp_all add: mc_update_def)

text \<open>
  C24. The callbacks of a settled mutation run exactly once each, those that are set, in one order: the
  mutation's own \<open>on_success\<close> (or \<open>on_error\<close>), the cache's, the per-call one, then the per-call
  \<open>on_settled\<close>, the mutation's and the cache's. The cache-level callbacks see the entry already in its
  final status. (So the cache-level outcome callbacks run after, not before, the mutation's own, and
  the per-call callbacks are not the last.)
\<close>

theorem mutation_callback_order:
  assumes "mc_get i m = Some e"
  shows "mc_calls (snd (settle_mutation_success mu (Some p) i (c, m))) = mc_calls m
       @ calls_when (mu_on_success mu) MutOnSuccess
       @ calls_when (cfg_on_success (mc_config m)) (CacheOnSuccess (entry_success e))
       @ calls_when (po_on_success p) CallOnSuccess
       @ calls_when (po_on_settled p) (CallOnSettled None)
       @ calls_when (mu_on_settled mu) (MutOnSettled None)
       @ calls_when (cfg_on_settled (mc_config m)) (CacheOnSettled (entry_success e))
     \<and> mc_calls (settle_mutation_error mu (Some p) i er m) = mc_calls m
       @ calls_when (mu_on_error mu) (MutOnError er)
       @ calls_when (cfg_on_error (mc_config m)) (CacheOnError (entry_error er e))
       @ calls_when (po_on_error p) (CallOnError er)
       @ calls_when (po_on_settled p) (CallOnSettled (Some er))
       @ calls_when (mu_on_settled mu) (MutOnSettled (Some er))
       @ calls_when (cfg_on_settled (mc_config m)) (CacheOnSettled (entry_error er e))"
  using mc_get_update [OF assms, of entry_success] mc_get_update [OF assms, of "entry_error er"]
  by (simp add: settle_mutation_success_def settle_mutation_error_def Let_def fire_calls)

theorem mutation_callback_order_witness:
  "mc_calls (snd (settle_mutation_success (Mutation_on_success Mutation_new)
       (Some (MutateOptions_on_settled MutateOptions_new)) 1
       (QueryClient_new :: nat client, fst (mc_add (MutationCacheEntry_new None None) MutationCache_new))))
   = [MutOnSuccess, CallOnSettled None]"
  using mutation_callback_order [of 1 "fst (mc_add (MutationCacheEntry_new None None) MutationCache_new)"
      "(MutationCacheEntry_new None None)\<lparr>me_id := 1\<rparr>" "Mutation_on_success Mutation_new"
      "MutateOptions_on_settled MutateOptions_new" "QueryClient_new :: nat client"]
  by (simp add: mc_get_def mc_add_def MutationCacheEntry_new_def MutationCache_new_def
      MutationCache_with_config_def Mutation_on_success_def Mutation_new_def
      MutateOptions_on_settled_def MutateOptions_new_def Let_def)

subsection \<open>Retries, rollback and release\<close>

lemma mutate_loop_bounded:
  "retries - used < length as \<Longrightarrow>
   \<exists>r cm' ds. mutate_loop retries delay used as cm = Some (r, cm', ds)
     \<and> length ds \<le> retries - used \<and> set ds \<subseteq> {delay}"
proof (induction as arbitrary: used cm)
  case Nil
  then show ?case by simp
next
  case (Cons a as)
  show ?case
  proof (cases "\<exists>e. ma_result a = Inl e \<and> used < retries")
    case False
    then show ?thesis by (auto simp: Let_def split: sum.splits)
  next
    case True
    then have "retries - (used + 1) < length as" using Cons.prems by auto
    from Cons.IH [OF this, of "(ma_client a (fst cm), ma_cache a (snd cm))"] True show ?thesis
      by (fastforce simp: Let_def)
  qed
qed

lemma release_scope_opens:
  "can_run s (release_scope (Some s) True m)"
  by (auto simp: release_scope_def run_next_def mark_finished_def can_run_def split: option.splits
      list.splits)

lemma can_run_add:
  "can_run s (fst (subscribe_scope s (fire_on_mutate i (fst (mc_add e m))))) = can_run s m"
  by (auto simp: can_run_def mc_add_def subscribe_scope_def Let_def scope_entry_def
      ScopeState_default_def split: option.splits if_splits prod.splits)

lemma released: "mu_scope mu = Some sc \<Longrightarrow> can_run (scope_id sc) (release_scope (mutation_scope_id mu) True m)"
  by (simp add: mutation_scope_id_def release_scope_opens)

lemma finish_mutation_bounded:
  assumes "mu_retry mu < length as"
  shows "\<exists>r cm' ds. finish_mutation mu per_call i rb as cm = Some (r, cm', ds)
     \<and> length ds \<le> mu_retry mu \<and> set ds \<subseteq> {mu_retry_delay mu}
     \<and> (\<forall>sc. mu_scope mu = Some sc \<longrightarrow> can_run (scope_id sc) (snd cm'))"
proof -
  obtain r cm' ds where "mutate_loop (mu_retry mu) (mu_retry_delay mu) 0 as cm = Some (r, cm', ds)"
    "length ds \<le> mu_retry mu" "set ds \<subseteq> {mu_retry_delay mu}"
    using mutate_loop_bounded [of "mu_retry mu" 0 as "mu_retry_delay mu" cm] assms by auto
  then show ?thesis
    by (cases r) (simp_all add: finish_mutation_def released Let_def)
qed

lemma run_acquired_bounded:
  assumes "mu_retry mu < length as"
  shows "\<exists>r cm' ds. run_acquired mu per_call i as cm = Some (r, cm', ds)
     \<and> length ds \<le> mu_retry mu \<and> set ds \<subseteq> {mu_retry_delay mu}
     \<and> (\<forall>sc. mu_scope mu = Some sc \<longrightarrow> can_run (scope_id sc) (snd cm'))"
  using finish_mutation_bounded [OF assms]
  by (simp add: run_acquired_def released split: option.splits prod.splits sum.splits)

text \<open>
  C13. A submitted mutation whose scope is free always completes: \<open>retry + 1\<close> attempts are enough, at
  most \<open>retry\<close> pauses of \<open>retry_delay\<close> each are taken, whatever the attempts answer and whatever other
  tasks do meanwhile, and when it returns its scope can be entered again.
\<close>

theorem mutation_terminates:
  assumes "mu_retry mu < length as"
    and "\<And>sc. mu_scope mu = Some sc \<Longrightarrow> can_run (scope_id sc) m"
  shows "\<exists>r cm' ds. execute_mutation_full_tracked mu per_call now fs as (c, m) = Some (r, cm', ds)
     \<and> length ds \<le> mu_retry mu \<and> set ds \<subseteq> {mu_retry_delay mu}
     \<and> (\<forall>sc. mu_scope mu = Some sc \<longrightarrow> can_run (scope_id sc) (snd cm'))"
proof -
  note run = run_acquired_bounded [OF assms(1), of per_call]
  show ?thesis
  proof (cases "mu_scope mu")
    case None
    then show ?thesis using run by (simp add: execute_mutation_full_tracked_def Let_def case_prod_beta)
  next
    case (Some sc)
    then show ?thesis
      using run assms(2) [OF Some]
      by (simp add: execute_mutation_full_tracked_def can_run_add Let_def case_prod_beta)
  qed
qed

theorem mutation_terminates_witness:
  "\<exists>r cm' ds. execute_mutation_full_tracked (Mutation_retry 1 Mutation_new) None 0 []
       (replicate 2 \<lparr>ma_client = \<lambda>c. c, ma_cache = \<lambda>m. m, ma_result = Inl (Network ''x'')\<rparr>)
       (QueryClient_new :: nat client, MutationCache_new) = Some (r :: (query_error, nat) result, cm', ds)
     \<and> length ds \<le> 1 \<and> set ds \<subseteq> {from_secs 1} \<and> (\<forall>sc. None = Some sc \<longrightarrow> can_run (scope_id sc) (snd cm'))"
  using mutation_terminates [of "Mutation_retry 1 Mutation_new"
      "replicate 2 \<lparr>ma_client = \<lambda>c. c, ma_cache = \<lambda>m. m, ma_result = Inl (Network ''x'')\<rparr>"
      MutationCache_new None 0 "[]" "QueryClient_new :: nat client"]
  by (simp add: Mutation_retry_def Mutation_new_def)










subsection \<open>The client after a success\<close>

lemma mutation_success_client:
  assumes "execute_mutation_full_tracked mu per_call now fs as cm = Some (Inr d, (c', m'), ds)"
  shows "\<exists>c0. c' = fold invalidate_queries (mu_invalidates_keys mu) c0"
proof -
  have "finish_mutation mu pc i rb as cm = Some (Inr d, (c', m'), ds) \<Longrightarrow> ?thesis" for pc i rb cm
    by (auto simp: finish_mutation_def settle_mutation_success_def Let_def split: option.splits sum.splits prod.splits)
  then have "run_acquired mu pc i as cm = Some (Inr d, (c', m'), ds) \<Longrightarrow> ?thesis" for pc i cm
    by (auto simp: run_acquired_def split: option.splits sum.splits prod.splits)
  then show ?thesis
    using assms by (auto simp: execute_mutation_full_tracked_def Let_def split: option.splits prod.splits)
qed

end
