(* ===== verification/Mutation_Observer.thy ===== *)
theory Mutation_Observer
  imports Mutation_Run
begin

text \<open>
  \<open>src/mutation_observer.rs\<close>: an observer of one mutation definition. Its fields sit behind shared
  locks that every spawned execution writes to, so an execution is split at its points of contact with
  them: submission (\<open>mutate\<close>), the hook that records the cache entry, and settlement. Settlement reads
  the generation and then takes the state lock, \<open>reset\<close> bumps the generation and then takes the state
  lock; each is two steps that other threads can separate. The generation is a 64-bit counter, kept as a
  natural number. The filtered event stream is the loop of \<open>next\<close> over the receiver of the cache's channel.
\<close>

subsection \<open>The observer\<close>

record 'a mutation_observer =
  mo_state :: "'a mutation_state"
  mo_entry_ids :: "nat list"
  mo_generation :: nat

definition MutationObserver_new :: "'a mutation_observer" where
  "MutationObserver_new = \<lparr>mo_state = MIdle, mo_entry_ids = [], mo_generation = 0\<rparr>"

text \<open>The part of \<open>mutate\<close> that runs in the caller; the result is the generation the task captures.\<close>

definition mutate_submit :: "'a mutation_observer \<Rightarrow> 'a mutation_observer \<times> nat" where
  "mutate_submit ob = (ob\<lparr>mo_state := MLoading\<rparr>, mo_generation ob)"

definition on_entry_added :: "nat \<Rightarrow> 'a mutation_observer \<Rightarrow> 'a mutation_observer" where
  "on_entry_added i ob = ob\<lparr>mo_entry_ids := mo_entry_ids ob @ [i]\<rparr>"

fun settled_state :: "(query_error, 'a) result \<Rightarrow> 'a mutation_state" where
  "settled_state (Inr d) = MSuccess d"
| "settled_state (Inl e) = MError e"

text \<open>Settling: the generation is compared, and the state written under its lock; \<open>between\<close> is what other
  threads do to the observer in between.\<close>

definition settle_check :: "nat \<Rightarrow> 'a mutation_observer \<Rightarrow> bool" where
  "settle_check observed_generation ob = (mo_generation ob = observed_generation)"

definition settle_write :: "(query_error, 'a) result \<Rightarrow> 'a mutation_observer \<Rightarrow> 'a mutation_observer" where
  "settle_write result ob = ob\<lparr>mo_state := settled_state result\<rparr>"

definition mutate_settle ::
  "nat \<Rightarrow> ('a mutation_observer \<Rightarrow> 'a mutation_observer) \<Rightarrow> (query_error, 'a) result \<Rightarrow> 'a mutation_observer
   \<Rightarrow> 'a mutation_observer" where
  "mutate_settle observed_generation between result ob =
     (if settle_check observed_generation ob then settle_write result (between ob) else ob)"

text \<open>The whole spawned task; \<open>during\<close> is what others do to the observer while it executes, \<open>between\<close>
  what they do while it settles.\<close>

definition mutate_task ::
  "'v mutation \<Rightarrow> mutate_options option \<Rightarrow> nat
   \<Rightarrow> ('v client \<times> mutation_cache \<Rightarrow> 'v client \<times> mutation_cache) list
   \<Rightarrow> ('v, 'a) mutate_attempt list \<Rightarrow> ('a mutation_observer \<Rightarrow> 'a mutation_observer)
   \<Rightarrow> ('a mutation_observer \<Rightarrow> 'a mutation_observer) \<Rightarrow> nat
   \<Rightarrow> 'a mutation_observer \<times> 'v client \<times> mutation_cache
   \<Rightarrow> ((query_error, 'a) result \<times> 'a mutation_observer \<times> 'v client \<times> mutation_cache) option" where
  "mutate_task mu per_call now fs as during between observed_generation st =
     (let (ob, cm) = st;
          ob1 = on_entry_added (snd (mc_add (pending_entry mu now) (snd cm))) ob
      in case execute_mutation_full_tracked mu per_call now fs as cm of
           None \<Rightarrow> None
         | Some (result, cm', ds) \<Rightarrow>
             Some (result, mutate_settle observed_generation between result (during ob1), cm'))"

definition reset_bump :: "'a mutation_observer \<Rightarrow> 'a mutation_observer" where
  "reset_bump ob = ob\<lparr>mo_generation := mo_generation ob + 1\<rparr>"

definition reset_write :: "'a mutation_observer \<Rightarrow> 'a mutation_observer" where
  "reset_write ob = ob\<lparr>mo_state := MIdle\<rparr>"

definition mo_reset ::
  "('a mutation_observer \<Rightarrow> 'a mutation_observer) \<Rightarrow> 'a mutation_observer \<Rightarrow> 'a mutation_observer" where
  "mo_reset between ob = reset_write (between (reset_bump ob))"

definition current_result :: "'a mutation_observer \<Rightarrow> 'a mutation_state" where
  "current_result ob = mo_state ob"

definition mo_subscribe :: "mutation_cache \<Rightarrow> mutation_cache \<times> nat" where
  "mo_subscribe m = mc_subscribe m"

definition last_entry_id :: "'a mutation_observer \<Rightarrow> nat option" where
  "last_entry_id ob = (if mo_entry_ids ob = [] then None else Some (last (mo_entry_ids ob)))"

subsection \<open>The filtered event stream\<close>

text \<open>The stream shares the observer's list of entry ids; \<open>mes_rx\<close> is its receiver.\<close>

record mutation_event_stream =
  mes_rx :: nat

definition subscribe_filtered :: "mutation_cache \<Rightarrow> mutation_cache \<times> mutation_event_stream" where
  "subscribe_filtered m = (let (m', i) = mc_subscribe m in (m', \<lparr>mes_rx = i\<rparr>))"

fun event_relevant :: "nat list \<Rightarrow> mutation_cache_event \<Rightarrow> bool" where
  "event_relevant ids (EvAdded i) = (i \<in> set ids)"
| "event_relevant ids (EvRemoved i) = (i \<in> set ids)"
| "event_relevant ids (EvUpdated i) = (i \<in> set ids)"
| "event_relevant ids (EvScopeResumed s) = True"
| "event_relevant ids EvCleared = True"

text \<open>
  One poll of \<open>next\<close>: it consumes events until a relevant one, the end of the channel, or an empty
  queue, where it parks with waker \<open>w\<close>.
\<close>

function stream_next ::
  "nat list \<Rightarrow> nat \<Rightarrow> nat \<Rightarrow> mutation_cache_event bus \<Rightarrow> mutation_cache_event option poll \<times> mutation_cache_event bus" where
  "stream_next ids i w b =
     (case Recv_poll i w b of
        (Ready (Inr ev), b') \<Rightarrow> if event_relevant ids ev then (Ready (Some ev), b') else stream_next ids i w b'
      | (Ready (Inl (RE_Lagged n)), b') \<Rightarrow> stream_next ids i w b'
      | (Ready (Inl RE_Closed), b') \<Rightarrow> (Ready None, b')
      | (Pending, b') \<Rightarrow> (Pending, b'))"
  by pat_completeness auto

termination
  by (relation "measure (\<lambda>(ids, i, w, b). backlog i b)")
    (auto dest: Recv_poll_backlog [OF sym] simp: Recv_poll_backlog)

declare stream_next.simps [simp del]

subsection \<open>What the stream delivers\<close>

definition after_poll :: "nat \<Rightarrow> 'a recv_state \<Rightarrow> 'a bus \<Rightarrow> 'a bus \<Rightarrow> bool" where
  "after_poll i s' b b' \<longleftrightarrow> senders_alive b' = senders_alive b
     \<and> (\<forall>j. dm_get (receivers b') j = (if j = i then Some s' else dm_get (receivers b) j))"

lemma stream_drain:
  assumes "dm_get (receivers b) i = Some s" "rs_missed s = 0"
  shows "\<exists>r b' s'. stream_next ids i w b = (r, b') \<and> after_poll i s' b b' \<and> rs_missed s' = 0
     \<and> (case dropWhile (\<lambda>ev. \<not> event_relevant ids ev) (rs_queue s) of
          ev # ys \<Rightarrow> r = Ready (Some ev) \<and> rs_queue s' = ys
        | [] \<Rightarrow> rs_queue s' = []
             \<and> (if senders_alive b then r = Pending \<and> rs_waker s' = Some w else r = Ready None))"
  using assms
proof (induction "rs_queue s" arbitrary: s b)
  case Nil
  have "Recv_poll i w b =
      (if senders_alive b then (Pending, b\<lparr>receivers := dm_insert i (s\<lparr>rs_waker := Some w\<rparr>) (receivers b)\<rparr>)
       else (Ready (Inl RE_Closed), b\<lparr>receivers := dm_insert i (s\<lparr>rs_alive := False\<rparr>) (receivers b)\<rparr>))"
    using Nil by (simp add: Recv_poll_pending Recv_poll_closed)
  then show ?case
    using Nil.prems by (subst stream_next.simps) (simp add: after_poll_def flip: Nil.hyps)
next
  case (Cons ev q)
  let ?s = "s\<lparr>rs_queue := q\<rparr>"
  let ?b = "b\<lparr>receivers := dm_insert i ?s (receivers b)\<rparr>"
  have poll: "Recv_poll i w b = (Ready (Inr ev), ?b)"
    using Cons.prems Cons.hyps(2) by (simp add: Recv_poll_ready)
  show ?case
  proof (cases "event_relevant ids ev")
    case True
    then show ?thesis
      using Cons.prems by (subst stream_next.simps) (simp add: poll after_poll_def flip: Cons.hyps(2))
  next
    case False
    then have "stream_next ids i w b = stream_next ids i w ?b"
      by (subst stream_next.simps) (simp add: poll)
    then show ?thesis
      using Cons.hyps(1) [of ?s ?b] Cons.prems False
      by (auto simp: after_poll_def simp flip: Cons.hyps(2) split: list.splits)
  qed
qed

lemma stream_lagged:
  assumes "dm_get (receivers b) i = Some s" "rs_missed s > 0"
  shows "stream_next ids i w b =
     stream_next ids i w (b\<lparr>receivers := dm_insert i (s\<lparr>rs_missed := 0\<rparr>) (receivers b)\<rparr>)"
  using assms by (subst stream_next.simps) (simp add: Recv_poll_lagged)

text \<open>
  The filtered stream of an observer delivers the events of the observer's own cache entries, the
  scope resumptions and the clearings, in order and without losing one that is still queued: a poll
  skips the foreign events in front (and a lag report), returns the first relevant one and leaves what
  follows it queued; it parks, with its waker registered, only when no queued event is relevant, and
  ends only when that is so and the cache is gone. Polling never loops for ever.
\<close>

theorem mutation_stream_delivers:
  assumes "dm_get (receivers b) i = Some s" and "stream_next ids i w b = (r, b')"
  shows "\<exists>s'. dm_get (receivers b') i = Some s'
     \<and> (case r of
          Ready (Some ev) \<Rightarrow> event_relevant ids ev
            \<and> (\<exists>xs. rs_queue s = xs @ ev # rs_queue s' \<and> (\<forall>x \<in> set xs. \<not> event_relevant ids x))
        | Ready None \<Rightarrow> \<not> senders_alive b \<and> (\<forall>x \<in> set (rs_queue s). \<not> event_relevant ids x)
        | Pending \<Rightarrow> senders_alive b \<and> rs_waker s' = Some w \<and> (\<forall>x \<in> set (rs_queue s). \<not> event_relevant ids x))
     \<and> (\<forall>j. j \<noteq> i \<longrightarrow> dm_get (receivers b') j = dm_get (receivers b) j)"
proof -
  let ?s = "s\<lparr>rs_missed := 0\<rparr>"
  let ?b = "if rs_missed s > 0 then b\<lparr>receivers := dm_insert i ?s (receivers b)\<rparr> else b"
  have "stream_next ids i w ?b = (r, b')" using stream_lagged [OF assms(1), of ids w] assms(2) by simp
  moreover have "dm_get (receivers ?b) i = Some ?s" using assms(1) by simp
  ultimately obtain s' where s': "after_poll i s' ?b b'"
    "case dropWhile (\<lambda>ev. \<not> event_relevant ids ev) (rs_queue s) of
          ev # ys \<Rightarrow> r = Ready (Some ev) \<and> rs_queue s' = ys
        | [] \<Rightarrow> rs_queue s' = []
             \<and> (if senders_alive b then r = Pending \<and> rs_waker s' = Some w else r = Ready None)"
    using stream_drain [of ?b i ?s ids w] by (auto split: if_splits)
  have get: "dm_get (receivers b') i = Some s'" "\<forall>j. j \<noteq> i \<longrightarrow> dm_get (receivers b') j = dm_get (receivers b) j"
    using s'(1) by (auto simp: after_poll_def split: if_splits)
  show ?thesis
  proof (cases "dropWhile (\<lambda>ev. \<not> event_relevant ids ev) (rs_queue s)")
    case Nil
    then have "\<forall>x \<in> set (rs_queue s). \<not> event_relevant ids x" by (simp add: dropWhile_eq_Nil_conv)
    then show ?thesis using s'(2) Nil get by (auto split: if_splits)
  next
    case (Cons ev ys)
    then have "rs_queue s = takeWhile (\<lambda>ev. \<not> event_relevant ids ev) (rs_queue s) @ ev # ys"
      by (metis takeWhile_dropWhile_id)
    moreover have "\<not> event_relevant ids x" if "x \<in> set (takeWhile (\<lambda>ev. \<not> event_relevant ids ev) (rs_queue s))" for x
      using set_takeWhileD [OF that] by simp
    moreover have "event_relevant ids ev" using Cons by (simp add: dropWhile_eq_Cons_conv)
    ultimately show ?thesis using s'(2) Cons get by auto
  qed
qed

definition demo_event_bus :: "mutation_cache_event bus" where
  "demo_event_bus =
     (let (b, i) = Sender_subscribe (fst (Sender_channel 8))
      in fold (\<lambda>ev b. fst (Sender_send ev b)) [EvAdded 1, EvAdded 2, EvUpdated 2] b)"

theorem mutation_stream_delivers_witness:
  "fst (stream_next [2] 1 0 demo_event_bus) = Ready (Some (EvAdded 2))"
proof -
  have g: "dm_get (receivers demo_event_bus) 1 = Some (fresh_recv\<lparr>rs_queue := [EvAdded 1, EvAdded 2, EvUpdated 2]\<rparr>)"
    and alive: "senders_alive demo_event_bus"
    by (simp_all add: demo_event_bus_def Sender_subscribe_def Sender_channel_def Sender_send_def send_state_def
        fresh_recv_def dm_get_def dm_insert_def push_bounded_def)
  obtain r b' where r: "stream_next [2] 1 0 demo_event_bus = (r, b')" by fastforce
  note spec = mutation_stream_delivers [OF g r]
  show ?thesis
  proof (cases r)
    case Pending
    then show ?thesis using spec by (simp add: fresh_recv_def)
  next
    case (Ready ev)
    then show ?thesis using spec r alive by (cases ev) (auto simp: fresh_recv_def Cons_eq_append_conv)
  qed
qed

subsection \<open>Resetting while executions are in flight\<close>

text \<open>
  Any interleaving of submissions, settlements and resets. A submission is known by its number. The
  machine remembers the generation each submission captured, the tasks that have passed their check and
  not yet written, and whether a reset is between its two steps. \<open>mutate\<close> borrows the observer and \<open>reset\<close>
  borrows it mutably, so no submission falls between the two steps of a reset. The two accesses of a
  submission are one step, since nothing but a reset changes the generation. \<open>threads\<close> says whether a
  reset can fall between the check and the write of a settlement; on a cooperative scheduler it cannot,
  there being no await point.
\<close>

record 'a mo_system =
  os_observer :: "'a mutation_observer"
  os_generations :: "nat list"
  os_writing :: "(nat \<times> (query_error, 'a) result) list"
  os_resetting :: bool

datatype 'a mo_event =
    Mutate | SettleCheck nat "(query_error, 'a) result" | SettleWrite nat "(query_error, 'a) result" | ResetBump | ResetWrite

inductive mo_step :: "bool \<Rightarrow> 'a mo_system \<Rightarrow> 'a mo_event \<Rightarrow> 'a mo_system \<Rightarrow> bool" for threads where
  mutate: "\<not> os_resetting s \<Longrightarrow> mutate_submit (os_observer s) = (ob, g) \<Longrightarrow>
    mo_step threads s Mutate (s\<lparr>os_observer := ob, os_generations := os_generations s @ [g]\<rparr>)"
| pass: "k < length (os_generations s) \<Longrightarrow> settle_check (os_generations s ! k) (os_observer s) \<Longrightarrow>
    mo_step threads s (SettleCheck k r) (s\<lparr>os_writing := (k, r) # os_writing s\<rparr>)"
| fail: "k < length (os_generations s) \<Longrightarrow> \<not> settle_check (os_generations s ! k) (os_observer s) \<Longrightarrow>
    mo_step threads s (SettleCheck k r) s"
| store: "(k, r) \<in> set (os_writing s) \<Longrightarrow>
    mo_step threads s (SettleWrite k r)
      (s\<lparr>os_observer := settle_write r (os_observer s), os_writing := remove1 (k, r) (os_writing s)\<rparr>)"
| bump: "\<not> os_resetting s \<Longrightarrow> threads \<or> os_writing s = [] \<Longrightarrow>
    mo_step threads s ResetBump (s\<lparr>os_observer := reset_bump (os_observer s), os_resetting := True\<rparr>)"
| idle: "os_resetting s \<Longrightarrow>
    mo_step threads s ResetWrite (s\<lparr>os_observer := reset_write (os_observer s), os_resetting := False\<rparr>)"

inductive mo_run :: "bool \<Rightarrow> 'a mo_system \<Rightarrow> 'a mo_event list \<Rightarrow> 'a mo_system \<Rightarrow> bool" for threads s where
  start: "mo_run threads s [] s"
| extend: "mo_run threads s es s1 \<Longrightarrow> mo_step threads s1 e s2 \<Longrightarrow> mo_run threads s (es @ [e]) s2"

definition mo_start :: "'a mo_system" where
  "mo_start = \<lparr>os_observer = MutationObserver_new, os_generations = [], os_writing = [], os_resetting = False\<rparr>"

text \<open>
  The abstract observer knows no generations and no checks: it counts the submissions, remembers how
  many there were at the last reset, and lets only later submissions report.
\<close>

record 'a abstract_observer =
  ao_submitted :: nat
  ao_forgotten :: nat
  ao_result :: "'a mutation_state"

fun ao_step :: "'a mo_event \<Rightarrow> 'a abstract_observer \<Rightarrow> 'a abstract_observer" where
  "ao_step Mutate a = a\<lparr>ao_submitted := ao_submitted a + 1, ao_result := MLoading\<rparr>"
| "ao_step (SettleWrite k r) a =
     (if ao_forgotten a \<le> k \<and> k < ao_submitted a then a\<lparr>ao_result := settled_state r\<rparr> else a)"
| "ao_step ResetBump a = a\<lparr>ao_forgotten := ao_submitted a, ao_result := MIdle\<rparr>"
| "ao_step e a = a"

definition ao_start :: "'a abstract_observer" where
  "ao_start = \<lparr>ao_submitted = 0, ao_forgotten = 0, ao_result = MIdle\<rparr>"

definition mo_rel :: "'a mo_system \<Rightarrow> 'a abstract_observer \<Rightarrow> bool" where
  "mo_rel s a \<longleftrightarrow>
     ao_submitted a = length (os_generations s) \<and> ao_forgotten a \<le> length (os_generations s)
     \<and> (\<forall>k < length (os_generations s). os_generations s ! k \<le> mo_generation (os_observer s)
          \<and> (os_generations s ! k = mo_generation (os_observer s) \<longleftrightarrow> ao_forgotten a \<le> k))
     \<and> (\<forall>(k, r) \<in> set (os_writing s). ao_forgotten a \<le> k \<and> k < length (os_generations s))
     \<and> (if os_resetting s then os_writing s = [] \<and> ao_forgotten a = length (os_generations s) \<and> ao_result a = MIdle
        else ao_result a = mo_state (os_observer s))"

lemma mo_rel_step:
  assumes "mo_step False s e s'" "mo_rel s a"
  shows "mo_rel s' (ao_step e a)"
  using assms(1)
proof cases
  case (mutate ob g)
  then show ?thesis using assms(2) by (auto simp: mo_rel_def mutate_submit_def nth_append less_Suc_eq)
next
  case (pass k r)
  then show ?thesis using assms(2) by (auto simp: mo_rel_def settle_check_def)
next
  case (store k r)
  then show ?thesis using assms(2) by (auto simp: mo_rel_def settle_write_def dest: set_mp [OF set_remove1_subset] split: if_splits)
next
  case bump
  then show ?thesis using assms(2) by (auto simp: mo_rel_def reset_bump_def le_Suc_eq)
next
  case idle
  then show ?thesis using assms(2) by (auto simp: mo_rel_def reset_write_def)
qed (use assms in simp)

lemma mo_rel_run: "mo_run False s es s' \<Longrightarrow> mo_rel s a \<Longrightarrow> mo_rel s' (fold ao_step es a)"
  by (induction rule: mo_run.induct) (simp_all add: mo_rel_step)

text \<open>
  C22. The generation counter implements what \<open>reset\<close> promises, on a cooperative scheduler or whenever no
  reset falls between the check and the write of a settlement: for every interleaving of submissions,
  the two steps of settlements and the two steps of resets, the observed result outside a reset is that
  of the abstract observer in which a reset forgets every submission made before it and any other
  settlement reports when it writes. So a forgotten execution never overwrites the state, an execution
  submitted after the reset always reports, and among the live ones the last to write wins.
\<close>

theorem mutation_observer_refines:
  assumes "mo_run False mo_start es s" and "\<not> os_resetting s"
  shows "current_result (os_observer s) = ao_result (fold ao_step es ao_start)"
proof -
  have "mo_rel mo_start ao_start"
    by (simp add: mo_rel_def mo_start_def MutationObserver_new_def ao_start_def)
  from mo_rel_run [OF assms(1) this] assms(2) show ?thesis by (simp add: mo_rel_def current_result_def)
qed

text \<open>An execution, a reset, and a late settlement that is turned away.\<close>

lemma mo_run_Cons: "mo_step threads s e s1 \<Longrightarrow> mo_run threads s1 es s2 \<Longrightarrow> mo_run threads s (e # es) s2"
proof -
  assume "mo_run threads s1 es s2" "mo_step threads s e s1"
  then show ?thesis
  proof (induction rule: mo_run.induct)
    case start
    then show ?case using mo_run.extend [OF mo_run.start] by fastforce
  next
    case (extend es s2 e' s3)
    then show ?case using mo_run.extend [of threads s "e # es"] by simp
  qed
qed

definition demo_settled :: "'a mutation_state \<Rightarrow> 'a mo_system" where
  "demo_settled st = \<lparr>os_observer = \<lparr>mo_state = st, mo_entry_ids = [], mo_generation = 1\<rparr>,
     os_generations = [0], os_writing = [], os_resetting = False\<rparr>"

lemmas demo_mo_defs = mo_start_def MutationObserver_new_def mutate_submit_def settle_check_def settle_write_def reset_bump_def
  reset_write_def demo_settled_def

lemma demo_reset_run: "mo_run False mo_start [Mutate, ResetBump, ResetWrite, SettleCheck 0 r] (demo_settled MIdle)"
  by (intro mo_run_Cons [OF mo_step.mutate [OF _ prod.collapse [symmetric]]] mo_run_Cons [OF mo_step.bump]
      mo_run_Cons [OF mo_step.idle] mo_run_Cons [OF mo_step.fail]) (simp_all add: demo_mo_defs mo_run.start)

theorem mutation_observer_refines_witness:
  "current_result (os_observer (demo_settled MIdle))
   = ao_result (fold ao_step [Mutate, ResetBump, ResetWrite, SettleCheck 0 (Inr (7 :: nat))] ao_start)"
  by (rule mutation_observer_refines [OF demo_reset_run]) (simp add: demo_settled_def)

text \<open>
  With several threads it does not: a settlement that has passed its check when the observer is reset
  writes afterwards, so the reset observer shows the outcome of the forgotten execution.
\<close>

theorem mutation_reset_overwritten:
  "\<exists>s. mo_run True mo_start [Mutate, SettleCheck 0 r, ResetBump, ResetWrite, SettleWrite 0 r] s \<and> \<not> os_resetting s
     \<and> current_result (os_observer s) = settled_state r
     \<and> ao_result (fold ao_step [Mutate, SettleCheck 0 r, ResetBump, ResetWrite, SettleWrite 0 r] ao_start) = MIdle"
proof (intro exI conjI)
  show "mo_run True mo_start [Mutate, SettleCheck 0 r, ResetBump, ResetWrite, SettleWrite 0 r] (demo_settled (settled_state r))"
    by (intro mo_run_Cons [OF mo_step.mutate [OF _ prod.collapse [symmetric]]] mo_run_Cons [OF mo_step.pass] mo_run_Cons [OF mo_step.bump]
      mo_run_Cons [OF mo_step.idle] mo_run_Cons [OF mo_step.store]) (simp_all add: demo_mo_defs mo_run.start)
qed (simp_all add: demo_settled_def current_result_def ao_start_def)

end
