(* ===== verification/Devtools.thy ===== *)
theory Devtools
  imports Client_Laws Mutation_Observer
begin

text \<open>
  \<open>src/devtools.rs\<close>: the headless devtools over one client. The timeline and the two flags are shared
  with the collector tasks, of which there can be several; a collector is its two receivers. Lower-casing
  a text is a function of the argument \<open>lower\<close>.
\<close>

subsection \<open>Data\<close>

record cache_row =
  cr_cache_key :: string
  cr_is_stale :: bool
  cr_fetched_at :: instant
  cr_status :: query_status
  cr_in_flight :: bool

datatype timeline_kind = TK_Loading | TK_Refetching | TK_Success | TK_Stale | TK_Error | TK_Activity

fun TimelineKind_as_str :: "timeline_kind \<Rightarrow> string" where
  "TimelineKind_as_str TK_Loading = ''loading''"
| "TimelineKind_as_str TK_Refetching = ''refetching''"
| "TimelineKind_as_str TK_Success = ''success''"
| "TimelineKind_as_str TK_Stale = ''stale''"
| "TimelineKind_as_str TK_Error = ''error''"
| "TimelineKind_as_str TK_Activity = ''activity''"

definition TimelineKind_all :: "timeline_kind list" where
  "TimelineKind_all = [TK_Loading, TK_Refetching, TK_Success, TK_Stale, TK_Error, TK_Activity]"

record timeline_event =
  te_timestamp_ms :: nat
  te_cache_key :: string
  te_kind :: timeline_kind
  te_fetching_count :: "u64w option"
  te_mutating_count :: "u64w option"

record timeline_filter =
  tf_kinds :: "timeline_kind list option"
  tf_search :: "string option"

definition TimelineFilter_default :: timeline_filter where
  "TimelineFilter_default = \<lparr>tf_kinds = None, tf_search = None\<rparr>"

definition TimelineFilter_matches :: "(string \<Rightarrow> string) \<Rightarrow> timeline_filter \<Rightarrow> timeline_event \<Rightarrow> bool" where
  "TimelineFilter_matches lower flt ev =
     (if (case tf_kinds flt of Some kinds \<Rightarrow> te_kind ev \<notin> set kinds | None \<Rightarrow> False) then False
      else if (case tf_search flt of Some search \<Rightarrow> \<not> sublist (lower search) (lower (te_cache_key ev)) | None \<Rightarrow> False)
      then False
      else True)"

record collector =
  co_updates :: nat
  co_activity :: nat
  co_done :: bool

record devtools_state =
  dv_timeline :: "timeline_event list"
  dv_filter :: timeline_filter
  dv_capacity :: nat
  dv_recording :: bool
  dv_stop :: bool

subsection \<open>Operations\<close>

definition DevtoolsState_with_capacity :: "nat \<Rightarrow> devtools_state" where
  "DevtoolsState_with_capacity cap =
     \<lparr>dv_timeline = [], dv_filter = TimelineFilter_default, dv_capacity = max cap 1,
      dv_recording = False, dv_stop = False\<rparr>"

definition DevtoolsState_new :: devtools_state where
  "DevtoolsState_new = DevtoolsState_with_capacity 512"

fun map_variant :: "query_state_variant \<Rightarrow> timeline_kind" where
  "map_variant V_Idle = TK_Stale"
| "map_variant V_Stale = TK_Stale"
| "map_variant V_Loading = TK_Loading"
| "map_variant V_Refetching = TK_Refetching"
| "map_variant V_Success = TK_Success"
| "map_variant V_Error = TK_Error"

fun activity_row :: "nat \<Rightarrow> activity_event \<Rightarrow> timeline_event" where
  "activity_row wall (FetchingCountChanged n) =
     \<lparr>te_timestamp_ms = wall, te_cache_key = [], te_kind = TK_Activity, te_fetching_count = Some n, te_mutating_count = None\<rparr>"
| "activity_row wall (MutatingCountChanged n) =
     \<lparr>te_timestamp_ms = wall, te_cache_key = [], te_kind = TK_Activity, te_fetching_count = None, te_mutating_count = Some n\<rparr>"

definition update_row :: "nat \<Rightarrow> query_state_update \<Rightarrow> timeline_event" where
  "update_row wall u =
     \<lparr>te_timestamp_ms = wall, te_cache_key = su_key u, te_kind = map_variant (su_variant u),
      te_fetching_count = None, te_mutating_count = None\<rparr>"

definition push_capped_event :: "timeline_event \<Rightarrow> nat \<Rightarrow> timeline_event list \<Rightarrow> timeline_event list" where
  "push_capped_event ev cap timeline =
     (let guard = (if length timeline \<ge> cap then drop 1 timeline else timeline) in guard @ [ev])"

text \<open>Starting a collector; \<open>None\<close> when one is already recorded as running.\<close>

definition record_from_client ::
  "devtools_state \<times> 'v client \<Rightarrow> (devtools_state \<times> 'v client) \<times> collector option" where
  "record_from_client dc =
     (let (d, c) = dc in
      if dv_recording d then ((d\<lparr>dv_recording := True\<rparr>, c), None)
      else let (c1, u) = client_subscribe_all c; (c2, a) = subscribe_activity c1
           in ((d\<lparr>dv_recording := True, dv_stop := False\<rparr>, c2),
               Some \<lparr>co_updates = u, co_activity = a, co_done = False\<rparr>))"

definition stop_recording :: "devtools_state \<Rightarrow> devtools_state" where
  "stop_recording d = d\<lparr>dv_recording := False, dv_stop := True\<rparr>"

definition is_recording :: "devtools_state \<Rightarrow> bool" where
  "is_recording d = dv_recording d"

text \<open>
  One poll of a collector, until it has to wait: \<open>select\<close> looks at the activity channel first. The stop
  flag is only read once an event has arrived, which is then discarded.
\<close>

definition collect_row :: "timeline_event \<Rightarrow> devtools_state \<Rightarrow> devtools_state" where
  "collect_row ev d = d\<lparr>dv_timeline := push_capped_event ev (dv_capacity d) (dv_timeline d)\<rparr>"

function collector_poll ::
  "nat \<Rightarrow> nat \<Rightarrow> collector \<times> devtools_state \<times> 'v client \<Rightarrow> collector \<times> devtools_state \<times> 'v client" where
  "collector_poll wall w (co, d, c) =
     (if co_done co then (co, d, c)
      else case Recv_poll (co_activity co) w (cl_activity_tx c) of
             (Ready (Inr ev), b) \<Rightarrow>
               (let c1 = c\<lparr>cl_activity_tx := b\<rparr> in
                if dv_stop d then (co\<lparr>co_done := True\<rparr>, d, c1)
                else collector_poll wall w (co, collect_row (activity_row wall ev) d, c1))
           | (Ready (Inl (RE_Lagged n)), b) \<Rightarrow> collector_poll wall w (co, d, c\<lparr>cl_activity_tx := b\<rparr>)
           | (Ready (Inl RE_Closed), b) \<Rightarrow> (co\<lparr>co_done := True\<rparr>, d, c\<lparr>cl_activity_tx := b\<rparr>)
           | (Pending, b) \<Rightarrow>
               (let c1 = c\<lparr>cl_activity_tx := b\<rparr> in
                case Recv_poll (co_updates co) w (cl_all_subscribers c1) of
                  (Ready (Inr u), b') \<Rightarrow>
                    (let c2 = c1\<lparr>cl_all_subscribers := b'\<rparr> in
                     if dv_stop d then (co\<lparr>co_done := True\<rparr>, d, c2)
                     else collector_poll wall w (co, collect_row (update_row wall u) d, c2))
                | (Ready (Inl (RE_Lagged n)), b') \<Rightarrow> collector_poll wall w (co, d, c1\<lparr>cl_all_subscribers := b'\<rparr>)
                | (Ready (Inl RE_Closed), b') \<Rightarrow> (co\<lparr>co_done := True\<rparr>, d, c1\<lparr>cl_all_subscribers := b'\<rparr>)
                | (Pending, b') \<Rightarrow> (co, d, c1\<lparr>cl_all_subscribers := b'\<rparr>)))"
  by pat_completeness auto

termination
  by (relation "measure (\<lambda>(wall, w, co, d, c). backlog (co_activity co) (cl_activity_tx c)
        + backlog (co_updates co) (cl_all_subscribers c))")
    (auto simp: Let_def dest!: sym [of "(_, _)" "Recv_poll _ _ _"] Recv_poll_backlog Recv_poll_pending_backlog)

declare collector_poll.simps [simp del]

definition cache_rows :: "'v client \<Rightarrow> cache_row list" where
  "cache_rows c =
     map (\<lambda>(k, e). \<lparr>cr_cache_key = k, cr_is_stale = ce_is_stale e, cr_fetched_at = ce_fetched_at e,
                    cr_status = QS_Success, cr_in_flight = is_in_flight (rebuild_key k) c\<rparr>) (cl_cache c)"

definition devtools_timeline :: "(string \<Rightarrow> string) \<Rightarrow> devtools_state \<Rightarrow> timeline_event list" where
  "devtools_timeline lower d = filter (TimelineFilter_matches lower (dv_filter d)) (dv_timeline d)"

definition timeline_len :: "devtools_state \<Rightarrow> nat" where
  "timeline_len d = length (dv_timeline d)"

definition set_filter :: "timeline_filter \<Rightarrow> devtools_state \<Rightarrow> devtools_state" where
  "set_filter flt d = d\<lparr>dv_filter := flt\<rparr>"

definition clear_timeline :: "devtools_state \<Rightarrow> devtools_state" where
  "clear_timeline d = d\<lparr>dv_timeline := []\<rparr>"

definition devtools_refetch :: "string \<Rightarrow> 'v client \<Rightarrow> 'v client" where
  "devtools_refetch k c = invalidate_queries (rebuild_key k) c"

definition devtools_invalidate :: "string \<Rightarrow> 'v client \<Rightarrow> 'v client" where
  "devtools_invalidate k c = invalidate_queries (rebuild_key k) c"

definition devtools_remove :: "instant \<Rightarrow> string \<Rightarrow> 'v client \<Rightarrow> 'v client" where
  "devtools_remove now k c = snd (remove_queries now (QueryFilters_with_key (rebuild_key k)) c)"

definition row_fetch_status :: "bool \<Rightarrow> fetch_status" where
  "row_fetch_status in_flight = (if in_flight then FS_Fetching else FS_Idle)"

subsection \<open>The timeline\<close>

lemma push_capped_event_eq: "push_capped_event ev cap xs = push_bounded cap xs ev"
  by (simp add: push_capped_event_def push_bounded_def drop_Suc)

lemma collect_row_frame [simp]:
  "dv_filter (collect_row ev d) = dv_filter d" "dv_capacity (collect_row ev d) = dv_capacity d"
  "dv_recording (collect_row ev d) = dv_recording d" "dv_stop (collect_row ev d) = dv_stop d"
  by (simp_all add: collect_row_def)

lemma collect_rows_recent:
  "0 < dv_capacity d \<Longrightarrow> dv_timeline d = last_n (dv_capacity d) xs \<Longrightarrow>
   dv_timeline (fold collect_row evs d) = last_n (dv_capacity d) (xs @ evs)"
proof (induction evs arbitrary: d xs)
  case (Cons ev evs)
  then have "dv_timeline (collect_row ev d) = last_n (dv_capacity (collect_row ev d)) (xs @ [ev])"
    by (simp add: collect_row_def push_capped_event_eq push_bounded_last_n)
  then show ?case using Cons.IH [of "collect_row ev d" "xs @ [ev]"] Cons.prems(1) by simp
qed simp

text \<open>
  The timeline is a bounded log: after any number of recorded events it holds exactly the most
  recent ones, as many as its capacity (at least one), oldest first, and the view under a filter is the
  part of these that passes it.
\<close>

theorem devtools_timeline_recent:
  "dv_timeline (fold collect_row evs (DevtoolsState_with_capacity n)) = last_n (max n 1) evs
   \<and> timeline_len (fold collect_row evs (DevtoolsState_with_capacity n)) \<le> max n 1
   \<and> devtools_timeline lower (set_filter flt (fold collect_row evs (DevtoolsState_with_capacity n)))
       = filter (TimelineFilter_matches lower flt) (last_n (max n 1) evs)"
proof -
  have "dv_timeline (fold collect_row evs (DevtoolsState_with_capacity n)) = last_n (max n 1) evs"
    using collect_rows_recent [of "DevtoolsState_with_capacity n" "[]" evs]
    by (simp add: DevtoolsState_with_capacity_def last_n_def)
  then show ?thesis by (simp add: timeline_len_def devtools_timeline_def set_filter_def last_n_def)
qed

subsection \<open>What a collector records\<close>

definition ready_queue :: "nat \<Rightarrow> 'a list \<Rightarrow> 'a bus \<Rightarrow> bool" where
  "ready_queue i q b \<longleftrightarrow> senders_alive b \<and> (\<exists>s. dm_get (receivers b) i = Some s \<and> rs_alive s \<and> rs_missed s = 0 \<and> rs_queue s = q)"

lemma ready_queue_Cons:
  assumes "ready_queue i (v # q) b"
  obtains b' where "Recv_poll i w b = (Ready (Inr v), b')" "ready_queue i q b'"
    "\<And>j q'. j \<noteq> i \<Longrightarrow> ready_queue j q' b' = ready_queue j q' b"
proof -
  from assms obtain s where s: "dm_get (receivers b) i = Some s" "rs_missed s = 0" "rs_queue s = v # q" "senders_alive b"
    "rs_alive s" by (auto simp: ready_queue_def)
  show thesis
    by (rule that [OF Recv_poll_ready [OF s(1-3)]]) (use s in \<open>auto simp: ready_queue_def\<close>)
qed

lemma ready_queue_Nil:
  assumes "ready_queue i [] b"
  obtains b' where "Recv_poll i w b = (Pending, b')" "ready_queue i [] b'"
    "\<And>j q'. j \<noteq> i \<Longrightarrow> ready_queue j q' b' = ready_queue j q' b"
proof -
  from assms obtain s where s: "dm_get (receivers b) i = Some s" "rs_missed s = 0" "rs_queue s = []" "senders_alive b"
    "rs_alive s" by (auto simp: ready_queue_def)
  show thesis
    by (rule that [OF Recv_poll_pending [OF s(1-4)]]) (use s in \<open>auto simp: ready_queue_def\<close>)
qed

definition collector_sees :: "collector \<Rightarrow> activity_event list \<Rightarrow> query_state_update list \<Rightarrow> 'v client \<Rightarrow> bool" where
  "collector_sees co as us c \<longleftrightarrow> \<not> co_done co
     \<and> ready_queue (co_activity co) as (cl_activity_tx c) \<and> ready_queue (co_updates co) us (cl_all_subscribers c)"

text \<open>A change of the client that other collectors do not notice.\<close>

definition unnoticed :: "collector \<Rightarrow> 'v client \<Rightarrow> 'v client \<Rightarrow> bool" where
  "unnoticed co c c' \<longleftrightarrow> (\<forall>co' as us. co_activity co' \<noteq> co_activity co \<longrightarrow> co_updates co' \<noteq> co_updates co \<longrightarrow>
     collector_sees co' as us c' = collector_sees co' as us c)"

lemma unnoticed_trans: "unnoticed co c c' \<Longrightarrow> unnoticed co c' c'' \<Longrightarrow> unnoticed co c c''"
  by (simp add: unnoticed_def)

text \<open>The three moves of a recording collector: with nothing to read it waits, otherwise it takes an activity
  change or, after the last of them, a cache update.\<close>

lemma collector_idle:
  assumes "collector_sees co [] [] c" "\<not> dv_stop d"
  shows "\<exists>c'. collector_poll wall w (co, d, c) = (co, d, c') \<and> collector_sees co [] [] c' \<and> unnoticed co c c'"
proof -
  have sees: "\<not> co_done co" "ready_queue (co_activity co) [] (cl_activity_tx c)"
    "ready_queue (co_updates co) [] (cl_all_subscribers c)" using assms by (auto simp: collector_sees_def)
  obtain b where b: "Recv_poll (co_activity co) w (cl_activity_tx c) = (Pending, b)" "ready_queue (co_activity co) [] b"
    "\<And>j q'. j \<noteq> co_activity co \<Longrightarrow> ready_queue j q' b = ready_queue j q' (cl_activity_tx c)"
    using ready_queue_Nil [OF sees(2)] by metis
  obtain b' where b': "Recv_poll (co_updates co) w (cl_all_subscribers c) = (Pending, b')" "ready_queue (co_updates co) [] b'"
    "\<And>j q'. j \<noteq> co_updates co \<Longrightarrow> ready_queue j q' b' = ready_queue j q' (cl_all_subscribers c)"
    using ready_queue_Nil [OF sees(3)] by metis
  have "collector_poll wall w (co, d, c) = (co, d, c\<lparr>cl_activity_tx := b, cl_all_subscribers := b'\<rparr>)"
    by (subst collector_poll.simps) (simp add: sees(1) assms(2) b(1) b'(1) Let_def)
  then show ?thesis using sees(1) b(2,3) b'(2,3) by (auto simp: collector_sees_def unnoticed_def)
qed

lemma collector_activity:
  assumes "collector_sees co (ev # as) us c" "\<not> dv_stop d"
  shows "\<exists>c'. collector_poll wall w (co, d, c) = collector_poll wall w (co, collect_row (activity_row wall ev) d, c')
     \<and> collector_sees co as us c' \<and> unnoticed co c c'"
proof -
  have sees: "\<not> co_done co" "ready_queue (co_activity co) (ev # as) (cl_activity_tx c)"
    "ready_queue (co_updates co) us (cl_all_subscribers c)" using assms by (auto simp: collector_sees_def)
  obtain b where b: "Recv_poll (co_activity co) w (cl_activity_tx c) = (Ready (Inr ev), b)" "ready_queue (co_activity co) as b"
    "\<And>j q'. j \<noteq> co_activity co \<Longrightarrow> ready_queue j q' b = ready_queue j q' (cl_activity_tx c)"
    using ready_queue_Cons [OF sees(2)] by metis
  have "collector_poll wall w (co, d, c) =
      collector_poll wall w (co, collect_row (activity_row wall ev) d, c\<lparr>cl_activity_tx := b\<rparr>)"
    using assms(2) sees(1) b(1) by (subst collector_poll.simps) (simp add: Let_def)
  then show ?thesis using sees(1,3) b(2,3) by (fastforce simp: collector_sees_def unnoticed_def)
qed

lemma collector_update:
  assumes "collector_sees co [] (u # us) c" "\<not> dv_stop d"
  shows "\<exists>c'. collector_poll wall w (co, d, c) = collector_poll wall w (co, collect_row (update_row wall u) d, c')
     \<and> collector_sees co [] us c' \<and> unnoticed co c c'"
proof -
  have sees: "\<not> co_done co" "ready_queue (co_activity co) [] (cl_activity_tx c)"
    "ready_queue (co_updates co) (u # us) (cl_all_subscribers c)" using assms by (auto simp: collector_sees_def)
  obtain b where b: "Recv_poll (co_activity co) w (cl_activity_tx c) = (Pending, b)" "ready_queue (co_activity co) [] b"
    "\<And>j q'. j \<noteq> co_activity co \<Longrightarrow> ready_queue j q' b = ready_queue j q' (cl_activity_tx c)"
    using ready_queue_Nil [OF sees(2)] by metis
  obtain b' where b': "Recv_poll (co_updates co) w (cl_all_subscribers c) = (Ready (Inr u), b')" "ready_queue (co_updates co) us b'"
    "\<And>j q'. j \<noteq> co_updates co \<Longrightarrow> ready_queue j q' b' = ready_queue j q' (cl_all_subscribers c)"
    using ready_queue_Cons [OF sees(3)] by metis
  let ?c = "c\<lparr>cl_activity_tx := b, cl_all_subscribers := b'\<rparr>"
  have "collector_poll wall w (co, d, c) = collector_poll wall w (co, collect_row (update_row wall u) d, ?c)"
    using assms(2) sees(1) b(1) b'(1) by (subst collector_poll.simps) (simp add: Let_def)
  moreover have "collector_sees co [] us ?c" "unnoticed co c ?c"
    using sees(1) b(2,3) b'(2,3) by (auto simp: collector_sees_def unnoticed_def)
  ultimately show ?thesis by blast
qed

lemma collector_drains:
  assumes "collector_sees co as us c" "\<not> dv_stop d"
  shows "\<exists>c'. collector_poll wall w (co, d, c) =
      (co, fold collect_row (map (activity_row wall) as @ map (update_row wall) us) d, c')
     \<and> collector_sees co [] [] c' \<and> unnoticed co c c'"
  using assms
proof (induction "length as + length us" arbitrary: "as" us c d)
  case 0
  then show ?case using collector_idle by simp
next
  case (Suc n)
  consider ev as' where "as = ev # as'" | u us' where "as = []" "us = u # us'"
    using Suc.hyps(2) by (cases "as"; cases us) auto
  then show ?case
  proof cases
    case 1
    obtain c1 where c1: "collector_poll wall w (co, d, c) = collector_poll wall w (co, collect_row (activity_row wall ev) d, c1)"
      "collector_sees co as' us c1" "unnoticed co c c1"
      using collector_activity Suc.prems 1 by blast
    show ?thesis using Suc.hyps(1) [OF _ c1(2), of "collect_row (activity_row wall ev) d"] Suc.hyps(2) Suc.prems(2) 1 c1(1)
        unnoticed_trans [OF c1(3)] by auto
  next
    case 2
    obtain c1 where c1: "collector_poll wall w (co, d, c) = collector_poll wall w (co, collect_row (update_row wall u) d, c1)"
      "collector_sees co [] us' c1" "unnoticed co c c1"
      using collector_update Suc.prems 2 by blast
    show ?thesis using Suc.hyps(1) [OF _ c1(2), of "collect_row (update_row wall u) d"] Suc.hyps(2) Suc.prems(2) 2 c1(1)
        unnoticed_trans [OF c1(3)] by auto
  qed
qed

text \<open>
  A collector that is polled while it is recording appends one row for every notification waiting
  for it, the activity changes first and then the cache updates, each group in the order it was sent,
  and waits again for more.
\<close>

theorem devtools_collects:
  assumes "collector_sees co as us c" and "\<not> dv_stop d"
    and "collector_poll wall w (co, d, c) = (co', d', c')"
  shows "d' = fold collect_row (map (activity_row wall) as @ map (update_row wall) us) d
   \<and> co' = co \<and> collector_sees co [] [] c'"
  using collector_drains [OF assms(1,2), of wall w] assms(3) by auto

subsection \<open>Restarting\<close>

lemma ready_fresh: "senders_alive b \<Longrightarrow> Sender_subscribe b = (b', i) \<Longrightarrow> ready_queue i [] b'"
  by (auto simp: ready_queue_def Sender_subscribe_def fresh_recv_def)

lemma receiver_id_less: "bus_wf b \<Longrightarrow> dm_get (receivers b) j = Some s \<Longrightarrow> j < next_id b"
  by (auto simp: bus_wf_def dm_get_def dest!: map_of_SomeD)

lemma ready_subscribe_other:
  "bus_wf b \<Longrightarrow> Sender_subscribe b = (b', i) \<Longrightarrow> ready_queue j q b \<Longrightarrow> j \<noteq> i \<and> ready_queue j q b'"
  using receiver_id_less [of b j] by (auto simp: ready_queue_def Sender_subscribe_def)

lemma ready_send: "bus_wf b \<Longrightarrow> ready_queue i [] b \<Longrightarrow> ready_queue i [v] (fst (Sender_send v b))"
proof -
  assume wf: "bus_wf b" and "ready_queue i [] b"
  then obtain s where s: "dm_get (receivers b) i = Some s" "rs_alive s" "rs_missed s = 0" "rs_queue s = []" "senders_alive b"
    by (auto simp: ready_queue_def)
  have "dm_get (receivers (fst (Sender_send v b))) i = Some (send_state (capacity b) v s)"
    using s(1) by (simp add: Sender_send_def dm_get_map_snd)
  moreover have "0 < capacity b" using wf by (simp add: bus_wf_def)
  moreover have "rs_alive (send_state (capacity b) v s) \<and> rs_missed (send_state (capacity b) v s) = 0
      \<and> rs_queue (send_state (capacity b) v s) = [v]" if "0 < capacity b"
    using s(2-4) that by (simp add: send_state_def push_bounded_def)
  moreover have "senders_alive (fst (Sender_send v b))" using s(5) by (simp add: Sender_send_def)
  ultimately show ?thesis unfolding ready_queue_def by blast
qed

lemma record_starts:
  assumes "record_from_client (d, c) = ((d', c'), Some co)" "senders_alive (cl_all_subscribers c)" "senders_alive (cl_activity_tx c)"
  shows "collector_sees co [] [] c' \<and> dv_recording d' \<and> \<not> dv_stop d'
     \<and> Sender_subscribe (cl_all_subscribers c) = (cl_all_subscribers c', co_updates co)
     \<and> Sender_subscribe (cl_activity_tx c) = (cl_activity_tx c', co_activity co)"
proof -
  obtain u b where u: "Sender_subscribe (cl_all_subscribers c) = (b, u)" by fastforce
  obtain a b' where a: "Sender_subscribe (cl_activity_tx c) = (b', a)" by fastforce
  show ?thesis
    using assms u a ready_fresh [OF _ u] ready_fresh [OF _ a]
    by (auto simp: record_from_client_def client_subscribe_all_def subscribe_activity_def collector_sees_def split: if_splits)
qed

text \<open>
  Stopping and restarting the recording before the collector has seen another event leaves two
  collectors running: the stop flag is lowered again before the first collector reads it. From then on
  every cache notification is recorded twice.
\<close>

theorem devtools_restart_duplicates:
  assumes "bus_wf (cl_all_subscribers c)" and "bus_wf (cl_activity_tx c)"
    and "senders_alive (cl_all_subscribers c)" and "senders_alive (cl_activity_tx c)"
    and "record_from_client (d, c) = ((d1, c1), Some co1)"
    and "record_from_client (stop_recording d1, c1) = ((d2, c2), Some co2)"
    and "collector_poll wall w (co1, d2, notify_subscribers k v c2) = (co1', d3, c3)"
    and "collector_poll wall w (co2, d3, c3) = (co2', d4, c4)"
  shows "\<not> co_done co1' \<and> \<not> co_done co2'
   \<and> d4 = collect_row (update_row wall \<lparr>su_key = k, su_variant = v\<rparr>)
            (collect_row (update_row wall \<lparr>su_key = k, su_variant = v\<rparr>) d2)"
proof -
  let ?u = "\<lparr>su_key = k, su_variant = v\<rparr>"
  note r1 = record_starts [OF assms(5,3,4)]
  have wf1: "bus_wf (cl_all_subscribers c1)" "bus_wf (cl_activity_tx c1)"
    using r1 assms(1,2) bus_wf_subscribe [of "cl_all_subscribers c"] bus_wf_subscribe [of "cl_activity_tx c"] by auto
  have alive1: "senders_alive (cl_all_subscribers c1)" "senders_alive (cl_activity_tx c1)"
    using r1 by (auto simp: collector_sees_def ready_queue_def)
  note r2 = record_starts [OF assms(6) alive1]
  have wf2: "bus_wf (cl_all_subscribers c2)" "bus_wf (cl_activity_tx c2)"
    using r2 wf1 bus_wf_subscribe [of "cl_all_subscribers c1"] bus_wf_subscribe [of "cl_activity_tx c1"] by auto
  have both: "co_activity co1 \<noteq> co_activity co2" "co_updates co1 \<noteq> co_updates co2" "collector_sees co1 [] [] c2"
    using r1 r2 ready_subscribe_other [OF wf1(1), of _ "co_updates co2" "co_updates co1" "[]"]
      ready_subscribe_other [OF wf1(2), of _ "co_activity co2" "co_activity co1" "[]"]
    by (auto simp: collector_sees_def)
  have sees: "collector_sees co1 [] [?u] (notify_subscribers k v c2)" "collector_sees co2 [] [?u] (notify_subscribers k v c2)"
    using both r2 ready_send [OF wf2(1)] by (auto simp: collector_sees_def notify_subscribers_def Let_def)
  have "\<not> dv_stop d2" using r2 by simp
  from collector_drains [OF sees(1) this, of wall w] assms(7)
  have d3: "co1' = co1" "d3 = collect_row (update_row wall ?u) d2" "collector_sees co2 [] [?u] c3"
    using both sees(2) by (auto simp: unnoticed_def)
  have "\<not> dv_stop d3" using d3(2) r2 by simp
  from collector_drains [OF d3(3) this, of wall w] assms(8) d3 show ?thesis
    using sees by (auto simp: collector_sees_def)
qed

subsection \<open>Row actions\<close>

text \<open>
  The remove action of one cache row removes every cached query whose key extends the row's key at
  a segment boundary, not only the row itself.
\<close>

theorem devtools_remove_prefix:
  "dm_get (cl_cache (devtools_remove now k c)) k' =
     (if QueryKey_starts_with (rebuild_key k') (rebuild_key k) then None else dm_get (cl_cache c) k')"
proof -
  have "k' \<in> set (map fst (matching_entries now (QueryFilters_with_key (rebuild_key k)) c)) \<longleftrightarrow>
      QueryKey_starts_with (rebuild_key k') (rebuild_key k) \<and> k' \<in> fst ` set (cl_cache c)"
    by (force simp: matching_entries_def match_query_with_key entry_snapshot_def)
  moreover have "dm_get (cl_cache c) k' = None" if "k' \<notin> fst ` set (cl_cache c)"
    using that by (simp add: dm_get_def map_of_eq_None_iff)
  ultimately show ?thesis by (auto simp: devtools_remove_def remove_queries_def drop_loop_cache)
qed

subsection \<open>Witnesses\<close>

definition demo_devtools :: "(devtools_state \<times> nat client) \<times> collector option" where
  "demo_devtools = record_from_client (DevtoolsState_new, QueryClient_new)"

lemma new_client_buses:
  "bus_wf (cl_all_subscribers QueryClient_new)" "bus_wf (cl_activity_tx QueryClient_new)"
  "senders_alive (cl_all_subscribers QueryClient_new)" "senders_alive (cl_activity_tx QueryClient_new)"
proof -
  show "bus_wf (cl_all_subscribers QueryClient_new)" "bus_wf (cl_activity_tx QueryClient_new)"
    using client_wf_new unfolding client_wf_def by blast+
  show "senders_alive (cl_all_subscribers QueryClient_new)" "senders_alive (cl_activity_tx QueryClient_new)"
    by (simp_all add: QueryClient_new_def new_sender_def Receiver_drop_def Sender_channel_def)
qed

lemma record_unstarted:
  "\<not> dv_recording d \<Longrightarrow> \<exists>c' co. record_from_client (d, c) = ((d\<lparr>dv_recording := True, dv_stop := False\<rparr>, c'), Some co)"
  by (simp add: record_from_client_def split: prod.split)

theorem devtools_restart_duplicates_witness:
  "\<exists>d1 c1 co1 d2 c2 co2 co1' d3 c3 co2' d4 c4.
     record_from_client (DevtoolsState_new, QueryClient_new :: nat client) = ((d1, c1), Some co1)
   \<and> record_from_client (stop_recording d1, c1) = ((d2, c2), Some co2)
   \<and> collector_poll 5 0 (co1, d2, notify_subscribers ''k'' V_Success c2) = (co1', d3, c3)
   \<and> collector_poll 5 0 (co2, d3, c3) = (co2', d4, c4) \<and> timeline_len d4 = timeline_len d2 + 2"
proof -
  let ?d = "DevtoolsState_new\<lparr>dv_recording := True, dv_stop := False\<rparr>"
  have new: "\<not> dv_recording DevtoolsState_new" "\<not> dv_recording (stop_recording ?d)"
    by (simp_all add: DevtoolsState_new_def DevtoolsState_with_capacity_def stop_recording_def)
  obtain c1 co1 where a: "record_from_client (DevtoolsState_new, QueryClient_new :: nat client) = ((?d, c1), Some co1)"
    using record_unstarted [OF new(1)] by blast
  obtain d2 c2 co2 where b: "record_from_client (stop_recording ?d, c1) = ((d2, c2), Some co2)"
    and d2: "dv_timeline d2 = []" "dv_capacity d2 = 512"
    using record_unstarted [OF new(2), of c1]
    by (auto simp: stop_recording_def DevtoolsState_new_def DevtoolsState_with_capacity_def)
  obtain co1' d3 c3 where p: "collector_poll 5 0 (co1, d2, notify_subscribers ''k'' V_Success c2) = (co1', d3, c3)"
    by (metis prod_cases3)
  obtain co2' d4 c4 where q: "collector_poll 5 0 (co2, d3, c3) = (co2', d4, c4)" by (metis prod_cases3)
  have "timeline_len d4 = timeline_len d2 + 2"
    using devtools_restart_duplicates [OF new_client_buses a b p q] d2
    by (simp add: timeline_len_def collect_row_def push_capped_event_def)
  then show ?thesis using a b p q by blast
qed

theorem devtools_collects_witness:
  "\<exists>co' d' c'. collector_poll 5 0 (\<lparr>co_updates = 0, co_activity = 0, co_done = False\<rparr>, DevtoolsState_new,
       (QueryClient_new :: nat client)\<lparr>
         cl_activity_tx := fst (Sender_send (FetchingCountChanged 1) (fst (Sender_channel 4))),
         cl_all_subscribers := fst (Sender_send \<lparr>su_key = ''k'', su_variant = V_Loading\<rparr> (fst (Sender_channel 4)))\<rparr>) = (co', d', c')
   \<and> map te_kind (dv_timeline d') = [TK_Activity, TK_Loading]"
proof -
  let ?co = "\<lparr>co_updates = 0, co_activity = 0, co_done = False\<rparr>"
  let ?c = "(QueryClient_new :: nat client)\<lparr>
         cl_activity_tx := fst (Sender_send (FetchingCountChanged 1) (fst (Sender_channel 4))),
         cl_all_subscribers := fst (Sender_send \<lparr>su_key = ''k'', su_variant = V_Loading\<rparr> (fst (Sender_channel 4)))\<rparr>"
  obtain co' d' c' where p: "collector_poll 5 0 (?co, DevtoolsState_new, ?c) = (co', d', c')" by (metis prod_cases3)
  have "collector_sees ?co [FetchingCountChanged 1] [\<lparr>su_key = ''k'', su_variant = V_Loading\<rparr>] ?c"
    by (simp add: collector_sees_def ready_queue_def Sender_send_def Sender_channel_def dm_get_map_snd send_state_def
        push_bounded_def fresh_recv_def)
  moreover have "\<not> dv_stop DevtoolsState_new" by (simp add: DevtoolsState_new_def DevtoolsState_with_capacity_def)
  ultimately show ?thesis
    using devtools_collects [OF _ _ p] p
    by (simp add: collect_row_def push_capped_event_def update_row_def DevtoolsState_new_def DevtoolsState_with_capacity_def)
qed

end
