(* ===== verification/Hooks.thy ===== *)
theory Hooks
  imports Infinite_Executor Queries_Observer Mutation_Observer Devtools
begin

text \<open>
  \<open>src/hooks.rs\<close>: the bindings of queries and mutations to the signals of a UI framework. A signal is
  the value it holds; the framework's gated write is the parameter \<open>set_if_eq\<close> (new and old value), which
  theorems assume to leave the new value in the signal.
  Every binding feeds its signal from a task, the pump, that reads a channel; the six pumps of the file
  are instances of one loop, with or without tolerance for lag. The frameworks, their contexts and
  executors are outside the crate. The clones of the client handle that the tasks own are not counted.
\<close>

subsection \<open>Shared helpers\<close>

definition ACTIVITY_FEED_CAPACITY :: nat where
  "ACTIVITY_FEED_CAPACITY = 100"

definition placeholder_value :: "'v query \<Rightarrow> 'v dynval option" where
  "placeholder_value q =
     map_option (\<lambda>d. case d of PValue v \<Rightarrow> v | PFunction f \<Rightarrow> f None) (q_placeholder_data q)"

definition read_query_state ::
  "type_id \<Rightarrow> instant \<Rightarrow> query_key \<Rightarrow> 'v dynval option \<Rightarrow> 'v client \<Rightarrow> 'v dynval query_state" where
  "read_query_state ty now key placeholder c =
     (case get_query_data ty key c of
        Some d \<Rightarrow> if client_is_stale now key c then Stale d else Success d
      | None \<Rightarrow> (case placeholder of Some d \<Rightarrow> LoadingWithPlaceholder d | None \<Rightarrow> Idle))"

text \<open>\<open>None\<close>: a capacity of zero makes \<open>Vec::remove(0)\<close> panic on the empty buffer.\<close>

definition push_capped :: "'a \<Rightarrow> nat \<Rightarrow> 'a list \<Rightarrow> 'a list option" where
  "push_capped item cap buffer =
     (if length buffer \<ge> cap
      then (case buffer of [] \<Rightarrow> None | _ # rest \<Rightarrow> Some (rest @ [item]))
      else Some (buffer @ [item]))"

lemma push_capped_eq: "push_capped x cap xs = (if cap = 0 \<and> xs = [] then None else Some (push_bounded cap xs x))"
  by (auto simp: push_capped_def push_bounded_def split: list.splits)

lemma try_recv_backlog:
  "try_recv i b = (Inr v, b') \<Longrightarrow> backlog i b' < backlog i b"
  "try_recv i b = (Inl (TE_Lagged n), b') \<Longrightarrow> backlog i b' < backlog i b"
  by (auto simp: recv_defs backlog_def
      split: option.splits if_splits list.splits sum.splits try_recv_error.splits)

function drain_ready :: "nat \<Rightarrow> 'a bus \<Rightarrow> 'a list \<times> 'a bus" where
  "drain_ready i b =
     (case try_recv i b of
        (Inr ev, b') \<Rightarrow> (let (evs, b'') = drain_ready i b' in (ev # evs, b''))
      | (Inl (TE_Lagged n), b') \<Rightarrow> drain_ready i b'
      | (Inl TE_Empty, b') \<Rightarrow> ([], b')
      | (Inl TE_Closed, b') \<Rightarrow> ([], b'))"
  by pat_completeness auto

termination
  by (relation "measure (\<lambda>(i, b). backlog i b)") (auto dest: try_recv_backlog [OF sym])

declare drain_ready.simps [simp del]

text \<open>
  The pump loop, until it has to wait (\<open>False\<close>) or ends (\<open>True\<close>): \<open>step\<close> is what an event, or a lag
  report (\<open>None\<close>), does to the signal; \<open>cancelled\<close> is the stop token, looked at after each event.
\<close>

function pump_poll ::
  "bool \<Rightarrow> bool \<Rightarrow> ('e option \<Rightarrow> 's \<Rightarrow> 's) \<Rightarrow> nat \<Rightarrow> nat \<Rightarrow> 'e bus \<times> 's \<Rightarrow> bool \<times> 'e bus \<times> 's" where
  "pump_poll tolerant cancelled step i w (b, sig) =
     (case Recv_poll i w b of
        (Ready (Inr ev), b') \<Rightarrow>
          if cancelled then (True, b', sig) else pump_poll tolerant cancelled step i w (b', step (Some ev) sig)
      | (Ready (Inl (RE_Lagged n)), b') \<Rightarrow>
          if \<not> tolerant \<or> cancelled then (True, b', sig)
          else pump_poll tolerant cancelled step i w (b', step None sig)
      | (Ready (Inl RE_Closed), b') \<Rightarrow> (True, b', sig)
      | (Pending, b') \<Rightarrow> (False, b', sig))"
  by pat_completeness auto

termination
  by (relation "measure (\<lambda>(tolerant, cancelled, step, i, w, b, sig). backlog i b)")
    (auto dest: Recv_poll_backlog [OF sym])

declare pump_poll.simps [simp del]

subsection \<open>Queries\<close>

record 'v use_query_handle =
  uq_state :: "'v dynval query_state"
  uq_query :: "'v query"
  uq_rx :: nat
  uq_stop :: bool
  uq_pump_done :: bool

definition seed_initial ::
  "('v dynval \<Rightarrow> 'v dynval \<Rightarrow> bool) \<Rightarrow> type_id \<Rightarrow> instant \<Rightarrow> 'v query \<Rightarrow> 'v client \<Rightarrow> 'v client" where
  "seed_initial peq ty now q c =
     (case (get_query_data ty (q_key q) c, q_initial_data q) of
        (None, Some initial) \<Rightarrow> set_query_data peq now (q_key q) initial (q_options q) c
      | _ \<Rightarrow> c)"

text \<open>
  The signal is created, the fetch is spawned, and only then the key is subscribed: \<open>between\<close> is what the
  rest of \<open>spawn_query\<close> and the other tasks, the spawned one among them, do in between.
\<close>

definition use_query ::
  "('v dynval \<Rightarrow> 'v dynval \<Rightarrow> bool) \<Rightarrow> type_id \<Rightarrow> instant \<Rightarrow> 'v query \<Rightarrow> ('v client \<Rightarrow> 'v client) \<Rightarrow> 'v client
   \<Rightarrow> 'v use_query_handle \<times> 'v client" where
  "use_query peq ty now q between c =
     (let c1 = seed_initial peq ty now q c;
          state = read_query_state ty now (q_key q) (placeholder_value q) c1;
          c2 = between (sp_client (spawn_query_init c1));
          (c3, rx) = client_subscribe (cache_key (q_key q)) c2
      in (\<lparr>uq_state = state, uq_query = q, uq_rx = rx, uq_stop = False, uq_pump_done = False\<rparr>, c3))"

definition key_bus :: "string \<Rightarrow> 'v client \<Rightarrow> query_state_update bus" where
  "key_bus k c = (case dm_get (cl_subscribers c) k of Some b \<Rightarrow> b | None \<Rightarrow> new_sender 16)"

definition use_query_poll ::
  "('v dynval query_state \<Rightarrow> 'v dynval query_state \<Rightarrow> 'v dynval query_state) \<Rightarrow> type_id \<Rightarrow> instant \<Rightarrow> nat
   \<Rightarrow> 'v use_query_handle \<times> 'v client \<Rightarrow> 'v use_query_handle \<times> 'v client" where
  "use_query_poll set_if_eq ty now w uc =
     (let (u, c) = uc; key = q_key (uq_query u) in
      if uq_pump_done u then uc
      else let fresh = read_query_state ty now key (placeholder_value (uq_query u)) c;
               (ended, b, sig) = pump_poll True (uq_stop u) (\<lambda>_. set_if_eq fresh) (uq_rx u) w
                                   (key_bus (cache_key key) c, uq_state u)
           in (u\<lparr>uq_state := sig, uq_pump_done := ended\<rparr>,
               c\<lparr>cl_subscribers := dm_insert (cache_key key) b (cl_subscribers c)\<rparr>))"

definition uq_refetch :: "'v use_query_handle \<Rightarrow> 'v client \<Rightarrow> 'v spawn_state" where
  "uq_refetch u c = spawn_query_init (cancel_query (q_key (uq_query u)) c)"

definition uq_abort_fetch :: "'v use_query_handle \<Rightarrow> 'v client \<Rightarrow> 'v client" where
  "uq_abort_fetch u c = cancel_query (q_key (uq_query u)) c"

definition uq_drop :: "'v use_query_handle \<Rightarrow> 'v use_query_handle" where
  "uq_drop u = u\<lparr>uq_stop := True\<rparr>"

subsection \<open>Mutations\<close>

record 'a use_mutation_handle =
  um_state :: "'a mutation_state"
  um_observer :: "'a mutation_observer"

definition use_mutation :: "'a use_mutation_handle" where
  "use_mutation = \<lparr>um_state = MIdle, um_observer = MutationObserver_new\<rparr>"

text \<open>The part of \<open>mutate\<close> in the caller, and what its tasks do when the execution settles. As in the
  observer, \<open>between\<close> is what other threads do to the observer between the two steps of a settlement or a
  reset.\<close>

definition um_mutate :: "'a use_mutation_handle \<Rightarrow> 'a use_mutation_handle \<times> nat" where
  "um_mutate u = (let (ob, g) = mutate_submit (um_observer u) in (u\<lparr>um_observer := ob\<rparr>, g))"

definition um_settle ::
  "nat \<Rightarrow> ('a mutation_observer \<Rightarrow> 'a mutation_observer) \<Rightarrow> (query_error, 'a) result \<Rightarrow> 'a use_mutation_handle
   \<Rightarrow> 'a use_mutation_handle" where
  "um_settle g between result u =
     (let u1 = u\<lparr>um_observer := mutate_settle g between result (um_observer u)\<rparr>
      in u1\<lparr>um_state := settled_state result\<rparr>)"

definition um_reset ::
  "('a mutation_observer \<Rightarrow> 'a mutation_observer) \<Rightarrow> 'a use_mutation_handle \<Rightarrow> 'a use_mutation_handle" where
  "um_reset between u = u\<lparr>um_observer := mo_reset between (um_observer u), um_state := MIdle\<rparr>"

subsection \<open>Infinite queries\<close>

record 'v use_infinite_handle =
  ui_state :: "'v dynval query_state"
  ui_observer :: "'v infinite_observer"
  ui_rx :: nat
  ui_stop :: bool
  ui_pump_done :: bool

definition use_infinite_query ::
  "nat \<Rightarrow> nat \<Rightarrow> instant \<Rightarrow> 'v infinite_query \<Rightarrow> ('v loop_state \<Rightarrow> 'v loop_state) \<Rightarrow> 'v client
   \<Rightarrow> 'v use_infinite_handle \<times> page_slot \<times> 'v loop_state" where
  "use_infinite_query t p now q between c =
     (let (io, slot, ls) = spawn_infinite_query t p now q c;
          state = ob_state (io_observer io);
          ls1 = between ls;
          (c1, rx) = client_subscribe (cache_key (iq_key q)) (fst ls1)
      in (\<lparr>ui_state = state, ui_observer = io, ui_rx = rx, ui_stop = False, ui_pump_done = False\<rparr>, slot,
          (c1, snd ls1)))"

definition use_infinite_poll ::
  "('v dynval query_state \<Rightarrow> 'v dynval query_state \<Rightarrow> 'v dynval query_state) \<Rightarrow> nat \<Rightarrow> nat \<Rightarrow> instant \<Rightarrow> nat
   \<Rightarrow> 'v use_infinite_handle \<times> 'v client \<Rightarrow> 'v use_infinite_handle \<times> 'v client" where
  "use_infinite_poll set_if_eq t p now w uc =
     (let (u, c) = uc; key = iq_key (io_query (ui_observer u)) in
      if ui_pump_done u then uc
      else let fresh = read_query_state (T_Infinite t p) now key None c;
               (ended, b, sig) = pump_poll True (ui_stop u) (\<lambda>_. set_if_eq fresh) (ui_rx u) w
                                   (key_bus (cache_key key) c, ui_state u)
           in (u\<lparr>ui_state := sig, ui_pump_done := ended\<rparr>,
               c\<lparr>cl_subscribers := dm_insert (cache_key key) b (cl_subscribers c)\<rparr>))"

definition ui_drop :: "'v use_infinite_handle \<Rightarrow> 'v use_infinite_handle" where
  "ui_drop u = u\<lparr>ui_stop := True\<rparr>"

subsection \<open>Activity\<close>

text \<open>A signal computed from the client, its receiver, and whether its pump has ended.\<close>

record 's activity_hook =
  ah_signal :: 's
  ah_rx :: nat
  ah_done :: bool

definition spawn_activity_pump :: "'s \<Rightarrow> 'v client \<Rightarrow> 's activity_hook \<times> 'v client" where
  "spawn_activity_pump initial c =
     (let (c', rx) = subscribe_activity c in (\<lparr>ah_signal = initial, ah_rx = rx, ah_done = False\<rparr>, c'))"

definition activity_pump_poll ::
  "('s \<Rightarrow> 's \<Rightarrow> 's) \<Rightarrow> ('v client \<Rightarrow> 's) \<Rightarrow> nat \<Rightarrow> 's activity_hook \<times> 'v client \<Rightarrow> 's activity_hook \<times> 'v client" where
  "activity_pump_poll set_if_eq recompute w hc =
     (let (h, c) = hc in
      if ah_done h then hc
      else let (ended, b, sig) = pump_poll False False (\<lambda>_. set_if_eq (recompute c)) (ah_rx h) w
                                   (cl_activity_tx c, ah_signal h)
           in (h\<lparr>ah_signal := sig, ah_done := ended\<rparr>, c\<lparr>cl_activity_tx := b\<rparr>))"

definition use_is_fetching :: "'v client \<Rightarrow> bool activity_hook \<times> 'v client" where
  "use_is_fetching c = spawn_activity_pump (is_fetching c) c"

definition use_is_mutating :: "'v client \<Rightarrow> bool activity_hook \<times> 'v client" where
  "use_is_mutating c = spawn_activity_pump (is_mutating c) c"

definition use_fetching_count :: "'v client \<Rightarrow> u64w activity_hook \<times> 'v client" where
  "use_fetching_count c = spawn_activity_pump (cl_fetching_count c) c"

definition use_mutating_count :: "'v client \<Rightarrow> u64w activity_hook \<times> 'v client" where
  "use_mutating_count c = spawn_activity_pump (cl_mutating_count c) c"

text \<open>One receiver per client, all feeding the same signal.\<close>

fun use_any_fetching :: "'v client list \<Rightarrow> bool \<times> (nat list \<times> 'v client list)" where
  "use_any_fetching cs =
     (list_ex is_fetching cs, map (\<lambda>c. snd (subscribe_activity c)) cs, map (\<lambda>c. fst (subscribe_activity c)) cs)"

definition any_fetching_poll ::
  "(bool \<Rightarrow> bool \<Rightarrow> bool) \<Rightarrow> nat \<Rightarrow> nat \<Rightarrow> nat list \<Rightarrow> bool \<times> 'v client list \<Rightarrow> bool \<times> 'v client list" where
  "any_fetching_poll set_if_eq w j rxs sc =
     (let (sig, cs) = sc in
      if j \<ge> length cs then sc
      else let (ended, b, sig') = pump_poll True False (\<lambda>_. set_if_eq (list_ex is_fetching cs)) (rxs ! j) w
                                    (cl_activity_tx (cs ! j), sig)
           in (sig', cs[j := (cs ! j)\<lparr>cl_activity_tx := b\<rparr>]))"

text \<open>The feed takes the receiver of any channel; its stop token is never cancelled.\<close>

definition use_activity_feed :: "nat \<Rightarrow> 'e bus \<Rightarrow> 'e list activity_hook \<times> 'e bus" where
  "use_activity_feed rx b =
     (let (initial, b') = drain_ready rx b in (\<lparr>ah_signal = initial, ah_rx = rx, ah_done = False\<rparr>, b'))"

text \<open>The callback of the feed; its capacity is positive, so \<open>push_capped\<close> never panics.\<close>

definition feed_push :: "'e \<Rightarrow> 'e list \<Rightarrow> 'e list" where
  "feed_push e buffer = (case push_capped e ACTIVITY_FEED_CAPACITY buffer of Some b \<Rightarrow> b | None \<Rightarrow> buffer)"

definition activity_feed_poll :: "nat \<Rightarrow> 'e list activity_hook \<times> 'e bus \<Rightarrow> 'e list activity_hook \<times> 'e bus" where
  "activity_feed_poll w hb =
     (let (h, b) = hb in
      if ah_done h then hb
      else let (ended, b', sig) = pump_poll False False
                 (\<lambda>ev buffer. case ev of Some e \<Rightarrow> feed_push e buffer | None \<Rightarrow> buffer)
                 (ah_rx h) w (b, ah_signal h)
           in (h\<lparr>ah_signal := sig, ah_done := ended\<rparr>, b'))"

subsection \<open>Several queries\<close>

fun use_queries_states ::
  "('v dynval \<Rightarrow> 'v dynval \<Rightarrow> bool) \<Rightarrow> type_id \<Rightarrow> instant \<Rightarrow> 'v query list \<Rightarrow> 'v client
   \<Rightarrow> 'v dynval query_state list \<times> 'v client" where
  "use_queries_states peq ty now [] c = ([], c)"
| "use_queries_states peq ty now (q # qs) c =
     (let c1 = seed_initial peq ty now q c;
          state = read_query_state ty now (q_key q) (placeholder_value q) c1;
          rest = use_queries_states peq ty now qs c1
      in (state # fst rest, snd rest))"

fun subscribe_specs :: "'v query list \<Rightarrow> 'v client \<Rightarrow> nat list \<times> 'v client" where
  "subscribe_specs [] c = ([], c)"
| "subscribe_specs (q # qs) c =
     (let r = client_subscribe (cache_key (q_key q)) c; rest = subscribe_specs qs (fst r)
      in (snd r # fst rest, snd rest))"

definition use_queries ::
  "('v dynval \<Rightarrow> 'v dynval \<Rightarrow> bool) \<Rightarrow> type_id \<Rightarrow> instant \<Rightarrow> 'v query list \<Rightarrow> 'v client
   \<Rightarrow> 'v dynval query_state list \<times> nat list \<times> 'v client" where
  "use_queries peq ty now specs c =
     (let (states, c1) = use_queries_states peq ty now specs c; (rxs, c2) = subscribe_specs specs c1
      in (states, rxs, c2))"

definition use_queries_poll ::
  "('v dynval query_state \<Rightarrow> 'v dynval query_state \<Rightarrow> bool) \<Rightarrow> type_id \<Rightarrow> instant \<Rightarrow> nat \<Rightarrow> nat \<Rightarrow> 'v query \<Rightarrow> nat
   \<Rightarrow> 'v dynval query_state list \<times> 'v client \<Rightarrow> 'v dynval query_state list \<times> 'v client" where
  "use_queries_poll seq ty now w idx q rx sc =
     (let (states, c) = sc;
          fresh = read_query_state ty now (q_key q) (placeholder_value q) c;
          (ended, b, states') = pump_poll True False
             (\<lambda>_ xs. if idx < length xs \<and> \<not> seq (xs ! idx) fresh then xs[idx := fresh] else xs) rx w
             (key_bus (cache_key (q_key q)) c, states)
      in (states', c\<lparr>cl_subscribers := dm_insert (cache_key (q_key q)) b (cl_subscribers c)\<rparr>))"

subsection \<open>Pumps\<close>

lemma pump_drains:
  "ready_queue i q b \<Longrightarrow>
   \<exists>b'. pump_poll tolerant False step i w (b, sig) = (False, b', fold (\<lambda>ev. step (Some ev)) q sig) \<and> ready_queue i [] b'"
proof (induction q arbitrary: b sig)
  case Nil
  obtain b' where "Recv_poll i w b = (Pending, b')" "ready_queue i [] b'" using ready_queue_Nil [OF Nil] by metis
  then show ?case by (subst pump_poll.simps) simp
next
  case (Cons ev q)
  obtain b' where "Recv_poll i w b = (Ready (Inr ev), b')" "ready_queue i q b'" using ready_queue_Cons [OF Cons.prems] by metis
  then show ?case using Cons.IH [of b' "step (Some ev) sig"] by (subst pump_poll.simps) simp
qed

text \<open>What the bindings rely on: after the gated write the signal holds the value that was written.\<close>

definition gated_write :: "('s \<Rightarrow> 's \<Rightarrow> 's) \<Rightarrow> bool" where
  "gated_write set_if_eq \<longleftrightarrow> (\<forall>new old. set_if_eq new old = new)"

lemma fold_const_signal:
  "gated_write set_if_eq \<Longrightarrow> fold (\<lambda>ev. set_if_eq v) q sig = (if q = [] then sig else v)"
  by (induction q arbitrary: sig) (auto simp: gated_write_def)

text \<open>A pump that copies a value into its signal, over a receiver with or without lag.\<close>

lemma copy_pump:
  assumes set: "gated_write set_if_eq"
    and "dm_get (receivers b) i = Some s" "rs_alive s" "senders_alive b"
  shows "\<exists>b'. pump_poll True False (\<lambda>_. set_if_eq v) i w (b, sig)
     = (False, b', if rs_queue s = [] \<and> rs_missed s = 0 then sig else v)"
proof (cases "rs_missed s = 0")
  case True
  then have "ready_queue i (rs_queue s) b" using assms(2-4) by (auto simp: ready_queue_def)
  from pump_drains [OF this, of True "\<lambda>_. set_if_eq v" w sig] show ?thesis
    using True by (auto simp: fold_const_signal [OF set])
next
  case False
  let ?b = "b\<lparr>receivers := dm_insert i (s\<lparr>rs_missed := 0\<rparr>) (receivers b)\<rparr>"
  have "ready_queue i (rs_queue s) ?b" using assms(2-4) by (simp add: ready_queue_def)
  from pump_drains [OF this, of True "\<lambda>_. set_if_eq v" w v] obtain b' where
    "pump_poll True False (\<lambda>_. set_if_eq v) i w (?b, v) = (False, b', v)"
    by (auto simp: fold_const_signal [OF set])
  moreover have "pump_poll True False (\<lambda>_. set_if_eq v) i w (b, sig)
     = pump_poll True False (\<lambda>_. set_if_eq v) i w (?b, v)"
    using False Recv_poll_lagged [OF assms(2), of w] by (subst pump_poll.simps) (simp add: set [unfolded gated_write_def])
  ultimately show ?thesis using False by auto
qed

text \<open>A live receiver of a key's channel, and one that has something to read.\<close>

definition attached :: "nat \<Rightarrow> 'a bus \<Rightarrow> bool" where
  "attached i b \<longleftrightarrow> senders_alive b \<and> (\<exists>s. dm_get (receivers b) i = Some s \<and> rs_alive s)"

definition has_news :: "nat \<Rightarrow> 'a bus \<Rightarrow> bool" where
  "has_news i b \<longleftrightarrow> senders_alive b \<and> (\<exists>s. dm_get (receivers b) i = Some s \<and> rs_alive s \<and> rs_queue s \<noteq> [])"

lemma send_news: "attached i b \<Longrightarrow> has_news i (fst (Sender_send v b))"
proof -
  assume "attached i b"
  then obtain s where "senders_alive b" "dm_get (receivers b) i = Some s" "rs_alive s" by (auto simp: attached_def)
  then have "dm_get (receivers (fst (Sender_send v b))) i = Some (send_state (capacity b) v s)"
    "rs_alive (send_state (capacity b) v s)" "rs_queue (send_state (capacity b) v s) \<noteq> []" "senders_alive (fst (Sender_send v b))"
    by (simp_all add: Sender_send_def dm_get_map_snd send_state_def push_bounded_def)
  then show ?thesis by (auto simp: has_news_def)
qed

lemma news_attached: "has_news i b \<Longrightarrow> attached i b"
  by (auto simp: attached_def has_news_def)

lemma copy_pump_news:
  assumes "gated_write set_if_eq" "has_news i b"
  shows "\<exists>b'. pump_poll True False (\<lambda>_. set_if_eq v) i w (b, sig) = (False, b', v)"
  using copy_pump [OF assms(1)] assms(2) by (fastforce simp: has_news_def)

text \<open>
  The signal of \<open>use_query\<close> converges: a pump that is polled after at least one notification for
  its key, or after having missed some, leaves the signal equal to the state read from the cache at
  that moment, and keeps running; with nothing to read it leaves the signal alone. The copied state is
  never an error, loading or refetching one, whatever the fetch has come to.
\<close>

theorem use_query_converges:
  assumes "gated_write set_if_eq"
    and "\<not> uq_pump_done u" and "\<not> uq_stop u"
    and "dm_get (cl_subscribers c) (cache_key (q_key (uq_query u))) = Some b" and "senders_alive b"
    and "dm_get (receivers b) (uq_rx u) = Some s" and "rs_alive s"
    and "use_query_poll set_if_eq ty now w (u, c) = (u', c')"
  shows "\<not> uq_pump_done u'
   \<and> uq_state u' = (if rs_queue s = [] \<and> rs_missed s = 0 then uq_state u
        else read_query_state ty now (q_key (uq_query u)) (placeholder_value (uq_query u)) c)
   \<and> (rs_queue s \<noteq> [] \<longrightarrow> \<not> QueryState_is_error (uq_state u') \<and> uq_state u' \<noteq> Loading
        \<and> \<not> QueryState_is_refetching (uq_state u'))"
proof -
  let ?v = "read_query_state ty now (q_key (uq_query u)) (placeholder_value (uq_query u)) c"
  obtain b' where "pump_poll True False (\<lambda>_. set_if_eq ?v) (uq_rx u) w (b, uq_state u)
     = (False, b', if rs_queue s = [] \<and> rs_missed s = 0 then uq_state u else ?v)"
    using copy_pump [OF assms(1,6,7,5), of ?v w "uq_state u"] by blast
  then have "\<not> uq_pump_done u'" "uq_state u' = (if rs_queue s = [] \<and> rs_missed s = 0 then uq_state u else ?v)"
    using assms(2,3,4,8) by (auto simp: use_query_poll_def key_bus_def Let_def)
  then show ?thesis by (auto simp: read_query_state_def split: option.splits)
qed

text \<open>
  \<open>use_query\<close> subscribes only after it has spawned the fetch. A result that arrives before the
  subscription is never shown: the new receiver starts empty, so the pump has nothing to read and the
  signal stays as it was created, idle when nothing was cached and no placeholder given, although the
  cache holds the data.
\<close>

theorem use_query_misses_early_result:
  assumes "get_query_data ty (q_key q) (seed_initial peq ty now q c) = None" and "q_placeholder_data q = None"
    and "use_query peq ty now q between c = (u, c1)"
    and "get_query_data ty (q_key q) c1 = Some d"
    and "use_query_poll set_if_eq ty now2 w (u, c1) = (u', c2)"
  shows "uq_state u' = Idle \<and> read_query_state ty now2 (q_key q) (placeholder_value q) c1 \<noteq> Idle"
proof -
  obtain c3 rx where sub: "client_subscribe (cache_key (q_key q)) (between (sp_client (spawn_query_init (seed_initial peq ty now q c)))) = (c3, rx)"
    by fastforce
  have u: "c1 = c3" "uq_rx u = rx" "uq_query u = q" "uq_state u = Idle" "\<not> uq_pump_done u" "\<not> uq_stop u"
    using assms(1,2,3) sub by (auto simp: use_query_def Let_def read_query_state_def placeholder_value_def)
  obtain b where b: "dm_get (cl_subscribers c1) (cache_key (q_key q)) = Some b" "dm_get (receivers b) rx = Some fresh_recv"
    using sub u(1) by (auto simp: client_subscribe_def Sender_subscribe_def Let_def)
  let ?step = "\<lambda>_. set_if_eq (read_query_state ty now2 (q_key q) (placeholder_value q) c1)"
  obtain e b' where "pump_poll True False ?step rx w (b, Idle) = (e, b', Idle)"
    using Recv_poll_pending [OF b(2), of w] Recv_poll_closed [OF b(2), of w]
    by (cases "senders_alive b") (auto simp: pump_poll.simps [of _ _ _ _ _ b] fresh_recv_def)
  then have "use_query_poll set_if_eq ty now2 w (u, c1) = (u\<lparr>uq_state := Idle, uq_pump_done := e\<rparr>,
      c1\<lparr>cl_subscribers := dm_insert (cache_key (q_key q)) b' (cl_subscribers c1)\<rparr>)"
    using u(2-) b(1) by (simp add: use_query_poll_def Let_def key_bus_def)
  then have "uq_state u' = Idle" using assms(5) by auto
  then show ?thesis using assms(4) by (simp add: read_query_state_def)
qed

text \<open>
  The activity hooks stop for good at the first lag: a pump that finds it has missed events ends
  without touching its signal, and no later activity of the client ever changes that signal again.
\<close>

theorem activity_pump_dies_on_lag:
  assumes "\<not> ah_done h" and "dm_get (receivers (cl_activity_tx c)) (ah_rx h) = Some s" and "rs_missed s > 0"
    and "activity_pump_poll set_if_eq recompute w (h, c) = (h', c')"
  shows "ah_done h' \<and> ah_signal h' = ah_signal h
   \<and> (\<forall>c2. activity_pump_poll set_if_eq recompute w (h', c2) = (h', c2))"
proof -
  have "pump_poll False False step (ah_rx h) w (cl_activity_tx c, ah_signal h) =
      (True, (cl_activity_tx c)\<lparr>receivers := dm_insert (ah_rx h) (s\<lparr>rs_missed := 0\<rparr>) (receivers (cl_activity_tx c))\<rparr>, ah_signal h)"
    for step using Recv_poll_lagged [OF assms(2,3), of w] by (subst pump_poll.simps) simp
  then show ?thesis using assms(1,4) by (auto simp: activity_pump_poll_def Let_def)
qed

subsection \<open>The activity feed\<close>

lemma drain_ready_queue: "ready_queue i q b \<Longrightarrow> \<exists>b'. drain_ready i b = (q, b') \<and> ready_queue i [] b'"
proof (induction q arbitrary: b)
  case Nil
  then obtain s where "dm_get (receivers b) i = Some s" "rs_missed s = 0" "rs_queue s = []" "senders_alive b" "rs_alive s"
    by (auto simp: ready_queue_def)
  then show ?case
    by (subst drain_ready.simps) (simp add: recv_defs ready_queue_def)
next
  case (Cons v q)
  then obtain s where s: "dm_get (receivers b) i = Some s" "rs_missed s = 0" "rs_queue s = v # q" "senders_alive b" "rs_alive s"
    by (auto simp: ready_queue_def)
  let ?b = "b\<lparr>receivers := dm_insert i (s\<lparr>rs_queue := q\<rparr>) (receivers b)\<rparr>"
  have "try_recv i b = (Inr v, ?b)" using s by (simp add: recv_defs)
  moreover have "ready_queue i q ?b" using s by (simp add: ready_queue_def)
  ultimately show ?case using Cons.IH [of ?b] by (subst drain_ready.simps) auto
qed

lemma feed_push_eq: "feed_push = (\<lambda>e xs. push_bounded ACTIVITY_FEED_CAPACITY xs e)"
  by (simp add: feed_push_def push_capped_eq ACTIVITY_FEED_CAPACITY_def fun_eq_iff)

lemma length_fold_push:
  "cap \<le> length xs \<Longrightarrow> 0 < cap \<Longrightarrow> length (fold (\<lambda>e xs. push_bounded cap xs e) es xs) = length xs"
  by (induction es arbitrary: xs) (simp_all add: push_bounded_def)

lemma length_fold_push_le:
  "0 < cap \<Longrightarrow> length xs \<le> cap \<Longrightarrow> length (fold (\<lambda>e xs. push_bounded cap xs e) es xs) \<le> cap"
  by (induction es arbitrary: xs) (simp_all add: length_push_bounded)

text \<open>
  The activity feed starts with everything that is queued and is only bounded from there: a
  receiver with more than \<open>ACTIVITY_FEED_CAPACITY\<close> events fills the signal with all of them, and since
  each further event replaces just the oldest one, the signal keeps that length for ever. With no more
  than the capacity queued the bound holds for good.
\<close>

theorem activity_feed_length:
  assumes "ready_queue rx q b" and "use_activity_feed rx b = (h, b1)"
  shows "ah_signal h = q
   \<and> (\<forall>es b2 h' b3. ready_queue rx es b2 \<longrightarrow> activity_feed_poll w (h, b2) = (h', b3) \<longrightarrow>
        (if ACTIVITY_FEED_CAPACITY \<le> length q then length (ah_signal h') = length q
         else length (ah_signal h') \<le> ACTIVITY_FEED_CAPACITY))"
proof (intro conjI allI impI)
  have h: "h = \<lparr>ah_signal = q, ah_rx = rx, ah_done = False\<rparr>"
    using drain_ready_queue [OF assms(1)] assms(2) by (auto simp: use_activity_feed_def)
  then show "ah_signal h = q" by simp
  fix es b2 h' b3
  assume rq: "ready_queue rx es b2" and poll: "activity_feed_poll w (h, b2) = (h', b3)"
  let ?step = "\<lambda>ev buffer. case ev of Some e \<Rightarrow> feed_push e buffer | None \<Rightarrow> buffer"
  obtain b4 where "pump_poll False False ?step rx w (b2, q)
     = (False, b4, fold feed_push es q)"
    using pump_drains [OF rq, of False ?step w q] by auto
  then have "ah_signal h' = fold feed_push es q"
    using poll by (auto simp: h activity_feed_poll_def Let_def)
  then show "if ACTIVITY_FEED_CAPACITY \<le> length q then length (ah_signal h') = length q
         else length (ah_signal h') \<le> ACTIVITY_FEED_CAPACITY"
    by (simp add: feed_push_eq length_fold_push length_fold_push_le ACTIVITY_FEED_CAPACITY_def)
qed

subsection \<open>The mutation binding\<close>

text \<open>
  The signal of \<open>use_mutation\<close> is not the observer's state. Submitting a mutation leaves it as it
  is, so it never shows loading. A reset that nothing falls into sets it to idle, but an execution that
  settles afterwards overwrites it with its outcome, although the observer itself stays idle as it should.
\<close>

theorem use_mutation_signal_diverges:
  assumes "um_mutate u = (u1, g)"
  shows "um_state u1 = um_state u \<and> current_result (um_observer u1) = MLoading
   \<and> um_state (um_settle g between r (um_reset (\<lambda>ob. ob) u1)) = settled_state r
   \<and> current_result (um_observer (um_settle g between r (um_reset (\<lambda>ob. ob) u1))) = MIdle"
  using assms by (auto simp: um_mutate_def mutate_submit_def um_settle_def um_reset_def mutate_settle_def mo_reset_def
      settle_check_def reset_bump_def reset_write_def current_result_def Let_def)

subsection \<open>Witnesses\<close>

theorem use_mutation_signal_diverges_witness:
  "um_state (fst (um_mutate (use_mutation :: nat use_mutation_handle))) = MIdle"
  using use_mutation_signal_diverges [OF prod.collapse [symmetric], of "use_mutation :: nat use_mutation_handle" "\<lambda>ob. ob" "Inr 0"]
  by (simp add: use_mutation_def)

definition demo_feed_bus :: "nat bus" where
  "demo_feed_bus = (fst (Sender_channel 256))\<lparr>receivers := [(0, fresh_recv\<lparr>rs_queue := [0..<150]\<rparr>)]\<rparr>"

theorem activity_feed_length_witness:
  "length (ah_signal (fst (use_activity_feed 0 demo_feed_bus))) = 150"
proof -
  have "ready_queue 0 [0..<150] demo_feed_bus"
    by (simp add: demo_feed_bus_def ready_queue_def Sender_channel_def dm_get_def fresh_recv_def)
  then show ?thesis
    using activity_feed_length [of 0 "[0..<150]" demo_feed_bus, OF _ prod.collapse [symmetric]] by simp
qed

theorem activity_pump_dies_on_lag_witness:
  "ah_done (fst (activity_pump_poll (\<lambda>new old. new) is_fetching 0 (\<lparr>ah_signal = False, ah_rx = 0, ah_done = False\<rparr>,
     (QueryClient_new :: nat client)\<lparr>cl_activity_tx := (fst (Sender_channel 4))\<lparr>receivers := [(0, fresh_recv\<lparr>rs_missed := 2\<rparr>)]\<rparr>\<rparr>)))"
  using activity_pump_dies_on_lag [of "\<lparr>ah_signal = False, ah_rx = 0, ah_done = False\<rparr>"
      "(QueryClient_new :: nat client)\<lparr>cl_activity_tx := (fst (Sender_channel 4))\<lparr>receivers := [(0, fresh_recv\<lparr>rs_missed := 2\<rparr>)]\<rparr>\<rparr>"
      "fresh_recv\<lparr>rs_missed := 2\<rparr>" "\<lambda>new old. new" is_fetching 0, OF _ _ _ prod.collapse [symmetric]]
  by (simp add: dm_get_def)

definition demo_uq_client :: "nat client" where
  "demo_uq_client = (set_query_data (=) 0 (QueryKey_new ''t'') (StrV ''hello'') QueryOptions_default QueryClient_new)
     \<lparr>cl_subscribers := [(''t'', (fst (Sender_channel 4))\<lparr>receivers :=
         [(0, fresh_recv\<lparr>rs_queue := [\<lparr>su_key = ''t'', su_variant = V_Success\<rparr>]\<rparr>)]\<rparr>)]\<rparr>"

theorem use_query_converges_witness:
  "uq_state (fst (use_query_poll (\<lambda>new old. if old = new then old else new) T_String 0 0 (\<lparr>uq_state = Idle, uq_query = Query_new (QueryKey_new ''t''), uq_rx = 0,
     uq_stop = False, uq_pump_done = False\<rparr>, demo_uq_client)))
   = read_query_state T_String 0 (QueryKey_new ''t'') None demo_uq_client"
proof -
  let ?u = "\<lparr>uq_state = Idle, uq_query = Query_new (QueryKey_new ''t''), uq_rx = 0, uq_stop = False, uq_pump_done = False\<rparr> :: nat use_query_handle"
  let ?b = "(fst (Sender_channel 4))\<lparr>receivers :=
         [(0, fresh_recv\<lparr>rs_queue := [\<lparr>su_key = ''t'', su_variant = V_Success\<rparr>]\<rparr>)]\<rparr>"
  have "dm_get (cl_subscribers demo_uq_client) ''t'' = Some ?b" by (simp add: demo_uq_client_def dm_get_def)
  moreover have "gated_write (\<lambda>(new :: nat dynval query_state) old. if old = new then old else new)"
    by (auto simp: gated_write_def)
  ultimately show ?thesis
    using use_query_converges [of "\<lambda>new old. if old = new then old else new" ?u demo_uq_client ?b "fresh_recv\<lparr>rs_queue := [\<lparr>su_key = ''t'', su_variant = V_Success\<rparr>]\<rparr>"
        T_String 0 0, OF _ _ _ _ _ _ _ prod.collapse [symmetric]]
    by (simp add: Query_new_def QueryKey_new_def Sender_channel_def dm_get_def fresh_recv_def placeholder_value_def)
qed

theorem use_query_misses_early_result_witness:
  "\<exists>u c1. use_query (=) T_String 0 (Query_new (QueryKey_new ''t''))
       (set_query_data (=) 0 (QueryKey_new ''t'') (StrV ''hello'') QueryOptions_default) (QueryClient_new :: nat client) = (u, c1)
   \<and> uq_state (fst (use_query_poll (\<lambda>new old. if old = new then old else new) T_String 1 0 (u, c1))) = Idle"
proof -
  let ?q = "Query_new (QueryKey_new ''t'') :: nat query"
  let ?f = "set_query_data (=) 0 (QueryKey_new ''t'') (StrV ''hello'') QueryOptions_default"
  obtain u c1 where u: "use_query (=) T_String 0 ?q ?f (QueryClient_new :: nat client) = (u, c1)" by fastforce
  have seed: "seed_initial (=) T_String 0 ?q QueryClient_new = QueryClient_new"
    by (simp add: seed_initial_def Query_new_def split: option.split)
  have none: "get_query_data T_String (q_key ?q) (QueryClient_new :: nat client) = None"
    by (simp add: get_query_data_def QueryClient_new_def)
  have "get_query_data T_String (q_key ?q) c1 = get_query_data T_String (q_key ?q) (?f (sp_client (spawn_query_init QueryClient_new)))"
    using u by (auto simp: use_query_def seed Let_def client_subscribe_def get_query_data_def split: prod.splits)
  then obtain d where "get_query_data T_String (q_key ?q) c1 = Some d"
    using set_query_data_read [of "StrV ''hello''" "QueryKey_new ''t''" "(=)" 0 QueryOptions_default
        "sp_client (spawn_query_init QueryClient_new) :: nat client"] by (auto simp: Query_new_def)
  then have "uq_state (fst (use_query_poll (\<lambda>new old. if old = new then old else new) T_String 1 0 (u, c1))) = Idle"
    using use_query_misses_early_result [OF _ _ u _ prod.collapse [symmetric]] none seed by (simp add: Query_new_def)
  then show ?thesis using u by blast
qed

end
