(* ===== verification/Runtime.thy ===== *)
theory Runtime
  imports Prelude
begin

text \<open>
  \<open>src/runtime.rs\<close>: the handles of spawned tasks. A \<open>SpawnHandle\<close> aborts or watches a task, a
  \<open>SpawnedTask\<close> also carries its result. Both end in one-shot channels of the \<open>futures\<close> crate, which are
  the parameter \<open>os\<close>: polling a receiver and trying it without blocking. What the handles rely on is
  \<open>oneshot_ok\<close>, over a view of the channel as waiting, holding a value, or gone (received, or its sender
  dropped). The abort closure is counted, not run: the executors that run tasks are outside the crate.
\<close>

subsection \<open>One-shot channels\<close>

datatype 'o rx_poll = RxPending | RxReady 'o | RxCanceled

datatype 'o rx_try = TrySome 'o | TryNone | TryCanceled

record ('c, 'o) oneshot =
  os_poll :: "'c \<Rightarrow> 'o rx_poll \<times> 'c"
  os_try_recv :: "'c \<Rightarrow> 'o rx_try \<times> 'c"

datatype 'o rx_view = Waiting | Holds 'o | Gone

fun view_poll :: "'o rx_view \<Rightarrow> 'o rx_poll \<times> 'o rx_view" where
  "view_poll Waiting = (RxPending, Waiting)"
| "view_poll (Holds v) = (RxReady v, Gone)"
| "view_poll Gone = (RxCanceled, Gone)"

fun view_try :: "'o rx_view \<Rightarrow> 'o rx_try \<times> 'o rx_view" where
  "view_try Waiting = (TryNone, Waiting)"
| "view_try (Holds v) = (TrySome v, Gone)"
| "view_try Gone = (TryCanceled, Gone)"

definition oneshot_ok :: "('c \<Rightarrow> 'o rx_view) \<Rightarrow> ('c, 'o) oneshot \<Rightarrow> bool" where
  "oneshot_ok view os \<longleftrightarrow>
     (\<forall>c. map_prod id view (os_poll os c) = view_poll (view c)
        \<and> map_prod id view (os_try_recv os c) = view_try (view c))"

subsection \<open>\<open>SpawnHandle\<close>\<close>

record 'c spawn_handle =
  sh_rx :: "'c option"
  sh_detached :: bool
  sh_finished :: bool
  sh_aborts :: nat

definition SpawnHandle_new :: "'c \<Rightarrow> 'c spawn_handle" where
  "SpawnHandle_new rx = \<lparr>sh_rx = Some rx, sh_detached = False, sh_finished = False, sh_aborts = 0\<rparr>"

definition SpawnHandle_abort :: "'c spawn_handle \<Rightarrow> 'c spawn_handle" where
  "SpawnHandle_abort h = h\<lparr>sh_aborts := sh_aborts h + 1\<rparr>"

definition SpawnHandle_detach :: "'c spawn_handle \<Rightarrow> 'c spawn_handle" where
  "SpawnHandle_detach h = h\<lparr>sh_detached := True\<rparr>"

definition is_detached :: "'c spawn_handle \<Rightarrow> bool" where
  "is_detached h = sh_detached h"

definition is_finished :: "('c, unit) oneshot \<Rightarrow> 'c spawn_handle \<Rightarrow> bool \<times> 'c spawn_handle" where
  "is_finished os h =
     (if sh_finished h then (True, h)
      else case sh_rx h of
        None \<Rightarrow> (False, h)
      | Some rx \<Rightarrow>
          (case os_try_recv os rx of
             (TrySome u, rx') \<Rightarrow> (True, h\<lparr>sh_rx := Some rx', sh_finished := True\<rparr>)
           | (_, rx') \<Rightarrow> (False, h\<lparr>sh_rx := Some rx'\<rparr>)))"

definition SpawnHandle_poll :: "('c, unit) oneshot \<Rightarrow> 'c spawn_handle \<Rightarrow> unit rx_poll \<times> 'c spawn_handle" where
  "SpawnHandle_poll os h =
     (case sh_rx h of
        Some rx \<Rightarrow> (let (r, rx') = os_poll os rx in (r, h\<lparr>sh_rx := Some rx'\<rparr>))
      | None \<Rightarrow> (RxCanceled, h))"

subsection \<open>\<open>SpawnedTask\<close>\<close>

record ('c, 'd, 'o) task_handle =
  st_handle :: "'c spawn_handle"
  st_rx :: "'d option"
  st_fallback :: 'o

definition SpawnedTask_new :: "'c spawn_handle \<Rightarrow> 'd \<Rightarrow> 'o \<Rightarrow> ('c, 'd, 'o) task_handle" where
  "SpawnedTask_new handle rx fallback = \<lparr>st_handle = handle, st_rx = Some rx, st_fallback = fallback\<rparr>"

definition SpawnedTask_abort :: "('c, 'd, 'o) task_handle \<Rightarrow> ('c, 'd, 'o) task_handle" where
  "SpawnedTask_abort t = t\<lparr>st_handle := SpawnHandle_abort (st_handle t)\<rparr>"

definition SpawnedTask_detach :: "('c, 'd, 'o) task_handle \<Rightarrow> ('c, 'd, 'o) task_handle" where
  "SpawnedTask_detach t = t\<lparr>st_handle := SpawnHandle_detach (st_handle t)\<rparr>"

text \<open>\<open>None\<close> is \<open>Poll::Pending\<close>.\<close>

definition SpawnedTask_poll ::
  "('d, 'o) oneshot \<Rightarrow> ('c, 'd, 'o) task_handle \<Rightarrow> 'o option \<times> ('c, 'd, 'o) task_handle" where
  "SpawnedTask_poll os t =
     (let t1 = t\<lparr>st_handle := SpawnHandle_detach (st_handle t)\<rparr> in
      case st_rx t1 of
        Some rx \<Rightarrow>
          (case os_poll os rx of
             (RxReady v, rx') \<Rightarrow> (Some v, t1\<lparr>st_rx := Some rx'\<rparr>)
           | (RxCanceled, rx') \<Rightarrow> (Some (st_fallback t1), t1\<lparr>st_rx := None\<rparr>)
           | (RxPending, rx') \<Rightarrow> (None, t1\<lparr>st_rx := Some rx'\<rparr>))
      | None \<Rightarrow> (Some (st_fallback t1), t1))"

definition SpawnedTask_drop :: "('c, 'd, 'o) task_handle \<Rightarrow> ('c, 'd, 'o) task_handle" where
  "SpawnedTask_drop t =
     (if is_detached (st_handle t) then t else t\<lparr>st_handle := SpawnHandle_abort (st_handle t)\<rparr>)"

subsection \<open>A task handle over time\<close>

text \<open>What the owner does with a task, and what happens to its channel in between.\<close>

datatype 'd task_event = EvPoll | EvAbort | EvDetach | EvChannel "'d \<Rightarrow> 'd"

fun task_step ::
  "('d, 'o) oneshot \<Rightarrow> 'd task_event \<Rightarrow> ('c, 'd, 'o) task_handle
   \<Rightarrow> 'o option list \<times> ('c, 'd, 'o) task_handle" where
  "task_step os EvPoll t = ([fst (SpawnedTask_poll os t)], snd (SpawnedTask_poll os t))"
| "task_step os EvAbort t = ([], SpawnedTask_abort t)"
| "task_step os EvDetach t = ([], SpawnedTask_detach t)"
| "task_step os (EvChannel f) t = ([], t\<lparr>st_rx := map_option f (st_rx t)\<rparr>)"

fun task_run ::
  "('d, 'o) oneshot \<Rightarrow> 'd task_event list \<Rightarrow> ('c, 'd, 'o) task_handle
   \<Rightarrow> 'o option list \<times> ('c, 'd, 'o) task_handle" where
  "task_run os [] t = ([], t)"
| "task_run os (e # es) t =
     (let r = task_step os e t; rest = task_run os es (snd r) in (fst r @ fst rest, snd rest))"

text \<open>The channel only moves forward: the task may send or go while nothing is there, never take back.\<close>

definition channel_forward :: "('d \<Rightarrow> 'o rx_view) \<Rightarrow> 'd task_event \<Rightarrow> bool" where
  "channel_forward view e \<longleftrightarrow>
     (case e of EvChannel f \<Rightarrow> (\<forall>c. view c \<noteq> Waiting \<longrightarrow> view (f c) = view c) | _ \<Rightarrow> True)"

definition task_view :: "('d \<Rightarrow> 'o rx_view) \<Rightarrow> ('c, 'd, 'o) task_handle \<Rightarrow> 'o rx_view" where
  "task_view view t = (case st_rx t of None \<Rightarrow> Gone | Some c \<Rightarrow> view c)"

lemma oneshot_okD:
  assumes "oneshot_ok view os"
  shows "view c = Waiting \<Longrightarrow> fst (os_poll os c) = RxPending \<and> view (snd (os_poll os c)) = Waiting"
    "view c = Holds v \<Longrightarrow> fst (os_poll os c) = RxReady v \<and> view (snd (os_poll os c)) = Gone"
    "view c = Gone \<Longrightarrow> fst (os_poll os c) = RxCanceled \<and> view (snd (os_poll os c)) = Gone"
    "view c = Holds v \<Longrightarrow> fst (os_try_recv os c) = TrySome v \<and> view (snd (os_try_recv os c)) = Gone"
  using assms [unfolded oneshot_ok_def, rule_format, of c]
  by (cases "os_poll os c"; cases "os_try_recv os c"; simp)+

lemma SpawnedTask_poll_view:
  assumes "oneshot_ok view os"
  shows "task_view view t = Waiting \<Longrightarrow>
      fst (SpawnedTask_poll os t) = None \<and> task_view view (snd (SpawnedTask_poll os t)) = Waiting"
    "task_view view t = Holds v \<Longrightarrow>
      fst (SpawnedTask_poll os t) = Some v \<and> task_view view (snd (SpawnedTask_poll os t)) = Gone"
    "task_view view t = Gone \<Longrightarrow>
      fst (SpawnedTask_poll os t) = Some (st_fallback t) \<and> task_view view (snd (SpawnedTask_poll os t)) = Gone"
    "st_fallback (snd (SpawnedTask_poll os t)) = st_fallback t"
    "is_detached (st_handle (snd (SpawnedTask_poll os t)))"
    "sh_aborts (st_handle (snd (SpawnedTask_poll os t))) = sh_aborts (st_handle t)"
  using oneshot_okD [OF assms, of "the (st_rx t)"]
  by (auto simp: SpawnedTask_poll_def task_view_def Let_def SpawnHandle_detach_def is_detached_def
      split: option.splits rx_poll.splits prod.splits)

lemma task_step_other:
  assumes "e \<noteq> EvPoll"
  shows "fst (task_step os e t) = []" "st_fallback (snd (task_step os e t)) = st_fallback t"
    "channel_forward view e \<Longrightarrow> task_view view t \<noteq> Waiting \<Longrightarrow>
       task_view view (snd (task_step os e t)) = task_view view t"
  using assms
  by (cases e; auto simp: task_view_def channel_forward_def SpawnedTask_abort_def SpawnedTask_detach_def split: option.splits)+

lemma task_run_gone:
  assumes "oneshot_ok view os"
  shows "list_all (channel_forward view) es \<Longrightarrow> task_view view t = Gone \<Longrightarrow>
   \<exists>m. fst (task_run os es t) = replicate m (Some (st_fallback t))"
proof (induction es arbitrary: t)
  case (Cons e es)
  show ?case
  proof (cases "e = EvPoll")
    case True
    note p = SpawnedTask_poll_view(3,4) [OF assms, of t]
    obtain m where "fst (task_run os es (snd (SpawnedTask_poll os t))) = replicate m (Some (st_fallback t))"
      using Cons p by fastforce
    then have "fst (task_run os (e # es) t) = replicate (Suc m) (Some (st_fallback t))"
      using True p(1) [OF Cons.prems(2)] by (simp add: Let_def split: prod.splits)
    then show ?thesis by blast
  next
    case False
    then show ?thesis using Cons.IH [of "snd (task_step os e t)"] Cons.prems task_step_other(1,2) [OF False, of os t]
        task_step_other(3) [OF False, of view t os] by (simp add: Let_def)
  qed
qed simp

lemma task_run_holds:
  assumes "oneshot_ok view os"
  shows "list_all (channel_forward view) es \<Longrightarrow> task_view view t = Holds v \<Longrightarrow>
   fst (task_run os es t) = [] \<or> (\<exists>m. fst (task_run os es t) = Some v # replicate m (Some (st_fallback t)))"
proof (induction es arbitrary: t)
  case (Cons e es)
  show ?case
  proof (cases "e = EvPoll")
    case True
    note p = SpawnedTask_poll_view(2,4) [OF assms, of t]
    obtain m where "fst (task_run os es (snd (SpawnedTask_poll os t))) = replicate m (Some (st_fallback t))"
      using task_run_gone [OF assms, of es "snd (SpawnedTask_poll os t)"] Cons.prems p by fastforce
    then show ?thesis using True p(1) [OF Cons.prems(2)] by (simp add: Let_def split: prod.splits)
  next
    case False
    then show ?thesis using Cons.IH [of "snd (task_step os e t)"] Cons.prems task_step_other(1,2) [OF False, of os t]
        task_step_other(3) [OF False, of view t os] by (simp add: Let_def)
  qed
qed simp

text \<open>The result of a task, as its owner sees it: pending, then one answer, then only the fallback.\<close>

definition answers :: "'o \<Rightarrow> 'o option list \<Rightarrow> bool" where
  "answers fallback outs \<longleftrightarrow>
     (\<exists>n. outs = replicate n None) \<or>
     (\<exists>n v m. outs = replicate n None @ Some v # replicate m (Some fallback))"

lemma answers_None: "answers fallback outs \<Longrightarrow> answers fallback (None # outs)"
  unfolding answers_def by (metis append_Cons replicate_Suc)

lemma answers_settled:
  "answers fallback (replicate m (Some fallback))" "answers fallback (Some v # replicate m (Some fallback))"
proof -
  show *: "answers fallback (Some v # replicate m (Some fallback))" for v m
    unfolding answers_def by (rule disjI2, rule exI [of _ 0], rule exI [of _ v], rule exI [of _ m]) simp
  show "answers fallback (replicate m (Some fallback))"
    using * [of fallback] by (cases m) (auto simp: answers_def [of _ "[]"])
qed

lemma task_run_answers:
  assumes "oneshot_ok view os"
  shows "list_all (channel_forward view) es \<Longrightarrow> answers (st_fallback t) (fst (task_run os es t))"
proof (induction es arbitrary: t)
  case Nil
  then show ?case by (simp add: answers_def)
next
  case (Cons e es)
  note p = SpawnedTask_poll_view [OF assms, of t]
  show ?case
  proof (cases "task_view view t")
    case Waiting
    then show ?thesis
      using Cons.IH [of "snd (task_step os e t)"] Cons.prems p(1,4) task_step_other(1,2) [of e os t]
      by (cases "e = EvPoll") (auto simp: Let_def intro: answers_None split: prod.splits)
  next
    case (Holds v)
    then show ?thesis using task_run_holds [OF assms Cons.prems Holds] answers_settled
      by (metis replicate_0)
  next
    case Gone
    then show ?thesis using task_run_gone [OF assms Cons.prems Gone] answers_settled(1) by metis
  qed
qed

lemma task_step_handle:
  "sh_aborts (st_handle (snd (task_step os e t))) = sh_aborts (st_handle t) + (if e = EvAbort then 1 else 0)"
  "is_detached (st_handle (snd (task_step os e t))) \<longleftrightarrow> is_detached (st_handle t) \<or> e = EvPoll \<or> e = EvDetach"
  by (cases e; auto simp: SpawnedTask_poll_def SpawnedTask_abort_def SpawnedTask_detach_def SpawnHandle_abort_def
      SpawnHandle_detach_def is_detached_def Let_def split: option.splits rx_poll.splits prod.splits)+

lemma task_run_handle:
  "sh_aborts (st_handle (snd (task_run os es t))) = sh_aborts (st_handle t) + length (filter ((=) EvAbort) es)
   \<and> (is_detached (st_handle (snd (task_run os es t)))
       \<longleftrightarrow> is_detached (st_handle t) \<or> EvPoll \<in> set es \<or> EvDetach \<in> set es)"
  by (induction es arbitrary: t) (auto simp: Let_def task_step_handle)

text \<open>
  A task handle over any history of polls, aborts and detaches, with the task sending or ending
  at any point in between. The polls answer pending, then once with the outcome, then only with the
  fallback. Dropping the handle at the end aborts the task exactly when it was neither polled nor
  detached, and nothing but an explicit abort aborts it before.
\<close>

theorem spawned_task_protocol:
  assumes "oneshot_ok view os" and "list_all (channel_forward view) es"
    and "task_run os es (SpawnedTask_new (SpawnHandle_new rx) c fallback) = (outs, t)"
  shows "answers fallback outs
   \<and> sh_aborts (st_handle (SpawnedTask_drop t)) =
       length (filter ((=) EvAbort) es) + (if EvPoll \<in> set es \<or> EvDetach \<in> set es then 0 else 1)"
proof -
  let ?t = "SpawnedTask_new (SpawnHandle_new rx) c fallback"
  have "answers fallback outs" using task_run_answers [OF assms(1,2), of ?t] assms(3) by (simp add: SpawnedTask_new_def)
  moreover have "sh_aborts (st_handle t) = length (filter ((=) EvAbort) es)"
    "is_detached (st_handle t) \<longleftrightarrow> EvPoll \<in> set es \<or> EvDetach \<in> set es"
    using task_run_handle [of os es ?t] assms(3)
    by (simp_all add: SpawnedTask_new_def SpawnHandle_new_def is_detached_def)
  ultimately show ?thesis by (simp add: SpawnedTask_drop_def SpawnHandle_abort_def)
qed

text \<open>
  Detaching does not give up the result: a task that has sent its value still answers with that
  value when its detached handle is polled. The fallback comes only after that.
\<close>

theorem detached_task_still_answers:
  assumes "oneshot_ok view os" and "view c = Holds v"
  shows "fst (SpawnedTask_poll os (SpawnedTask_detach (SpawnedTask_new h c fallback))) = Some v"
  using SpawnedTask_poll_view(2) [OF assms(1), of "SpawnedTask_detach (SpawnedTask_new h c fallback)" v] assms(2)
  by (simp add: task_view_def SpawnedTask_detach_def SpawnedTask_new_def)

text \<open>
  Asking a handle whether its task has finished consumes the completion: it keeps saying so, but
  awaiting the handle afterwards reports the task as cancelled, although it ran to the end; without the
  question the same await succeeds.
\<close>

theorem is_finished_consumes:
  assumes "oneshot_ok view os" and "view rx = Holds ()"
    and "is_finished os (SpawnHandle_new rx) = (finished, h)"
  shows "finished \<and> fst (is_finished os h) \<and> fst (SpawnHandle_poll os h) = RxCanceled
   \<and> fst (SpawnHandle_poll os (SpawnHandle_new rx)) = RxReady ()"
proof -
  obtain rx' where taken: "os_try_recv os rx = (TrySome (), rx')" "view rx' = Gone"
    using oneshot_okD(4) [OF assms(1,2)] by (metis prod.collapse)
  then have "finished" "h = (SpawnHandle_new rx)\<lparr>sh_rx := Some rx', sh_finished := True\<rparr>"
    using assms(3) by (auto simp: is_finished_def SpawnHandle_new_def)
  then show ?thesis
    using oneshot_okD(3) [OF assms(1) taken(2)] oneshot_okD(2) [OF assms(1,2)]
    by (auto simp: is_finished_def SpawnHandle_poll_def SpawnHandle_new_def Let_def split: prod.splits)
qed

subsection \<open>Witnesses\<close>

definition demo_oneshot :: "('o rx_view, 'o) oneshot" where
  "demo_oneshot = \<lparr>os_poll = view_poll, os_try_recv = view_try\<rparr>"

lemma demo_oneshot_ok: "oneshot_ok (\<lambda>c. c) demo_oneshot"
  by (simp add: oneshot_ok_def demo_oneshot_def map_prod_def split_beta)

definition demo_events :: "nat rx_view task_event list" where
  "demo_events = [EvPoll, EvChannel (\<lambda>c. if c = Waiting then Holds 7 else c), EvPoll, EvPoll]"

theorem spawned_task_protocol_witness:
  "fst (task_run demo_oneshot demo_events (SpawnedTask_new (SpawnHandle_new ()) Waiting 0)) = [None, Some 7, Some 0]
   \<and> answers 0 [None, Some 7, Some (0 :: nat)]"
proof -
  have run: "fst (task_run demo_oneshot demo_events (SpawnedTask_new (SpawnHandle_new ()) Waiting 0)) = [None, Some 7, Some 0]"
    by (simp add: demo_events_def demo_oneshot_def SpawnedTask_new_def SpawnedTask_poll_def Let_def)
  have "list_all (channel_forward (\<lambda>c. c)) demo_events" by (simp add: demo_events_def channel_forward_def)
  from spawned_task_protocol [OF demo_oneshot_ok this prod.collapse [symmetric], where rx = "()" and c = Waiting and fallback = 0] run
  show ?thesis by simp
qed

theorem detached_task_still_answers_witness:
  "fst (SpawnedTask_poll demo_oneshot (SpawnedTask_detach (SpawnedTask_new (SpawnHandle_new ()) (Holds (7 :: nat)) 0))) = Some 7"
  by (rule detached_task_still_answers [OF demo_oneshot_ok refl])

theorem is_finished_consumes_witness:
  "fst (SpawnHandle_poll demo_oneshot (snd (is_finished demo_oneshot (SpawnHandle_new (Holds ()))))) = RxCanceled"
  using is_finished_consumes [OF demo_oneshot_ok refl prod.collapse [symmetric]] by blast

end
