(* ===== verification/Task_Runtime.thy ===== *)
theory Task_Runtime
  imports Runtime
begin

text \<open>
  The runtimes of \<open>src/runtime.rs\<close> (\<open>PoolRuntime\<close>, \<open>ExecutorRuntime\<close>) and the tasks they run. A runtime
  wraps a future so that it can be aborted and reports its end on a one-shot channel; the functions of
  the crate that return a \<open>SpawnedTask\<close> wrap theirs once more, so that it sends its result on a second
  channel. The worker pool or executor behind a runtime is the sequence of polls it gives a task.

  Of the \<open>futures\<close> crate the model takes the channels (\<open>oneshot_lib\<close>) and the abort pair (\<open>abort_lib\<close>)
  as parameters; \<open>channel_ok\<close> and \<open>abort_ok\<close> are what their documentation promises: a value is held
  until received, a dropped sender cancels, an aborted future is not polled any more.
\<close>

subsection \<open>The libraries\<close>

record ('c, 'o) oneshot_lib =
  ol_rx :: "('c, 'o) oneshot"
  ol_channel :: 'c
  ol_send :: "'o \<Rightarrow> 'c \<Rightarrow> 'c"
  ol_drop_sender :: "'c \<Rightarrow> 'c"

definition channel_ok :: "('c \<Rightarrow> 'o rx_view) \<Rightarrow> ('c, 'o) oneshot_lib \<Rightarrow> bool" where
  "channel_ok view L \<longleftrightarrow> oneshot_ok view (ol_rx L) \<and> view (ol_channel L) = Waiting
     \<and> (\<forall>c v. view (ol_send L v c) = (if view c = Waiting then Holds v else view c))
     \<and> (\<forall>c. view (ol_drop_sender L c) = (if view c = Waiting then Gone else view c))"

record 'h abort_lib =
  al_new :: 'h
  al_abort :: "'h \<Rightarrow> 'h"
  al_aborted :: "'h \<Rightarrow> bool"

definition abort_ok :: "'h abort_lib \<Rightarrow> bool" where
  "abort_ok A \<longleftrightarrow> \<not> al_aborted A (al_new A) \<and> (\<forall>h. al_aborted A (al_abort A h))"

text \<open>A future: one poll, on the state it owns or shares, and what dropping it unfinished does there.\<close>

record ('w, 'o) future =
  fu_poll :: "'w \<Rightarrow> 'o option \<times> 'w"
  fu_drop :: "'w \<Rightarrow> 'w"

subsection \<open>Spawning on a runtime\<close>

text \<open>A task in a runtime: whether its future still exists, its abort pair, and the handle of its
  spawner, through which both share the completion channel.\<close>

record ('h, 'c) pool_task =
  pt_live :: bool
  pt_abort :: 'h
  pt_handle :: "'c spawn_handle"

definition on_rx :: "('c \<Rightarrow> 'c) \<Rightarrow> 'c spawn_handle \<Rightarrow> 'c spawn_handle" where
  "on_rx f h = h\<lparr>sh_rx := map_option f (sh_rx h)\<rparr>"

definition PoolRuntime_spawn :: "'h abort_lib \<Rightarrow> ('c, unit) oneshot_lib \<Rightarrow> ('h, 'c) pool_task" where
  "PoolRuntime_spawn A L =
     \<lparr>pt_live = True, pt_abort = al_new A, pt_handle = SpawnHandle_new (ol_channel L)\<rparr>"

text \<open>The executor's own handle is detached at once, so that nothing but the abort pair can end the task.\<close>

definition ExecutorRuntime_spawn :: "'h abort_lib \<Rightarrow> ('c, unit) oneshot_lib \<Rightarrow> ('h, 'c) pool_task" where
  "ExecutorRuntime_spawn A L =
     (let rx = ol_channel L; pair = al_new A
      in \<lparr>pt_live = True, pt_abort = pair, pt_handle = SpawnHandle_new rx\<rparr>)"

text \<open>One poll of the wrapped future by the worker that runs it.\<close>

definition pool_poll ::
  "'h abort_lib \<Rightarrow> ('c, unit) oneshot_lib \<Rightarrow> ('w, unit) future
   \<Rightarrow> ('h, 'c) pool_task \<times> 'w \<Rightarrow> ('h, 'c) pool_task \<times> 'w" where
  "pool_poll A L fu pw =
     (let (p, w) = pw in
      if \<not> pt_live p then (p, w)
      else if al_aborted A (pt_abort p)
      then (p\<lparr>pt_live := False, pt_handle := on_rx (ol_drop_sender L) (pt_handle p)\<rparr>, fu_drop fu w)
      else case fu_poll fu w of
        (None, w') \<Rightarrow> (p, w')
      | (Some _, w') \<Rightarrow> (p\<lparr>pt_live := False, pt_handle := on_rx (ol_send L ()) (pt_handle p)\<rparr>, w'))"

text \<open>The future of a task that sends its result: the async blocks of \<open>spawn_query\<close>, \<open>spawn_mutation\<close> and
  \<open>mutate\<close>. The channel is missing once its receiver has been given up.\<close>

definition result_future :: "('d, 'o) oneshot_lib \<Rightarrow> ('w, 'o) future \<Rightarrow> ('w \<times> 'd option, unit) future" where
  "result_future M fu =
     \<lparr>fu_poll = (\<lambda>(w, d). case fu_poll fu w of
          (None, w') \<Rightarrow> (None, (w', d))
        | (Some v, w') \<Rightarrow> (Some (), (w', map_option (ol_send M v) d))),
      fu_drop = (\<lambda>(w, d). (fu_drop fu w, map_option (ol_drop_sender M) d))\<rparr>"

subsection \<open>The owner of a spawned task\<close>

definition owned_task :: "'o \<Rightarrow> ('h, 'c) pool_task \<Rightarrow> 'd option \<Rightarrow> ('c, 'd, 'o) task_handle" where
  "owned_task fallback p d = \<lparr>st_handle = pt_handle p, st_rx = d, st_fallback = fallback\<rparr>"

text \<open>An operation of the owner on its \<open>SpawnedTask\<close>; each call of the abort closure reaches the pair.\<close>

definition own ::
  "'h abort_lib \<Rightarrow> 'o \<Rightarrow> (('c, 'd, 'o) task_handle \<Rightarrow> 'r \<times> ('c, 'd, 'o) task_handle)
   \<Rightarrow> ('h, 'c) pool_task \<times> 'w \<times> 'd option \<Rightarrow> 'r \<times> ('h, 'c) pool_task \<times> 'w \<times> 'd option" where
  "own A fallback f x =
     (let (p, w, d) = x;
          (r, t) = f (owned_task fallback p d);
          calls = sh_aborts (st_handle t) - sh_aborts (pt_handle p)
      in (r, p\<lparr>pt_handle := st_handle t, pt_abort := (al_abort A ^^ calls) (pt_abort p)\<rparr>, w, st_rx t))"

datatype run_event = RunTask | OwnPoll | OwnAbort | OwnDetach | OwnDrop

fun run_step ::
  "'h abort_lib \<Rightarrow> ('c, unit) oneshot_lib \<Rightarrow> ('d, 'o) oneshot_lib \<Rightarrow> ('w, 'o) future \<Rightarrow> 'o \<Rightarrow> run_event
   \<Rightarrow> ('h, 'c) pool_task \<times> 'w \<times> 'd option \<Rightarrow> 'o option list \<times> ('h, 'c) pool_task \<times> 'w \<times> 'd option" where
  "run_step A L M fu fallback RunTask x = ([], pool_poll A L (result_future M fu) x)"
| "run_step A L M fu fallback OwnPoll x =
     (let (r, y) = own A fallback (SpawnedTask_poll (ol_rx M)) x in ([r], y))"
| "run_step A L M fu fallback OwnAbort x = own A fallback (\<lambda>t. ([], SpawnedTask_abort t)) x"
| "run_step A L M fu fallback OwnDetach x = own A fallback (\<lambda>t. ([], SpawnedTask_detach t)) x"
| "run_step A L M fu fallback OwnDrop x = own A fallback (\<lambda>t. ([], SpawnedTask_drop t)) x"

fun trace :: "('e \<Rightarrow> 's \<Rightarrow> 'r list \<times> 's) \<Rightarrow> 'e list \<Rightarrow> 's \<Rightarrow> 'r list \<times> 's" where
  "trace f [] s = ([], s)"
| "trace f (e # es) s = (let (r, s1) = f e s; (rs, s2) = trace f es s1 in (r @ rs, s2))"

definition spawned :: "'h abort_lib \<Rightarrow> ('c, unit) oneshot_lib \<Rightarrow> ('d, 'o) oneshot_lib \<Rightarrow> 'w
   \<Rightarrow> ('h, 'c) pool_task \<times> 'w \<times> 'd option" where
  "spawned A L M w = (PoolRuntime_spawn A L, w, Some (ol_channel M))"

subsection \<open>What a spawned task promises\<close>

text \<open>
  The abstract task. It has been polled some number of times and runs, has been told to abort, has
  finished with a value, or has been dropped. The owner may take the value once. \<open>ans k\<close> is what the
  future answers to its poll number \<open>k\<close> when nothing interrupts it.
\<close>

datatype 'o phase = PhRun nat | PhAbort nat | PhDone nat 'o | PhGone nat

record 'o task_spec =
  ts_phase :: "'o phase"
  ts_taken :: bool
  ts_detached :: bool

definition task_spec_start :: "'o task_spec" where
  "task_spec_start = \<lparr>ts_phase = PhRun 0, ts_taken = False, ts_detached = False\<rparr>"

fun phase_run :: "(nat \<Rightarrow> 'o option) \<Rightarrow> 'o phase \<Rightarrow> 'o phase" where
  "phase_run ans (PhRun k) = (case ans k of None \<Rightarrow> PhRun (k + 1) | Some v \<Rightarrow> PhDone (k + 1) v)"
| "phase_run ans (PhAbort k) = PhGone k"
| "phase_run ans ph = ph"

fun phase_abort :: "'o phase \<Rightarrow> 'o phase" where
  "phase_abort (PhRun k) = PhAbort k"
| "phase_abort ph = ph"

definition spec_answer :: "'o \<Rightarrow> 'o task_spec \<Rightarrow> 'o option" where
  "spec_answer fallback s =
     (case ts_phase s of
        PhDone k v \<Rightarrow> Some (if ts_taken s then fallback else v)
      | PhGone k \<Rightarrow> Some fallback
      | _ \<Rightarrow> None)"

fun task_spec_step :: "(nat \<Rightarrow> 'o option) \<Rightarrow> 'o \<Rightarrow> run_event \<Rightarrow> 'o task_spec \<Rightarrow> 'o option list \<times> 'o task_spec" where
  "task_spec_step ans fallback RunTask s = ([], s\<lparr>ts_phase := phase_run ans (ts_phase s)\<rparr>)"
| "task_spec_step ans fallback OwnPoll s =
     ([spec_answer fallback s], s\<lparr>ts_detached := True, ts_taken := ts_taken s \<or> spec_answer fallback s \<noteq> None\<rparr>)"
| "task_spec_step ans fallback OwnAbort s = ([], s\<lparr>ts_phase := phase_abort (ts_phase s)\<rparr>)"
| "task_spec_step ans fallback OwnDetach s = ([], s\<lparr>ts_detached := True\<rparr>)"
| "task_spec_step ans fallback OwnDrop s =
     ([], if ts_detached s then s else s\<lparr>ts_phase := phase_abort (ts_phase s)\<rparr>)"

definition polled :: "('w, 'o) future \<Rightarrow> 'w \<Rightarrow> nat \<Rightarrow> 'w" where
  "polled fu w k = ((\<lambda>x. snd (fu_poll fu x)) ^^ k) w"

fun phase_world :: "('w, 'o) future \<Rightarrow> 'w \<Rightarrow> 'o phase \<Rightarrow> 'w" where
  "phase_world fu w (PhRun k) = polled fu w k"
| "phase_world fu w (PhAbort k) = polled fu w k"
| "phase_world fu w (PhDone k v) = polled fu w k"
| "phase_world fu w (PhGone k) = fu_drop fu (polled fu w k)"

subsection \<open>Tasks refine their specification\<close>

text \<open>The relation between a task in a runtime and its abstraction.\<close>

fun phase_matches :: "bool \<Rightarrow> bool \<Rightarrow> bool \<Rightarrow> 'o rx_view \<Rightarrow> 'o phase \<Rightarrow> bool" where
  "phase_matches live aborted taken v (PhRun k) \<longleftrightarrow> live \<and> \<not> aborted \<and> \<not> taken \<and> v = Waiting"
| "phase_matches live aborted taken v (PhAbort k) \<longleftrightarrow> live \<and> aborted \<and> \<not> taken \<and> v = Waiting"
| "phase_matches live aborted taken v (PhDone k r) \<longleftrightarrow> \<not> live \<and> v = (if taken then Gone else Holds r)"
| "phase_matches live aborted taken v (PhGone k) \<longleftrightarrow> \<not> live \<and> v = Gone"

definition rx_of :: "('d \<Rightarrow> 'o rx_view) \<Rightarrow> 'd option \<Rightarrow> 'o rx_view" where
  "rx_of view d = (case d of None \<Rightarrow> Gone | Some c \<Rightarrow> view c)"

fun phase_completion :: "'o phase \<Rightarrow> unit rx_view" where
  "phase_completion (PhDone k v) = Holds ()"
| "phase_completion (PhGone k) = Gone"
| "phase_completion _ = Waiting"

definition task_rel ::
  "'h abort_lib \<Rightarrow> ('c \<Rightarrow> unit rx_view) \<Rightarrow> ('d \<Rightarrow> 'o rx_view) \<Rightarrow> ('w, 'o) future \<Rightarrow> 'w
   \<Rightarrow> ('h, 'c) pool_task \<times> 'w \<times> 'd option \<Rightarrow> 'o task_spec \<Rightarrow> bool" where
  "task_rel A seen view fu w0 x s \<longleftrightarrow>
     (case x of (p, w, d) \<Rightarrow>
        phase_matches (pt_live p) (al_aborted A (pt_abort p)) (ts_taken s) (rx_of view d) (ts_phase s)
        \<and> w = phase_world fu w0 (ts_phase s) \<and> is_detached (pt_handle p) = ts_detached s
        \<and> rx_of seen (sh_rx (pt_handle p)) = phase_completion (ts_phase s))"


lemma polled_simps [simp]: "polled fu w 0 = w" "snd (fu_poll fu (polled fu w k)) = polled fu w (Suc k)"
  by (simp_all add: polled_def)

lemma rx_of_map [simp]: "rx_of view (map_option f d) = (case d of None \<Rightarrow> Gone | Some c \<Rightarrow> view (f c))"
  by (simp add: rx_of_def split: option.splits)

lemma channel_okD:
  assumes "channel_ok view M"
  shows "oneshot_ok view (ol_rx M)" "view (ol_channel M) = Waiting"
    "view (ol_send M v c) = (if view c = Waiting then Holds v else view c)"
    "view (ol_drop_sender M c) = (if view c = Waiting then Gone else view c)"
  using assms by (simp_all add: channel_ok_def)

lemma on_rx_simps [simp]: "is_detached (on_rx f h) = is_detached h" "sh_rx (on_rx f h) = map_option f (sh_rx h)"
  by (simp_all add: is_detached_def on_rx_def)

lemma task_rel_run:
  assumes "channel_ok view M" "channel_ok seen L" "task_rel A seen view fu w0 x s"
  shows "task_rel A seen view fu w0 (pool_poll A L (result_future M fu) x)
     (s\<lparr>ts_phase := phase_run (\<lambda>k. fst (fu_poll fu (polled fu w0 k))) (ts_phase s)\<rparr>)"
proof -
  obtain p w d where x: "x = (p, w, d)" by (metis prod_cases3)
  show ?thesis
  proof (cases "ts_phase s")
    case (PhRun k)
    obtain r w' where "fu_poll fu (polled fu w0 k) = (r, w')" "w' = polled fu w0 (Suc k)" 
      using polled_simps(2) by (metis prod.collapse)
    then show ?thesis
      using assms PhRun channel_okD(3) [OF assms(1)] channel_okD(3) [OF assms(2), of "()"]
      by (cases d; cases r; cases "sh_rx (pt_handle p)") (auto simp: x task_rel_def pool_poll_def result_future_def Let_def rx_of_def)
  next
    case (PhAbort k)
    then show ?thesis
      using assms channel_okD(4) [OF assms(1)] channel_okD(4) [OF assms(2)]
      by (cases d; cases "sh_rx (pt_handle p)") (auto simp: x task_rel_def pool_poll_def result_future_def Let_def rx_of_def)
  qed (use assms in \<open>auto simp: x task_rel_def pool_poll_def Let_def\<close>)
qed

lemma SpawnedTask_poll_handle: "st_handle (snd (SpawnedTask_poll os t)) = SpawnHandle_detach (st_handle t)"
  by (auto simp: SpawnedTask_poll_def Let_def split: option.splits rx_poll.splits prod.splits)

lemma task_rel_await:
  assumes "channel_ok view M" "task_rel A seen view fu w0 x s"
    and "own A fallback (SpawnedTask_poll (ol_rx M)) x = (r, y)"
  shows "r = spec_answer fallback s
   \<and> task_rel A seen view fu w0 y (s\<lparr>ts_detached := True, ts_taken := ts_taken s \<or> spec_answer fallback s \<noteq> None\<rparr>)"
proof -
  obtain p w d where x: "x = (p, w, d)" by (metis prod_cases3)
  let ?t = "owned_task fallback p d"
  have v: "rx_of view d = task_view view ?t" by (simp add: rx_of_def task_view_def owned_task_def)
  note poll = SpawnedTask_poll_view [OF channel_okD(1) [OF assms(1)], of ?t]
  have y: "r = fst (SpawnedTask_poll (ol_rx M) ?t)"
    "y = (p\<lparr>pt_handle := st_handle (snd (SpawnedTask_poll (ol_rx M) ?t))\<rparr>, w, st_rx (snd (SpawnedTask_poll (ol_rx M) ?t)))"
    using assms(3) poll(6) by (auto simp: own_def x owned_task_def Let_def split: prod.splits)
  have "rx_of view (st_rx (snd (SpawnedTask_poll (ol_rx M) ?t))) = task_view view (snd (SpawnedTask_poll (ol_rx M) ?t))"
    by (simp add: rx_of_def task_view_def)
  moreover have "st_fallback ?t = fallback" by (simp add: owned_task_def)
  ultimately show ?thesis
    using assms(2) poll v
    by (cases "ts_phase s") (auto simp: x y task_rel_def spec_answer_def SpawnedTask_poll_handle SpawnHandle_detach_def
        owned_task_def split: if_splits)
qed

lemma task_rel_abort:
  assumes "abort_ok A" "task_rel A seen view fu w0 x s"
  shows "task_rel A seen view fu w0 (snd (own A fallback (\<lambda>t. (r, SpawnedTask_abort t)) x))
     (s\<lparr>ts_phase := phase_abort (ts_phase s)\<rparr>)"
  using assms
  by (cases "ts_phase s")
    (auto simp: task_rel_def own_def owned_task_def SpawnedTask_abort_def SpawnHandle_abort_def abort_ok_def is_detached_def Let_def)

lemma task_rel_detach:
  assumes "task_rel A seen view fu w0 x s"
  shows "task_rel A seen view fu w0 (snd (own A fallback (\<lambda>t. ([], SpawnedTask_detach t)) x)) (s\<lparr>ts_detached := True\<rparr>)"
  using assms by (auto simp: task_rel_def own_def owned_task_def SpawnedTask_detach_def SpawnHandle_detach_def is_detached_def Let_def)

lemma own_fst: "fst (own A fallback (\<lambda>t. (r, f t)) x) = r"
  by (simp add: own_def Let_def split: prod.splits)

lemma own_drop:
  "own A fallback (\<lambda>t. (r, SpawnedTask_drop t)) x =
     (if is_detached (pt_handle (fst x)) then (r, x) else own A fallback (\<lambda>t. (r, SpawnedTask_abort t)) x)"
  by (auto simp: own_def owned_task_def SpawnedTask_drop_def SpawnedTask_abort_def Let_def split: prod.splits)

lemma task_rel_step:
  assumes "abort_ok A" "channel_ok view M" "task_rel A seen view fu w0 x s" "channel_ok seen L"
    and "ans = (\<lambda>k. fst (fu_poll fu (polled fu w0 k)))"
  shows "fst (run_step A L M fu fallback e x) = fst (task_spec_step ans fallback e s)
   \<and> task_rel A seen view fu w0 (snd (run_step A L M fu fallback e x)) (snd (task_spec_step ans fallback e s))"
proof (cases e)
  case RunTask
  then show ?thesis using task_rel_run [OF assms(2,4,3)] by (simp add: assms(5))
next
  case OwnPoll
  obtain r y where "own A fallback (SpawnedTask_poll (ol_rx M)) x = (r, y)" by (metis prod.collapse)
  then show ?thesis using OwnPoll task_rel_await [OF assms(2,3), of fallback] by auto
next
  case OwnAbort
  then show ?thesis using task_rel_abort [OF assms(1,3)] by (simp add: own_fst)
next
  case OwnDetach
  then show ?thesis using task_rel_detach [OF assms(3)] by (simp add: own_fst)
next
  case OwnDrop
  have "is_detached (pt_handle (fst x)) = ts_detached s" using assms(3) by (auto simp: task_rel_def)
  then show ?thesis using OwnDrop task_rel_abort [OF assms(1,3), of fallback] assms(3) by (auto simp: own_drop own_fst)
qed

lemma spawned_task_rel:
  assumes "abort_ok A" "channel_ok view M" "channel_ok seen L"
    and "trace (run_step A L M fu fallback) es (spawned A L M w) = (outs, y)"
  shows "\<exists>s. trace (task_spec_step (\<lambda>k. fst (fu_poll fu (polled fu w k))) fallback) es task_spec_start = (outs, s)
     \<and> task_rel A seen view fu w y s"
proof -
  let ?ans = "\<lambda>k. fst (fu_poll fu (polled fu w k))"
  have "task_rel A seen view fu w x s \<Longrightarrow> trace (run_step A L M fu fallback) es x = (outs, y) \<Longrightarrow>
      \<exists>s'. trace (task_spec_step ?ans fallback) es s = (outs, s') \<and> task_rel A seen view fu w y s'" for x s
  proof (induction es arbitrary: x s outs)
    case (Cons e es)
    obtain r x1 rs where run: "run_step A L M fu fallback e x = (r, x1)"
      "trace (run_step A L M fu fallback) es x1 = (rs, y)" "outs = r @ rs"
      using Cons.prems(2) by (auto split: prod.splits)
    obtain s1 where s1: "task_spec_step ?ans fallback e s = (r, s1)" "task_rel A seen view fu w x1 s1"
      using task_rel_step [OF assms(1,2) Cons.prems(1) assms(3) refl, of fallback e] run(1)
      by (metis fst_conv prod.collapse snd_conv)
    then show ?case using Cons.IH [OF s1(2) run(2)] run(3) by auto
  qed simp
  moreover have "task_rel A seen view fu w (spawned A L M w) task_spec_start"
    using assms(1) channel_okD(2) [OF assms(2)] channel_okD(2) [OF assms(3)]
    by (simp add: task_rel_def spawned_def task_spec_start_def PoolRuntime_spawn_def abort_ok_def rx_of_def SpawnHandle_new_def is_detached_def)
  ultimately show ?thesis using assms(4) by blast
qed

lemma task_rel_live: "task_rel A seen view fu w0 (p, w, d) s \<Longrightarrow> pt_live p \<longleftrightarrow> (\<exists>k. ts_phase s \<in> {PhRun k, PhAbort k})"
  by (cases "ts_phase s") (auto simp: task_rel_def)

text \<open>
  C8. What a spawned task does, for every future, every interleaving of the worker's polls with the
  owner's polls, aborts, detaches and drop. The task and its two channels behave as the abstract task:
  the owner sees pending, then the value once, then the fallback, or only the fallback after an abort
  that came before the end; the future is polled exactly until it finishes or the first poll after an
  abort, which drops it, and never again.
\<close>

theorem spawned_task_refines:
  assumes "abort_ok A" and "channel_ok view M" and "channel_ok seen L"
    and "trace (run_step A L M fu fallback) es (spawned A L M w) = (outs, p, w', d)"
  shows "\<exists>s. trace (task_spec_step (\<lambda>k. fst (fu_poll fu (polled fu w k))) fallback) es task_spec_start = (outs, s)
     \<and> w' = phase_world fu w (ts_phase s) \<and> rx_of seen (sh_rx (pt_handle p)) = phase_completion (ts_phase s)
     \<and> (pt_live p \<longleftrightarrow> (\<exists>k. ts_phase s \<in> {PhRun k, PhAbort k}))"
  using spawned_task_rel [OF assms] task_rel_live by (fastforce simp: task_rel_def)

lemma trace_append:
  "trace f (es @ es') s = (let (rs, s1) = trace f es s; (rs', s2) = trace f es' s1 in (rs @ rs', s2))"
  by (induction es arbitrary: s) (auto simp: Let_def split: prod.splits)

lemma trace_silent:
  "trace f es s = ([], s1) \<Longrightarrow> trace f (es @ es') s = trace f es' s1"
  "f e s = ([], s1) \<Longrightarrow> trace f (e # es) s = trace f es s1"
  by (simp_all add: trace_append)

lemma task_spec_detached:
  "trace (task_spec_step ans fallback) es s = (outs, s') \<Longrightarrow> OwnPoll \<notin> set es \<Longrightarrow> OwnDetach \<notin> set es \<Longrightarrow>
   ts_detached s' = ts_detached s"
proof (induction es arbitrary: s outs)
  case (Cons e es)
  then show ?case by (cases e) (force split: prod.splits if_splits)+
qed simp

lemma task_spec_runs:
  "trace (task_spec_step ans fallback) (replicate m RunTask) s = ([], s\<lparr>ts_phase := (phase_run ans ^^ m) (ts_phase s)\<rparr>)"
  by (induction m arbitrary: s) (simp_all add: funpow_swap1)

lemma phase_runs_fixed: "phase_run ans ph = ph \<Longrightarrow> (phase_run ans ^^ m) ph = ph"
  by (induction m) simp_all

text \<open>
  Structured concurrency. A task whose handle is dropped before it was polled or detached does no
  more work: its future is dropped at the worker's next poll, if it had not finished, and never polled.
\<close>

theorem dropped_task_stops:
  assumes "abort_ok A" and "channel_ok view M" and "channel_ok seen L"
    and "trace (run_step A L M fu fallback) es (spawned A L M w) = (outs, p, w', d)"
    and "OwnPoll \<notin> set es" and "OwnDetach \<notin> set es"
    and "trace (run_step A L M fu fallback) (es @ OwnDrop # replicate m RunTask) (spawned A L M w) = (outs2, p2, w2, d2)"
  shows "w2 = (if pt_live p \<and> 0 < m then fu_drop fu w' else w') \<and> (0 < m \<longrightarrow> \<not> pt_live p2)"
proof -
  let ?ans = "\<lambda>k. fst (fu_poll fu (polled fu w k))"
  obtain s where s: "trace (task_spec_step ?ans fallback) es task_spec_start = (outs, s)"
    "w' = phase_world fu w (ts_phase s)" "pt_live p \<longleftrightarrow> (\<exists>k. ts_phase s \<in> {PhRun k, PhAbort k})"
    using spawned_task_rel [OF assms(1-4)] task_rel_live by (fastforce simp: task_rel_def)
  have "\<not> ts_detached s" using task_spec_detached [OF s(1) assms(5,6)] by (simp add: task_spec_start_def)
  obtain s2 where s2: "trace (task_spec_step ?ans fallback) (es @ OwnDrop # replicate m RunTask) task_spec_start = (outs2, s2)"
    "w2 = phase_world fu w (ts_phase s2)" "pt_live p2 \<longleftrightarrow> (\<exists>k. ts_phase s2 \<in> {PhRun k, PhAbort k})"
    using spawned_task_rel [OF assms(1-3,7)] task_rel_live by (fastforce simp: task_rel_def)
  have "ts_phase s2 = (phase_run ?ans ^^ m) (phase_abort (ts_phase s))"
    using s2(1) s(1) \<open>\<not> ts_detached s\<close> by (auto simp: trace_append task_spec_runs)
  moreover have "(phase_run ?ans ^^ m) (PhAbort k) = (if 0 < m then PhGone k else PhAbort k)" for k
    by (cases m) (simp_all add: funpow_Suc_right phase_runs_fixed del: funpow.simps)
  ultimately show ?thesis
    using s2(2,3) s(2,3) by (cases "ts_phase s") (auto simp: phase_runs_fixed)
qed

subsection \<open>Witnesses\<close>

definition demo_lib :: "('o rx_view, 'o) oneshot_lib" where
  "demo_lib = \<lparr>ol_rx = demo_oneshot, ol_channel = Waiting, ol_send = (\<lambda>v c. if c = Waiting then Holds v else c),
     ol_drop_sender = (\<lambda>c. if c = Waiting then Gone else c)\<rparr>"

definition demo_abort :: "bool abort_lib" where
  "demo_abort = \<lparr>al_new = False, al_abort = (\<lambda>_. True), al_aborted = (\<lambda>b. b)\<rparr>"

text \<open>A future that counts its polls and answers at the third.\<close>

definition demo_future :: "(nat, nat) future" where
  "demo_future = \<lparr>fu_poll = (\<lambda>n. (if n = 2 then Some 7 else None, n + 1)), fu_drop = (\<lambda>n. n + 100)\<rparr>"

lemma demo_libs_ok: "channel_ok (\<lambda>c. c) demo_lib" "abort_ok demo_abort"
  using demo_oneshot_ok by (auto simp: channel_ok_def demo_lib_def abort_ok_def demo_abort_def)

lemmas demo_task_defs = demo_lib_def demo_abort_def demo_future_def demo_oneshot_def spawned_def PoolRuntime_spawn_def
  SpawnHandle_new_def own_def owned_task_def pool_poll_def result_future_def SpawnedTask_poll_def SpawnedTask_abort_def
  SpawnedTask_drop_def SpawnHandle_detach_def SpawnHandle_abort_def is_detached_def on_rx_def Let_def

theorem spawned_task_refines_witness:
  "\<exists>s. trace (task_spec_step (\<lambda>k. fst (fu_poll demo_future (polled demo_future 0 k))) 0)
         [RunTask, OwnPoll, RunTask, RunTask, OwnPoll, OwnAbort, OwnPoll] task_spec_start = ([None, Some 7, Some 0], s)
     \<and> phase_world demo_future 0 (ts_phase s) = 3"
proof -
  obtain p d where "trace (run_step demo_abort demo_lib demo_lib demo_future 0)
      [RunTask, OwnPoll, RunTask, RunTask, OwnPoll, OwnAbort, OwnPoll] (spawned demo_abort demo_lib demo_lib 0)
      = ([None, Some 7, Some 0], p, 3, d)"
    by (simp add: demo_task_defs)
  from spawned_task_refines [OF demo_libs_ok(2,1,1) this] show ?thesis by metis
qed

theorem dropped_task_stops_witness:
  "fst (snd (snd (trace (run_step demo_abort demo_lib demo_lib demo_future 0) ([RunTask] @ OwnDrop # replicate 5 RunTask)
     (spawned demo_abort demo_lib demo_lib 0)))) = 101"
proof -
  obtain p d where before: "trace (run_step demo_abort demo_lib demo_lib demo_future 0) [RunTask]
      (spawned demo_abort demo_lib demo_lib 0) = ([], p, 1, d)" "pt_live p"
    by (simp add: demo_task_defs)
  obtain outs p2 w2 d2 where after: "trace (run_step demo_abort demo_lib demo_lib demo_future 0)
      ([RunTask] @ OwnDrop # replicate 5 RunTask) (spawned demo_abort demo_lib demo_lib 0) = (outs, p2, w2, d2)"
    by (metis prod_cases4)
  show ?thesis
    using dropped_task_stops [OF demo_libs_ok(2,1,1) before(1) _ _ after] before(2) unfolding after
    by (simp add: demo_future_def)
qed

end
