(* ===== verification/Scope_Gate.thy ===== *)
theory Scope_Gate
  imports Mutation_Run
begin

text \<open>
  The scope gate of \<open>src/mutation.rs\<close> under concurrency. Each submitted mutation of one scope is a task;
  the tasks share the mutation cache. The gate asks \<open>can_run\<close> and then calls \<open>mark_running\<close>, two
  separate critical sections: on a cooperative scheduler nothing happens between them (there is no
  await point), on several threads other tasks may. A task can be dropped wherever it waits, by an abort
  or a panic of its mutate function, and the cache is at the same time used by everybody else, who may
  also clear it. All of this is one step relation over the operations of the mutation cache model.
\<close>

text \<open>The phases of a task. \<open>Withdrawn\<close> was dropped at the gate, \<open>Lost\<close> was dropped while it executed, so
  that the code after the await point, which releases the scope, never runs.\<close>

datatype gate_phase = AtGate | Admitted | Executing | Released | Withdrawn | Lost

type_synonym gate_state = "mutation_cache \<times> (nat \<rightharpoonup> gate_phase)"

definition scope_submit :: "string \<Rightarrow> nat \<Rightarrow> mutation_cache \<Rightarrow> mutation_cache \<times> nat" where
  "scope_submit s now m =
     (let (m1, i) = mc_add (pending_entry (Mutation_set_scope \<lparr>scope_id = s\<rparr> (Mutation_new :: unit mutation)) now) m
      in (fst (subscribe_scope s (fire_on_mutate i m1)), i))"

text \<open>Operations on the cache by others: everything but clearing it and marking this scope by hand. What
  the mutations of other scopes and those without a scope do are such operations.\<close>

fun foreign_op :: "string \<Rightarrow> mc_op \<Rightarrow> bool" where
  "foreign_op s MC_Clear = False"
| "foreign_op s (MC_MarkRunning s') = (s' \<noteq> s)"
| "foreign_op s (MC_MarkFinished s') = (s' \<noteq> s)"
| "foreign_op s op = True"

text \<open>One step of a task of scope \<open>s\<close> or of its surroundings; \<open>threads\<close> says whether the check and the mark
  can be separated, \<open>clears\<close> whether the cache may be cleared.\<close>

inductive gate_step :: "bool \<Rightarrow> bool \<Rightarrow> string \<Rightarrow> gate_state \<Rightarrow> gate_state \<Rightarrow> bool" for threads clears s where
  submit: "scope_submit s now m = (m', i) \<Longrightarrow> gate_step threads clears s (m, ph) (m', ph(i \<mapsto> AtGate))"
| acquire: "\<lbrakk>ph i = Some AtGate; can_run s m\<rbrakk> \<Longrightarrow>
    gate_step threads clears s (m, ph) (scope_enter s i m, ph(i \<mapsto> Executing))"
| check: "\<lbrakk>threads; ph i = Some AtGate; can_run s m\<rbrakk> \<Longrightarrow>
    gate_step threads clears s (m, ph) (m, ph(i \<mapsto> Admitted))"
| mark: "ph i = Some Admitted \<Longrightarrow>
    gate_step threads clears s (m, ph) (scope_enter s i m, ph(i \<mapsto> Executing))"
| settle: "ph i = Some Executing \<Longrightarrow>
    gate_step threads clears s (m, ph) (release_scope (Some s) True
      (settle_mutation_error (Mutation_new :: unit mutation) per_call i er m), ph(i \<mapsto> Released))"
| succeed: "ph i = Some Executing \<Longrightarrow>
    gate_step threads clears s (m, ph) (release_scope (Some s) True
      (snd (settle_mutation_success (Mutation_new :: unit mutation) per_call i (QueryClient_new, m))),
      ph(i \<mapsto> Released))"
| withdraw: "ph i = Some AtGate \<Longrightarrow> gate_step threads clears s (m, ph) (m, ph(i \<mapsto> Withdrawn))"
| drop: "ph i = Some Executing \<Longrightarrow> gate_step threads clears s (m, ph) (m, ph(i \<mapsto> Lost))"
| foreign: "foreign_op s op \<Longrightarrow> gate_step threads clears s (m, ph) (mc_step op m, ph)"
| clear: "clears \<Longrightarrow> gate_step threads clears s (m, ph) (mc_clear m, ph)"

inductive_cases gate_stepE: "gate_step threads clears s x y"

definition gate_start :: gate_state where
  "gate_start = (MutationCache_new, Map.empty)"

text \<open>A task holds the scope while it executes, and for ever when it is lost.\<close>

definition holds_scope :: "gate_phase option \<Rightarrow> bool" where
  "holds_scope p \<longleftrightarrow> p = Some Executing \<or> p = Some Lost"

lemma holds_scope_simps [simp]:
  "holds_scope (Some Executing)" "holds_scope (Some Lost)" "\<not> holds_scope None" "\<not> holds_scope (Some AtGate)"
  "\<not> holds_scope (Some Admitted)" "\<not> holds_scope (Some Released)" "\<not> holds_scope (Some Withdrawn)"
  by (simp_all add: holds_scope_def)

text \<open>The scope is free exactly when no task holds it, and at most one does.\<close>

definition gate_inv :: "string \<Rightarrow> gate_state \<Rightarrow> bool" where
  "gate_inv s x \<longleftrightarrow>
     (can_run s (fst x) \<longleftrightarrow> (\<forall>i. \<not> holds_scope (snd x i)))
     \<and> (\<forall>i j. holds_scope (snd x i) \<longrightarrow> holds_scope (snd x j) \<longrightarrow> i = j)
     \<and> (\<forall>i. snd x i \<noteq> Some Admitted) \<and> (\<forall>i. snd x i \<noteq> None \<longrightarrow> i \<le> mc_next_id (fst x))"

lemma scope_enter_busy: "\<not> can_run s (scope_enter s i m)"
  by (simp add: scope_enter_def can_run_def mark_running_def Let_def)

lemma next_id_basic [simp]:
  "mc_next_id (call_if b cb m) = mc_next_id m" "mc_next_id (fire_on_success i m) = mc_next_id m"
  "mc_next_id (fire_on_error i m) = mc_next_id m" "mc_next_id (fire_on_settled i m) = mc_next_id m"
  "mc_next_id (fire_on_mutate i m) = mc_next_id m" "mc_next_id (fst (mc_update i f m)) = mc_next_id m"
  "mc_next_id (mark_running s m) = mc_next_id m" "mc_next_id (mark_finished s m) = mc_next_id m"
  "mc_next_id (fst (run_next s m)) = mc_next_id m" "mc_next_id (fst (subscribe_scope s m)) = mc_next_id m"
  by (simp_all add: call_if_def mc_call_def fire_on_success_def fire_on_error_def fire_on_settled_def
      fire_on_mutate_def mc_update_def mark_running_def mark_finished_def run_next_def subscribe_scope_def
      Let_def case_prod_beta split: option.split list.split)

lemma next_id_frame [simp]:
  "mc_next_id (scope_enter s i m) = mc_next_id m" "mc_next_id (release_scope sc b m) = mc_next_id m"
  "mc_next_id (settle_mutation_error mu pc i er m) = mc_next_id m"
  "mc_next_id (snd (settle_mutation_success mu pc i (c, m))) = mc_next_id m"
  by (simp_all add: scope_enter_def release_scope_def settle_mutation_error_def
      settle_mutation_success_def Let_def split: option.split)

lemma mc_add_id: "snd (mc_add e m) = mc_next_id m + 1" "mc_next_id (fst (mc_add e m)) = mc_next_id m + 1"
  by (simp_all add: mc_add_def Let_def case_prod_beta split: option.split)

lemma next_id_clear: "mc_next_id (fold (\<lambda>i. mc_send (EvRemoved i)) is m) = mc_next_id m"
  by (induction "is" arbitrary: m) (simp_all add: mc_send_def)

lemma scopes_clear: "mc_scopes (fold (\<lambda>i. mc_send (EvRemoved i)) is m) = mc_scopes m"
  by (induction "is" arbitrary: m) (simp_all add: mc_send_def)

lemma can_run_scopes: "mc_scopes m' = mc_scopes m \<Longrightarrow> can_run s m' = can_run s m"
  by (simp add: can_run_def)

lemma scopes_frame [simp]:
  "mc_scopes (mc_send ev m) = mc_scopes m" "mc_scopes (notify_scope s m) = mc_scopes m"
  "mc_scopes (fst (subscribe_scope s m)) = mc_scopes m" "mc_scopes (fst (mc_subscribe m)) = mc_scopes m"
  by (simp_all add: mc_send_def notify_scope_def subscribe_scope_def mc_subscribe_def Let_def case_prod_beta)

lemma can_run_basic:
  "can_run s (fst (mc_update i f m)) = can_run s m" "can_run s (fire_on_mutate i m) = can_run s m"
  "can_run s (fire_on_success i m) = can_run s m" "can_run s (fire_on_error i m) = can_run s m"
  "can_run s (fire_on_settled i m) = can_run s m" "can_run s (fst (subscribe_scope s' m)) = can_run s m"
  "can_run s (fst (mc_subscribe m)) = can_run s m"
  by (rule can_run_scopes; simp)+

lemma can_run_resume: "can_run s (fst (mc_resume_paused_mutations m)) = can_run s m"
proof -
  have "mc_scopes (fold (\<lambda>i. mc_send (EvUpdated i)) is m') = mc_scopes m'" for "is" m'
    by (induction "is" arbitrary: m') simp_all
  then show ?thesis by (simp add: can_run_def mc_resume_paused_mutations_def Let_def)
qed

lemma can_run_other:
  "can_run s (fst (mc_add e m)) = can_run s m" "can_run s (fst (mc_remove i m)) = can_run s m"
  "can_run s (fst (run_next s' m)) = can_run s m" "can_run s (fst (mc_resume_paused_mutations m)) = can_run s m"
  "s' \<noteq> s \<Longrightarrow> can_run s (mark_running s' m) = can_run s m" "s' \<noteq> s \<Longrightarrow> can_run s (mark_finished s' m) = can_run s m"
  subgoal by (auto simp: can_run_def mc_add_def Let_def scope_entry_def ScopeState_default_def split: option.splits if_splits prod.splits)
  subgoal by (auto simp: can_run_def mc_remove_def Let_def split: option.splits)
  subgoal by (auto simp: can_run_def run_next_def split: option.splits list.splits)
  subgoal by (rule can_run_resume)
  subgoal by (simp add: can_run_def mark_running_def)
  subgoal by (auto simp: can_run_def mark_finished_def split: option.splits)
  done

lemma cleared_can_run: "can_run s (mc_clear m)"
  by (simp add: can_run_def mc_clear_def scopes_clear Let_def)

lemma scope_submit_id:
  "scope_submit s now m = (m', i) \<Longrightarrow> i = mc_next_id m + 1 \<and> mc_next_id m' = i \<and> can_run s m' = can_run s m"
  by (auto simp: scope_submit_def Let_def case_prod_beta mc_add_id can_run_add)

lemma next_id_mono: "mc_next_id m \<le> mc_next_id (mc_step op m)"
  by (cases op) (simp_all add: mc_add_id mc_remove_def mc_clear_def mc_send_def mc_subscribe_def mc_resume_paused_mutations_def
      next_id_clear Let_def case_prod_beta split: option.split)

lemma foreign_can_run: "foreign_op s op \<Longrightarrow> can_run s (mc_step op m) = can_run s m"
  by (cases op) (simp_all add: can_run_basic can_run_other)

lemma gate_invD:
  assumes "gate_inv s (m, ph)"
  shows "can_run s m \<longleftrightarrow> (\<forall>i. \<not> holds_scope (ph i))" "holds_scope (ph i) \<Longrightarrow> holds_scope (ph j) \<Longrightarrow> i = j"
    "ph i \<noteq> Some Admitted" "ph i \<noteq> None \<Longrightarrow> i \<le> mc_next_id m"
  using assms unfolding gate_inv_def by simp_all

text \<open>A step that neither takes nor gives the scope.\<close>

lemma gate_inv_same:
  assumes "gate_inv s (m, ph)" "can_run s m' = can_run s m" "\<And>j. holds_scope (ph' j) = holds_scope (ph j)"
    "\<And>j. ph' j \<noteq> Some Admitted" "\<And>j. ph' j \<noteq> None \<Longrightarrow> j \<le> mc_next_id m'"
  shows "gate_inv s (m', ph')"
  using assms unfolding gate_inv_def by (simp only: fst_conv snd_conv) blast

lemma gate_inv_step:
  assumes "gate_step False False s x y" "gate_inv s x"
  shows "gate_inv s y"
  using assms(1)
proof cases
  case (submit now m m' i ph)
  note inv = assms(2) [unfolded submit(1)] and id = scope_submit_id [OF submit(3)]
  have "ph i = None" using gate_invD(4) [OF inv, of i] id by fastforce
  then show ?thesis unfolding submit(2)
    using gate_invD(3,4) [OF inv] id by (intro gate_inv_same [OF inv]) (auto split: if_splits dest: le_SucI)
next
  case (acquire ph i m)
  then show ?thesis using assms(2) scope_enter_busy [of s i m] by (auto simp: gate_inv_def split: if_splits)
next
  case (mark ph i m)
  then show ?thesis using assms(2) by (auto simp: gate_inv_def)
next
  case (settle ph i m per_call er)
  then show ?thesis using assms(2) by (auto simp: gate_inv_def release_scope_opens split: if_splits)
next
  case (succeed ph i m per_call)
  then show ?thesis using assms(2) by (auto simp: gate_inv_def release_scope_opens split: if_splits)
next
  case (withdraw ph i m)
  note inv = assms(2) [unfolded withdraw(1)]
  show ?thesis unfolding withdraw(2)
    using gate_invD(3,4) [OF inv] withdraw(3) by (intro gate_inv_same [OF inv]) (auto split: if_splits)
next
  case (drop ph i m)
  note inv = assms(2) [unfolded drop(1)]
  show ?thesis unfolding drop(2)
    using gate_invD(3,4) [OF inv] drop(3) by (intro gate_inv_same [OF inv]) (auto split: if_splits)
next
  case (foreign op m ph)
  note inv = assms(2) [unfolded foreign(1)]
  show ?thesis unfolding foreign(2)
    using gate_invD(3,4) [OF inv] le_trans [OF _ next_id_mono [of m op]] foreign(3)
    by (intro gate_inv_same [OF inv]) (auto simp: foreign_can_run)
qed auto

lemma gate_inv_start: "gate_inv s gate_start"
  by (simp add: gate_inv_def gate_start_def can_run_def MutationCache_new_def MutationCache_with_config_def)

lemma gate_inv_reachable: "(gate_step False False s)\<^sup>*\<^sup>* gate_start x \<Longrightarrow> gate_inv s x"
  by (induction rule: rtranclp_induct) (auto intro: gate_inv_start gate_inv_step)

lemma lost_stays:
  assumes "(gate_step False False s)\<^sup>*\<^sup>* x y" "gate_inv s x" "snd x i = Some Lost"
  shows "gate_inv s y \<and> snd y i = Some Lost"
  using assms
proof (induction rule: rtranclp_induct)
  case (step y z)
  then have y: "gate_inv s y" "snd y i = Some Lost" by simp_all
  have "snd z i = Some Lost"
    using step.hyps(2)
  proof cases
    case (submit now m m' j ph)
    then have "j \<noteq> i" using scope_submit_id [OF submit(3)] y by (auto simp: gate_inv_def)
    then show ?thesis using submit y by simp
  qed (use y in auto)
  then show ?case using gate_inv_step [OF step.hyps(2) y(1)] by simp
qed simp

text \<open>
  C14. On a cooperative scheduler, and as long as nobody clears the cache or marks the scope by hand, the
  scope gate is a mutual exclusion, whatever mutations are submitted to the scope, in whatever order
  they run, are dropped or settle, and whatever else is done to the cache. At most one mutation holds the
  scope: it executes, or it was dropped while it executed. The scope admits the next one exactly when
  none holds it. A mutation that was dropped while it executed holds the scope for ever: in every
  continuation the scope stays closed and no mutation of it executes again.
\<close>

theorem scope_mutual_exclusion:
  assumes "(gate_step False False s)\<^sup>*\<^sup>* gate_start (m, ph)"
  shows "(\<forall>i j. holds_scope (ph i) \<longrightarrow> holds_scope (ph j) \<longrightarrow> i = j)
     \<and> (can_run s m \<longleftrightarrow> (\<forall>i. ph i \<noteq> Some Executing \<and> ph i \<noteq> Some Lost))
     \<and> (\<forall>i m' ph'. ph i = Some Lost \<longrightarrow> (gate_step False False s)\<^sup>*\<^sup>* (m, ph) (m', ph') \<longrightarrow>
          \<not> can_run s m' \<and> (\<forall>j. ph' j \<noteq> Some Executing))"
proof (intro conjI)
  have inv: "gate_inv s (m, ph)" by (rule gate_inv_reachable [OF assms])
  show "\<forall>i j. holds_scope (ph i) \<longrightarrow> holds_scope (ph j) \<longrightarrow> i = j" using inv by (simp add: gate_inv_def)
  show "can_run s m \<longleftrightarrow> (\<forall>i. ph i \<noteq> Some Executing \<and> ph i \<noteq> Some Lost)"
    using inv by (simp add: gate_inv_def holds_scope_def)
  show "\<forall>i m' ph'. ph i = Some Lost \<longrightarrow> (gate_step False False s)\<^sup>*\<^sup>* (m, ph) (m', ph') \<longrightarrow>
          \<not> can_run s m' \<and> (\<forall>j. ph' j \<noteq> Some Executing)"
  proof (intro allI impI)
    fix i m' ph' assume "ph i = Some Lost" "(gate_step False False s)\<^sup>*\<^sup>* (m, ph) (m', ph')"
    from lost_stays [OF this(2) inv] this(1) have "gate_inv s (m', ph')" "ph' i = Some Lost" by simp_all
    then have "\<not> can_run s m'" "ph' j \<noteq> Some Executing" for j
      using gate_invD(1) [of s m' ph'] gate_invD(2) [of s m' ph' i j] by (auto simp: holds_scope_def)
    then show "\<not> can_run s m' \<and> (\<forall>j. ph' j \<noteq> Some Executing)" by blast
  qed
qed

lemma two_submitted:
  obtains m where "(gate_step b d s)\<^sup>*\<^sup>* gate_start (m, [1 \<mapsto> AtGate, 2 \<mapsto> AtGate])" "can_run s m"
proof -
  let ?m1 = "fst (scope_submit s 0 MutationCache_new)"
  let ?m2 = "fst (scope_submit s 0 ?m1)"
  have e1: "scope_submit s 0 MutationCache_new = (?m1, 1)" and n1: "mc_next_id ?m1 = 1" "can_run s ?m1"
    using scope_submit_id [of s 0 MutationCache_new ?m1 "snd (scope_submit s 0 MutationCache_new)"]
    by (simp_all add: prod_eq_iff MutationCache_new_def MutationCache_with_config_def can_run_def)
  have e2: "scope_submit s 0 ?m1 = (?m2, 2)" and n2: "can_run s ?m2"
    using scope_submit_id [of s 0 ?m1 ?m2 "snd (scope_submit s 0 ?m1)"] n1 by (simp_all add: prod_eq_iff)
  have "gate_step b d s gate_start (?m1, [1 \<mapsto> AtGate])"
    unfolding gate_start_def by (rule gate_step.submit [OF e1])
  moreover have "gate_step b d s (?m1, [1 \<mapsto> AtGate]) (?m2, [1 \<mapsto> AtGate, 2 \<mapsto> AtGate])"
    by (rule gate_step.submit [OF e2])
  ultimately show thesis using that n2 by (metis rtranclp.rtrancl_into_rtrancl rtranclp.rtrancl_refl)
qed

theorem scope_mutual_exclusion_witness:
  "\<exists>m. (gate_step False False ''s'')\<^sup>*\<^sup>* gate_start (m, [1 \<mapsto> Executing, 2 \<mapsto> AtGate]) \<and> \<not> can_run ''s'' m"
proof -
  obtain m where m: "(gate_step False False ''s'')\<^sup>*\<^sup>* gate_start (m, [1 \<mapsto> AtGate, 2 \<mapsto> AtGate])" "can_run ''s'' m"
    by (rule two_submitted)
  have "gate_step False False ''s'' (m, [1 \<mapsto> AtGate, 2 \<mapsto> AtGate])
      (scope_enter ''s'' 1 m, [1 \<mapsto> AtGate, 2 \<mapsto> AtGate, 1 \<mapsto> Executing])"
    by (rule gate_step.acquire) (simp_all add: m(2))
  then have r: "(gate_step False False ''s'')\<^sup>*\<^sup>* gate_start (scope_enter ''s'' 1 m, [1 \<mapsto> Executing, 2 \<mapsto> AtGate])"
    using m(1) by (simp add: fun_upd_twist rtranclp.rtrancl_into_rtrancl)
  have "[1 \<mapsto> Executing, 2 \<mapsto> AtGate] (1::nat) = Some Executing" by simp
  then have "\<not> can_run ''s'' (scope_enter ''s'' 1 m)" using scope_mutual_exclusion [OF r] by blast
  with r show ?thesis by blast
qed

text \<open>
  With several threads the gate is not a mutual exclusion: two mutations of one scope can both pass
  the check before either marks the scope, execute together, and when the first one finishes the scope
  is reported free although the second still executes.
\<close>

theorem scope_gate_race:
  "\<exists>m m'. (gate_step True False s)\<^sup>*\<^sup>* gate_start (m, [1 \<mapsto> Executing, 2 \<mapsto> Executing])
     \<and> (gate_step True False s)\<^sup>*\<^sup>* gate_start (m', [1 \<mapsto> Released, 2 \<mapsto> Executing]) \<and> can_run s m'"
proof -
  note trans = rtranclp.rtrancl_into_rtrancl
  obtain m where m: "(gate_step True False s)\<^sup>*\<^sup>* gate_start (m, [1 \<mapsto> AtGate, 2 \<mapsto> AtGate])" "can_run s m"
    by (rule two_submitted)
  have "gate_step True False s (m, [1 \<mapsto> AtGate, 2 \<mapsto> AtGate]) (m, [1 \<mapsto> AtGate, 2 \<mapsto> AtGate, 1 \<mapsto> Admitted])"
    by (rule gate_step.check) (simp_all add: m(2))
  then have "(gate_step True False s)\<^sup>*\<^sup>* gate_start (m, [1 \<mapsto> Admitted, 2 \<mapsto> AtGate])"
    using trans [OF m(1)] by (simp add: fun_upd_twist)
  moreover have "gate_step True False s (m, [1 \<mapsto> Admitted, 2 \<mapsto> AtGate]) (m, [1 \<mapsto> Admitted, 2 \<mapsto> AtGate, 2 \<mapsto> Admitted])"
    by (rule gate_step.check) (simp_all add: m(2))
  ultimately have r2: "(gate_step True False s)\<^sup>*\<^sup>* gate_start (m, [1 \<mapsto> Admitted, 2 \<mapsto> Admitted])"
    using trans by fastforce
  let ?m3 = "scope_enter s 1 m" let ?m4 = "scope_enter s 2 ?m3"
  have "gate_step True False s (m, [1 \<mapsto> Admitted, 2 \<mapsto> Admitted]) (?m3, [1 \<mapsto> Admitted, 2 \<mapsto> Admitted, 1 \<mapsto> Executing])"
    by (rule gate_step.mark) simp
  then have r3: "(gate_step True False s)\<^sup>*\<^sup>* gate_start (?m3, [1 \<mapsto> Executing, 2 \<mapsto> Admitted])"
    using trans [OF r2] by (simp add: fun_upd_twist)
  have "gate_step True False s (?m3, [1 \<mapsto> Executing, 2 \<mapsto> Admitted]) (?m4, [1 \<mapsto> Executing, 2 \<mapsto> Admitted, 2 \<mapsto> Executing])"
    by (rule gate_step.mark) simp
  then have r4: "(gate_step True False s)\<^sup>*\<^sup>* gate_start (?m4, [1 \<mapsto> Executing, 2 \<mapsto> Executing])"
    using trans [OF r3] by simp
  let ?m5 = "release_scope (Some s) True
      (snd (settle_mutation_success (Mutation_new :: unit mutation) None 1 (QueryClient_new, ?m4)))"
  have "gate_step True False s (?m4, [1 \<mapsto> Executing, 2 \<mapsto> Executing])
      (?m5, [1 \<mapsto> Executing, 2 \<mapsto> Executing, 1 \<mapsto> Released])"
    by (rule gate_step.succeed) simp
  then have "(gate_step True False s)\<^sup>*\<^sup>* gate_start (?m5, [1 \<mapsto> Released, 2 \<mapsto> Executing])"
    using trans [OF r4] by (simp add: fun_upd_twist)
  then show ?thesis using r4 release_scope_opens by blast
qed

text \<open>
  Clearing the cache breaks the exclusion even on a cooperative scheduler: it forgets that the scope is
  running, so a second mutation enters while the first still executes.
\<close>

theorem scope_clear_overlaps:
  "\<exists>m. (gate_step False True s)\<^sup>*\<^sup>* gate_start (m, [1 \<mapsto> Executing, 2 \<mapsto> Executing])"
proof -
  note trans = rtranclp.rtrancl_into_rtrancl
  obtain m where m: "(gate_step False True s)\<^sup>*\<^sup>* gate_start (m, [1 \<mapsto> AtGate, 2 \<mapsto> AtGate])" "can_run s m"
    by (rule two_submitted)
  let ?m1 = "scope_enter s 1 m" let ?m2 = "mc_clear ?m1"
  have "gate_step False True s (m, [1 \<mapsto> AtGate, 2 \<mapsto> AtGate]) (?m1, [1 \<mapsto> AtGate, 2 \<mapsto> AtGate, 1 \<mapsto> Executing])"
    by (rule gate_step.acquire) (simp_all add: m(2))
  then have "(gate_step False True s)\<^sup>*\<^sup>* gate_start (?m1, [1 \<mapsto> Executing, 2 \<mapsto> AtGate])"
    using trans [OF m(1)] by (simp add: fun_upd_twist)
  moreover have "gate_step False True s (?m1, [1 \<mapsto> Executing, 2 \<mapsto> AtGate]) (?m2, [1 \<mapsto> Executing, 2 \<mapsto> AtGate])"
    by (rule gate_step.clear) simp
  ultimately have r: "(gate_step False True s)\<^sup>*\<^sup>* gate_start (?m2, [1 \<mapsto> Executing, 2 \<mapsto> AtGate])" by (rule trans)
  have "gate_step False True s (?m2, [1 \<mapsto> Executing, 2 \<mapsto> AtGate]) (scope_enter s 2 ?m2, [1 \<mapsto> Executing, 2 \<mapsto> AtGate, 2 \<mapsto> Executing])"
    by (rule gate_step.acquire) (simp_all add: cleared_can_run)
  then show ?thesis using trans [OF r] by fastforce
qed

end
