(* ===== verification/Spawned_Work.thy ===== *)
theory Spawned_Work
  imports Hooks Task_Runtime Executor_Laws Scope_Gate
begin

text \<open>
  The tasks the crate spawns, on the runtime of \<open>Task_Runtime\<close>: the two nested tasks behind
  \<open>UseMutation::mutate\<close> (\<open>hooks.rs\<close>), and a fetch of \<open>spawn_query\<close> (\<open>executor.rs\<close>) that is aborted while it
  is suspended. An aborted future is dropped where it waits, so of its remaining code only the \<open>Drop\<close>
  implementations of its locals run: the guards of the activity counters and the handles it holds.
\<close>

subsection \<open>The mutation binding\<close>

text \<open>
  The future of the outer task: it awaits the handle of the execution that the observer has spawned
  and then writes the signal. Its state is that handle, with the task behind it, and the signal.
  Completion drops the handle, which awaiting has detached; so does dropping the future.
\<close>

definition mutate_future ::
  "'h abort_lib \<Rightarrow> ('d, (query_error, 'a) result) oneshot_lib
   \<Rightarrow> ((('h, 'c) pool_task \<times> 'w \<times> 'd option) \<times> 'a mutation_state, (query_error, 'a) result) future" where
  "mutate_future A M =
     \<lparr>fu_poll = (\<lambda>(x, signal).
        (case own A (Inl QueryError_cancelled) (SpawnedTask_poll (ol_rx M)) x of
           (None, y) \<Rightarrow> (None, (y, signal))
         | (Some result, y) \<Rightarrow> (Some result, (y, settled_state result)))),
      fu_drop = (\<lambda>(x, signal). (snd (own A (Inl QueryError_cancelled :: (query_error, 'a) result) (\<lambda>t. ((), SpawnedTask_drop t)) x), signal))\<rparr>"

datatype nested_event = RunExecution | Outer run_event

fun nested_step ::
  "'h abort_lib \<Rightarrow> ('c, unit) oneshot_lib \<Rightarrow> ('d, (query_error, 'a) result) oneshot_lib
   \<Rightarrow> ('w, (query_error, 'a) result) future \<Rightarrow> nested_event
   \<Rightarrow> ('h, 'c) pool_task \<times> ((('h, 'c) pool_task \<times> 'w \<times> 'd option) \<times> 'a mutation_state) \<times> 'd option
   \<Rightarrow> (query_error, 'a) result option list
      \<times> ('h, 'c) pool_task \<times> ((('h, 'c) pool_task \<times> 'w \<times> 'd option) \<times> 'a mutation_state) \<times> 'd option" where
  "nested_step A L M fu RunExecution (p, (x, signal), d) =
     ([], p, (pool_poll A L (result_future M fu) x, signal), d)"
| "nested_step A L M fu (Outer e) y = run_step A L M (mutate_future A M) (Inl QueryError_cancelled) e y"

definition mutate_spawned ::
  "'h abort_lib \<Rightarrow> ('c, unit) oneshot_lib \<Rightarrow> ('d, (query_error, 'a) result) oneshot_lib \<Rightarrow> 'w \<Rightarrow> 'a mutation_state
   \<Rightarrow> ('h, 'c) pool_task \<times> ((('h, 'c) pool_task \<times> 'w \<times> 'd option) \<times> 'a mutation_state) \<times> 'd option" where
  "mutate_spawned A L M w signal = spawned A L M (spawned A L M w, signal)"

lemma nested_runs:
  "trace (nested_step A L M fu) (replicate i RunExecution) (p, (x, signal), d)
   = ([], p, ((pool_poll A L (result_future M fu) ^^ i) x, signal), d)"
  by (induction i arbitrary: x) (simp_all add: funpow_swap1)

lemma task_rel_runs:
  assumes "channel_ok view M" "channel_ok seen L" "task_rel A seen view fu w0 x s"
  shows "task_rel A seen view fu w0 ((pool_poll A L (result_future M fu) ^^ i) x)
     (s\<lparr>ts_phase := (phase_run (\<lambda>k. fst (fu_poll fu (polled fu w0 k))) ^^ i) (ts_phase s)\<rparr>)"
proof (induction i)
  case 0
  show ?case using assms(3) by simp
next
  case (Suc i)
  then show ?case using task_rel_run [OF assms(1,2) Suc.IH] by simp
qed

lemma phase_pending: "\<forall>k<i. ans k = None \<Longrightarrow> (phase_run ans ^^ i) (PhRun 0) = PhRun i"
  by (induction i) auto

lemma spawned_rel_start:
  assumes "abort_ok A" "channel_ok view M" "channel_ok seen L"
  shows "task_rel A seen view fu w (spawned A L M w) task_spec_start"
  using spawned_task_rel [OF assms, of fu undefined "[]" w] by simp

lemma outer_awaits:
  assumes "abort_ok A" "channel_ok view M" "task_rel A seen view fu w0 x s" "spec_answer (Inl QueryError_cancelled) s = None"
  shows "\<exists>y. nested_step A L M fu (Outer RunTask) (PoolRuntime_spawn A L, (x, signal), d) = ([], PoolRuntime_spawn A L, (y, signal), d)
     \<and> task_rel A seen view fu w0 y (s\<lparr>ts_detached := True\<rparr>)"
proof -
  obtain r y where own: "own A (Inl QueryError_cancelled) (SpawnedTask_poll (ol_rx M)) x = (r, y)" by (metis prod.collapse)
  have "r = None" "task_rel A seen view fu w0 y (s\<lparr>ts_detached := True\<rparr>)"
    using task_rel_await [OF assms(2,3) own] assms(4) by simp_all
  then show ?thesis using own assms(1)
    by (simp add: pool_poll_def result_future_def mutate_future_def PoolRuntime_spawn_def abort_ok_def Let_def)
qed

lemma nested_outer:
  "trace (nested_step A L M fu) (map Outer es) y = trace (run_step A L M (mutate_future A M) (Inl QueryError_cancelled)) es y"
  by (induction es arbitrary: y) simp_all

lemma execution_reaches:
  assumes "abort_ok A" "channel_ok view M" "channel_ok seen L" "\<forall>k<i. fst (fu_poll fu (polled fu w k)) = None"
  shows "task_rel A seen view fu w ((pool_poll A L (result_future M fu) ^^ i) (spawned A L M w)) (task_spec_start\<lparr>ts_phase := PhRun i\<rparr>)"
  using task_rel_runs [OF assms(2,3) spawned_rel_start [OF assms(1-3), of fu w], of i] phase_pending [OF assms(4)]
  by (simp add: task_spec_start_def)

text \<open>Dropping the outer future drops the handle it holds, if it has not polled it.\<close>

lemma nested_abandon:
  fixes fu :: "('w, (query_error, 'b) result) future"
  assumes "abort_ok A" "task_rel A seen view fu w0 x s"
  shows "\<exists>p y. trace (nested_step A L M fu) (map Outer [OwnDrop, RunTask]) (PoolRuntime_spawn A L, (x, signal), d) = ([], p, (y, signal), map_option (ol_drop_sender M) d)
     \<and> \<not> pt_live p \<and> task_rel A seen view fu w0 y (if ts_detached s then s else s\<lparr>ts_phase := phase_abort (ts_phase s)\<rparr>)"
proof -
  let ?y = "snd (own A (Inl QueryError_cancelled :: (query_error, 'b) result) (\<lambda>t. ((), SpawnedTask_drop t)) x)"
  have "is_detached (pt_handle (fst x)) = ts_detached s" using assms(2) by (auto simp: task_rel_def)
  then have "task_rel A seen view fu w0 ?y (if ts_detached s then s else s\<lparr>ts_phase := phase_abort (ts_phase s)\<rparr>)"
    using task_rel_abort [OF assms] assms(2) by (auto simp: own_drop)
  moreover have "\<exists>p. trace (nested_step A L M fu) (map Outer [OwnDrop, RunTask]) (PoolRuntime_spawn A L, (x, signal), d) = ([], p, (?y, signal), map_option (ol_drop_sender M) d)
     \<and> \<not> pt_live p"
    using assms(1) unfolding nested_outer
    by (auto simp: own_drop own_def [of _ _ "\<lambda>t. ([], _ t)"] owned_task_def PoolRuntime_spawn_def SpawnHandle_new_def SpawnedTask_abort_def SpawnHandle_abort_def
      is_detached_def pool_poll_def result_future_def mutate_future_def abort_ok_def Let_def)
  ultimately show ?thesis by blast
qed

text \<open>
  What dropping the handle of \<open>UseMutation::mutate\<close> does, for an execution of any length. Before
  the outer task has run once, it aborts the execution: the execution is dropped where it is and never
  polled again. After the outer task has run once it no longer does: the outer task is dropped, so the
  signal stays as it was, but the execution goes on exactly as if nobody had dropped anything and its
  effects take place. The documentation says that dropping the handle aborts the execution.
\<close>

theorem mutation_drop_aborts:
  assumes "abort_ok A" and "channel_ok view M" and "channel_ok seen L"
    and ans: "ans = (\<lambda>k. fst (fu_poll fu (polled fu w k)))" and "\<forall>k<i. ans k = None"
    and "trace (nested_step A L M fu) (replicate i RunExecution @ map Outer [OwnDrop, RunTask] @ replicate (Suc j) RunExecution)
       (mutate_spawned A L M w signal) = (outs1, p1, ((q1, w1, d1), signal1), e1)"
    and "trace (nested_step A L M fu) (replicate i RunExecution @ Outer RunTask # map Outer [OwnDrop, RunTask] @ replicate j RunExecution)
       (mutate_spawned A L M w signal) = (outs2, p2, ((q2, w2, d2), signal2), e2)"
  shows "w1 = fu_drop fu (polled fu w i) \<and> \<not> pt_live q1 \<and> signal1 = signal
   \<and> w2 = phase_world fu w ((phase_run ans ^^ j) (PhRun i)) \<and> \<not> pt_live p2 \<and> signal2 = signal"
proof -
  let ?x = "(pool_poll A L (result_future M fu) ^^ i) (spawned A L M w)" and ?s = "task_spec_start\<lparr>ts_phase := PhRun i\<rparr>"
  let ?outer = "\<lambda>x. (PoolRuntime_spawn A L, (x, signal), Some (ol_channel M))"
  have rel: "task_rel A seen view fu w ?x ?s" by (rule execution_reaches [OF assms(1-3) assms(5) [unfolded ans]])
  have outer: "mutate_spawned A L M w signal = ?outer (spawned A L M w)"
    unfolding mutate_spawned_def by (subst spawned_def) simp
  have start: "trace (nested_step A L M fu) (replicate i RunExecution @ es) (mutate_spawned A L M w signal)
      = trace (nested_step A L M fu) es (?outer ?x)" for es
    by (simp add: outer trace_append nested_runs)
  obtain p y where y: "trace (nested_step A L M fu) (map Outer [OwnDrop, RunTask]) (?outer ?x)
      = ([], p, (y, signal), Some (ol_drop_sender M (ol_channel M)))" "task_rel A seen view fu w y (?s\<lparr>ts_phase := PhAbort i\<rparr>)"
    using nested_abandon [OF assms(1) rel, of L M signal "Some (ol_channel M)"] by (auto simp: task_spec_start_def)
  obtain z where z: "nested_step A L M fu (Outer RunTask) (?outer ?x) = ([], ?outer z)"
    "task_rel A seen view fu w z (?s\<lparr>ts_detached := True\<rparr>)"
    using outer_awaits [OF assms(1,2) rel, of L signal "Some (ol_channel M)"] by (auto simp: spec_answer_def)
  obtain p' y' where y': "trace (nested_step A L M fu) (map Outer [OwnDrop, RunTask]) (?outer z)
      = ([], p', (y', signal), Some (ol_drop_sender M (ol_channel M)))" "\<not> pt_live p'"
    "task_rel A seen view fu w y' (?s\<lparr>ts_detached := True\<rparr>)"
    using nested_abandon [OF assms(1) z(2), of L M signal "Some (ol_channel M)"] by auto
  have end1: "(pool_poll A L (result_future M fu) ^^ Suc j) y = (q1, w1, d1)" "signal1 = signal"
    using assms(6) unfolding start trace_silent(1) [OF y(1)] nested_runs by simp_all
  have end2: "(pool_poll A L (result_future M fu) ^^ j) y' = (q2, w2, d2)" "signal2 = signal" "p2 = p'"
    using assms(7) unfolding start trace_silent(2) [of "nested_step A L M fu", OF z(1)] trace_silent(1) [OF y'(1)] nested_runs
    by simp_all
  have "w1 = fu_drop fu (polled fu w i)" "\<not> pt_live q1"
    using task_rel_runs [OF assms(2,3) y(2), of "Suc j"] unfolding end1
    by (simp_all add: task_rel_def funpow_Suc_right phase_runs_fixed del: funpow.simps)
  moreover have "w2 = phase_world fu w ((phase_run ans ^^ j) (PhRun i))"
    using task_rel_runs [OF assms(2,3) y'(3), of j] unfolding end2 by (simp add: task_rel_def ans)
  ultimately show ?thesis using y'(2) end1(2) end2(2,3) by simp
qed

subsection \<open>Tasks that replay a script\<close>

text \<open>
  An async block of the crate as a future. Its state is the state it shares with others and, once it
  has started, the passes of its loop it has made; \<open>env k\<close> is pass number \<open>k\<close>, and \<open>run\<close> is the
  definition of the block, which gives \<open>None\<close> while it waits. Each poll makes one more pass, and the
  shared state is brought up to date when the block ends or is dropped.
\<close>

definition script_future ::
  "('x list \<Rightarrow> 'w \<Rightarrow> ('o \<times> 'w) option) \<Rightarrow> ('x list option \<Rightarrow> 'w \<Rightarrow> 'w) \<Rightarrow> (nat \<Rightarrow> 'x)
   \<Rightarrow> ('w \<times> 'x list option, 'o) future" where
  "script_future run dropped env =
     \<lparr>fu_poll = (\<lambda>(w, st).
        let es = (case st of None \<Rightarrow> [] | Some es \<Rightarrow> es @ [env (length es)])
        in case run es w of None \<Rightarrow> (None, (w, Some es)) | Some (r, w') \<Rightarrow> (Some r, (w', Some es))),
      fu_drop = (\<lambda>(w, st). (dropped st w, st))\<rparr>"

definition passes :: "(nat \<Rightarrow> 'x) \<Rightarrow> nat \<Rightarrow> 'x list option" where
  "passes env i = (if i = 0 then None else Some (map env [0..<i - 1]))"

definition waits :: "('x list \<Rightarrow> 'w \<Rightarrow> ('o \<times> 'w) option) \<Rightarrow> (nat \<Rightarrow> 'x) \<Rightarrow> nat \<Rightarrow> 'w \<Rightarrow> bool" where
  "waits run env i w \<longleftrightarrow> (\<forall>k<i. run (map env [0..<k]) w = None)"

lemma script_poll:
  "fu_poll (script_future run dropped env) (w, passes env k)
   = (case run (map env [0..<k]) w of
        None \<Rightarrow> (None, (w, Some (map env [0..<k]))) | Some (r, w') \<Rightarrow> (Some r, (w', Some (map env [0..<k]))))"
  by (cases k) (auto simp: script_future_def passes_def Let_def split: option.splits)

lemma script_pending:
  "waits run env i w \<Longrightarrow> polled (script_future run dropped env) (w, None) i = (w, passes env i)"
proof (induction i)
  case (Suc i)
  let ?f = "script_future run dropped env"
  have "polled ?f (w, None) (Suc i) = snd (fu_poll ?f (polled ?f (w, None) i))" by simp
  also have "\<dots> = (w, Some (map env [0..<i]))" using Suc by (simp add: script_poll waits_def)
  finally show ?case by (simp add: passes_def)
qed (simp add: polled_def passes_def)

lemma script_runs:
  assumes "abort_ok A" "channel_ok view M" "channel_ok seen L" "waits run env i w"
  shows "\<exists>p d. trace (run_step A L M (script_future run dropped env) fallback) (replicate i RunTask) (spawned A L M (w, None))
      = ([], p, (w, passes env i), d) \<and> pt_live p"
proof -
  let ?f = "script_future run dropped env"
  obtain outs p w' d where t: "trace (run_step A L M ?f fallback) (replicate i RunTask) (spawned A L M (w, None)) = (outs, p, w', d)"
    by (metis prod_cases4)
  have "fst (fu_poll ?f (polled ?f (w, None) k)) = None" if "k < i" for k
    using script_pending [of run env k w dropped] assms(4) that by (simp add: script_poll waits_def)
  then have "(phase_run (\<lambda>k. fst (fu_poll ?f (polled ?f (w, None) k))) ^^ i) (PhRun 0) = PhRun i"
    by (intro phase_pending) simp
  then show ?thesis
    using spawned_task_rel [OF assms(1-3) t] script_pending [OF assms(4)] t
    by (auto simp: task_spec_runs task_spec_start_def task_rel_def)
qed

text \<open>What is left of a block whose handle is dropped while it waits.\<close>

lemma script_dropped:
  assumes "abort_ok A" "channel_ok view M" "channel_ok seen L" "waits run env i w"
    and "trace (run_step A L M (script_future run dropped env) fallback) (replicate i RunTask @ OwnDrop # replicate (Suc j) RunTask)
       (spawned A L M (w, None)) = (outs, p, (w', st), d)"
  shows "w' = dropped (passes env i) w" "\<not> pt_live p"
proof -
  obtain p0 d0 where "trace (run_step A L M (script_future run dropped env) fallback) (replicate i RunTask) (spawned A L M (w, None))
      = ([], p0, (w, passes env i), d0)" "pt_live p0"
    using script_runs [OF assms(1-4)] by blast
  from dropped_task_stops [OF assms(1-3) this(1) _ _ assms(5)] this(2)
  show "w' = dropped (passes env i) w" "\<not> pt_live p" by (simp_all add: script_future_def)
qed

subsection \<open>Spawned fetches\<close>

definition FetchingGuard_drop :: "'v client \<Rightarrow> 'v client" where
  "FetchingGuard_drop c = dec_fetching c"

text \<open>The client of a fetch that waits in its fetch function after the failed passes \<open>es\<close>: it has announced
  loading, and the rest is what others did.\<close>

definition suspended_client :: "'v query \<Rightarrow> 'v attempt_env list \<Rightarrow> 'v client \<Rightarrow> 'v client" where
  "suspended_client q es c =
     fold (\<lambda>e c. ae_post e (ae_during e c)) es (notify_subscribers (cache_key (q_key q)) V_Loading c)"

definition fetch_dropped :: "'v query \<Rightarrow> 'v attempt_env list option \<Rightarrow> 'v client \<Rightarrow> 'v client" where
  "fetch_dropped q st c = FetchingGuard_drop (case st of None \<Rightarrow> c | Some es \<Rightarrow> suspended_client q es c)"

definition fetch_future ::
  "('v dynval \<Rightarrow> 'v dynval \<Rightarrow> bool) \<Rightarrow> type_id \<Rightarrow> instant \<Rightarrow> 'v query \<Rightarrow> (nat \<Rightarrow> 'v attempt_env)
   \<Rightarrow> ('v client \<times> 'v attempt_env list option, 'v dynval query_state) future" where
  "fetch_future peq ty now q env = script_future (\<lambda>es. spawned_task peq ty now es q) (fetch_dropped q) env"

text \<open>The client on which the task of \<open>spawn_query\<close> runs, once it is registered.\<close>

definition registered_client :: "'v query \<Rightarrow> in_flight_task \<Rightarrow> 'v client \<Rightarrow> 'v client" where
  "registered_client q t c = set_in_flight (q_key q) t (inc_fetching c)"

text \<open>A waiter whose key nobody announces anything for.\<close>

lemma dedup_loop_idle:
  assumes "dm_get (cl_subscribers c) (cache_key key) = Some b" "senders_alive b"
    "dm_get (receivers b) i = Some s" "rs_queue s = []" "rs_missed s = 0"
  shows "dedup_loop ty key i (replicate n (\<lambda>c. c)) c = None"
  using assms
proof (induction n arbitrary: c b)
  case (Suc n)
  let ?b = "b\<lparr>receivers := dm_insert i s (receivers b)\<rparr>"
  have "client_poll (cache_key key) i c = (Inl TE_Empty, c\<lparr>cl_subscribers := dm_insert (cache_key key) ?b (cl_subscribers c)\<rparr>)"
    using Suc.prems by (simp add: client_poll_def poll_state_def poll_recv_def)
  then show ?case using Suc.prems by (simp add: Suc.IH [of _ ?b])
qed simp

lemma dedup_idle:
  assumes "get_query_data ty key c = None"
    and "\<forall>b. dm_get (cl_subscribers c) (cache_key key) = Some b \<longrightarrow> senders_alive b"
  shows "wait_for_dedup ty now key (replicate n (\<lambda>c. c)) c = None"
proof -
  obtain c1 i where sub: "client_subscribe (cache_key key) c = (c1, i)" by fastforce
  then obtain b s where "dm_get (cl_subscribers c1) (cache_key key) = Some b" "senders_alive b"
    "dm_get (receivers b) i = Some s" "rs_queue s = []" "rs_missed s = 0"
    using assms(2) by (auto simp: client_subscribe_def Sender_subscribe_def fresh_recv_def new_sender_def Receiver_drop_def
        Sender_channel_def Let_def split: option.splits)
  moreover have "get_query_data ty key c1 = None"
    using assms(1) sub subscribe_frame(1) [of "cache_key key" c] by (simp add: get_query_data_def)
  ultimately show ?thesis by (simp add: wait_for_dedup_def sub dedup_loop_idle)
qed

text \<open>
  Dropping the handle of a spawned fetch, after any number of its passes and with nobody else at
  work, ends the fetch and its share of the fetching counter, but the key stays in flight: neither the
  registration is removed nor a final state announced. Every later execution of the query, which has no
  data to fall back on, then waits for the dead fetch, and does so for as long as nobody announces
  anything for the key. Cancelling the query through the client does release it.
\<close>

theorem dropped_fetch_blocks_key:
  assumes "abort_ok A" and "channel_ok view M" and "channel_ok seen L"
    and "\<not> client_is_restoring c" and "get_query_data ty (q_key q) c = None"
    and "\<forall>b. dm_get (cl_subscribers c) (cache_key (q_key q)) = Some b \<longrightarrow> senders_alive b"
    and "\<forall>k. ae_during (env k) = (\<lambda>c. c) \<and> ae_post (env k) = (\<lambda>c. c)"
    and "waits (\<lambda>es. spawned_task peq ty now es q) env i (registered_client q t c)"
    and "trace (run_step A L M (fetch_future peq ty now q env) fallback) (replicate i RunTask @ OwnDrop # replicate (Suc j) RunTask)
       (spawned A L M (registered_client q t c, None)) = (outs, p, (c', st), d)"
  shows "\<not> pt_live p \<and> cl_fetching_count c' = cl_fetching_count c \<and> is_in_flight (q_key q) c'
   \<and> execute_query peq ty now' (replicate n (\<lambda>c. c)) envs q c' = None
   \<and> \<not> is_in_flight (q_key q) (cancel_query (q_key q) c')"
proof -
  let ?c = "registered_client q t c"
  note drop = script_dropped [OF assms(1-3,8), OF assms(9) [unfolded fetch_future_def]]
  have "suspended_client q (map env ks) ?c = notify_subscribers (cache_key (q_key q)) V_Loading ?c" for ks
    unfolding suspended_client_def by (rule fold_idle) (use assms(7) in auto)
  then have c': "c' = dec_fetching (if i = 0 then ?c else notify_subscribers (cache_key (q_key q)) V_Loading ?c)"
    by (simp add: drop(1) fetch_dropped_def FetchingGuard_drop_def passes_def)
  have "\<not> client_is_restoring c'" "is_in_flight (q_key q) c'" "get_query_data ty (q_key q) c' = None"
    "cl_fetching_count c' = cl_fetching_count c"
    using assms(4,5) by (simp_all add: c' registered_client_def client_is_restoring_def is_in_flight_def get_query_data_def
        set_in_flight_def dec_fetching_def inc_fetching_def send_activity_def notify_subscribers_def dm_contains_def Let_def)
  moreover have "\<forall>b. dm_get (cl_subscribers c') (cache_key (q_key q)) = Some b \<longrightarrow> senders_alive b"
    using assms(6) by (auto simp: c' registered_client_def set_in_flight_def dec_fetching_def inc_fetching_def send_activity_def
        notify_subscribers_def Sender_send_def Let_def split: if_splits)
  ultimately show ?thesis
    using drop(2) dedup_idle [of ty "q_key q" c' now' n]
    by (auto simp: execute_query_def execute_query_inner_def cancel_query_def abort_in_flight_def is_in_flight_def dm_contains_def
      split: option.splits)
qed

text \<open>What the handles answer when there is no result any more: the closures given to \<open>SpawnedTask::new\<close>. The
  one of a fetch reads the cache when it is polled.\<close>

definition spawn_query_fallback :: "type_id \<Rightarrow> 'v query \<Rightarrow> 'v client \<Rightarrow> 'v dynval query_state" where
  "spawn_query_fallback ty q c = Error QueryError_cancelled (get_query_data ty (q_key q) c)"

definition spawn_mutation_fallback :: "'a mutation_state" where
  "spawn_mutation_fallback = MError QueryError_cancelled"

definition mutate_fallback :: "(query_error, 'a) result" where
  "mutate_fallback = Inl QueryError_cancelled"

text \<open>
  Aborting the handle of a fetch that waits, at any of its passes, and awaiting it afterwards gives the
  cancellation error with whatever data the cache holds for the key at that time.
\<close>

theorem aborted_fetch_answer:
  assumes "abort_ok A" and "channel_ok view M" and "channel_ok seen L"
    and "waits (\<lambda>es. spawned_task peq ty now es q) env i c"
    and "trace (run_step A L M (fetch_future peq ty now q env) (spawn_query_fallback ty q c'))
       (replicate i RunTask @ OwnAbort # replicate (Suc j) RunTask @ [OwnPoll]) (spawned A L M (c, None)) = (outs, p, (c', st), d)"
  shows "outs = [Some (Error QueryError_cancelled (get_query_data ty (q_key q) c'))]"
proof -
  let ?f = "fetch_future peq ty now q env" and ?fb = "spawn_query_fallback ty q c'"
  let ?ans = "\<lambda>k. fst (fu_poll ?f (polled ?f (c, None) k))"
  have "?ans k = None" if "k < i" for k
    using script_pending [of "\<lambda>es. spawned_task peq ty now es q" env k c "fetch_dropped q"] assms(4) that unfolding fetch_future_def
    by (simp add: script_poll waits_def)
  then have pending: "(phase_run ?ans ^^ i) (PhRun 0) = PhRun i" by (intro phase_pending) simp
  have "(phase_run ?ans ^^ Suc j) (PhAbort i) = PhGone i" by (simp add: funpow_Suc_right phase_runs_fixed del: funpow.simps)
  moreover obtain s where "trace (task_spec_step ?ans ?fb) (replicate i RunTask @ OwnAbort # replicate (Suc j) RunTask @ [OwnPoll]) task_spec_start = (outs, s)"
    using spawned_task_rel [OF assms(1-3,5)] by blast
  ultimately show ?thesis
    by (simp add: trace_append task_spec_runs task_spec_start_def pending spec_answer_def spawn_query_fallback_def
      del: replicate.simps funpow.simps)
qed

subsection \<open>Spawned mutations\<close>

text \<open>The client and the mutation cache while a mutation, admitted by its scope at once, waits for its mutate
  function after the failed attempts \<open>es\<close>: entered in the cache, its scope marked, its optimistic update
  applied. Dropping its future there runs none of the code that settles, rolls back or releases.\<close>

definition suspended_mutation ::
  "'v mutation \<Rightarrow> nat \<Rightarrow> ('v, 'a) mutate_attempt list \<Rightarrow> 'v client \<times> mutation_cache \<Rightarrow> 'v client \<times> mutation_cache" where
  "suspended_mutation mu now es cm =
     (let (m1, i) = mc_add (pending_entry mu now) (snd cm);
          m2 = fire_on_mutate i m1;
          m3 = (case mu_scope mu of
                  None \<Rightarrow> m2
                | Some sc \<Rightarrow> scope_enter (scope_id sc) i (fst (subscribe_scope (scope_id sc) m2)));
          cm4 = (case mu_on_mutate mu of
                   None \<Rightarrow> (fst cm, m3)
                 | Some f \<Rightarrow> (fst (f (fst cm)), fst (mc_update i entry_context m3)))
      in fold (\<lambda>a cm. (ma_client a (fst cm), ma_cache a (snd cm))) es cm4)"

definition mutation_dropped ::
  "'v mutation \<Rightarrow> nat \<Rightarrow> ('v, 'a) mutate_attempt list option \<Rightarrow> 'v client \<times> mutation_cache \<Rightarrow> 'v client \<times> mutation_cache" where
  "mutation_dropped mu now st cm = (case st of None \<Rightarrow> cm | Some es \<Rightarrow> suspended_mutation mu now es cm)"

definition mutation_future ::
  "'v mutation \<Rightarrow> mutate_options option \<Rightarrow> nat \<Rightarrow> (nat \<Rightarrow> ('v, 'a) mutate_attempt)
   \<Rightarrow> (('v client \<times> mutation_cache) \<times> ('v, 'a) mutate_attempt list option, (query_error, 'a) result) future" where
  "mutation_future mu per_call now env =
     script_future
       (\<lambda>es cm. map_option (\<lambda>(r, cm', ds). (r, cm')) (execute_mutation_full_tracked mu per_call now [] es cm))
       (mutation_dropped mu now) env"

lemma scope_gate_busy: "\<not> can_run s (snd cm) \<Longrightarrow> scope_gate s i (replicate n (\<lambda>x. x)) cm = None"
  by (induction n) (simp_all add: scope_gate.simps)

lemma busy_scope_waits:
  assumes "mu_scope mu = Some sc" "\<not> can_run (scope_id sc) m"
  shows "execute_mutation_full_tracked mu per_call now (replicate n (\<lambda>x. x)) as (c, m) = None"
proof -
  obtain m1 i where add: "mc_add (pending_entry mu now) m = (m1, i)" by fastforce
  then have "\<not> can_run (scope_id sc) (fst (subscribe_scope (scope_id sc) (fire_on_mutate i m1)))"
    using assms(2) can_run_add [of "scope_id sc" i "pending_entry mu now" m] by simp
  then show ?thesis using assms(1) add by (simp add: execute_mutation_full_tracked_def scope_gate_busy del: scope_gate.simps)
qed

lemma suspended_scope_busy:
  assumes "mu_scope mu = Some sc" "\<forall>a\<in>set es. ma_client a = (\<lambda>c. c) \<and> ma_cache a = (\<lambda>m. m)"
  shows "\<not> can_run (scope_id sc) (snd (suspended_mutation mu now es (c, m)))"
    "fst (suspended_mutation mu now es (c, m)) = (case mu_on_mutate mu of None \<Rightarrow> c | Some f \<Rightarrow> fst (f c))"
proof -
  have idle: "fold (\<lambda>a cm. (ma_client a (fst cm), ma_cache a (snd cm))) es cm = cm" for cm
    by (rule fold_idle) (use assms(2) in auto)
  show "\<not> can_run (scope_id sc) (snd (suspended_mutation mu now es (c, m)))"
    using assms(1) scope_enter_busy
    by (auto simp: suspended_mutation_def idle Let_def can_run_def [of _ "fst (mc_update _ _ _)"]
        simp flip: can_run_def split: option.splits prod.splits)
  show "fst (suspended_mutation mu now es (c, m)) = (case mu_on_mutate mu of None \<Rightarrow> c | Some f \<Rightarrow> fst (f c))"
    by (auto simp: suspended_mutation_def idle Let_def split: option.splits prod.splits)
qed

text \<open>
  Dropping the handle of a scoped mutation that its scope has admitted, after any number of its
  attempts and with nobody else at work. The execution ends, but the scope stays marked, so that every
  later mutation of the scope waits for it and does so for ever; and the optimistic update it has made
  to the client stays, neither confirmed nor rolled back.
\<close>

theorem dropped_mutation_blocks_scope:
  assumes "abort_ok A" and "channel_ok view M" and "channel_ok seen L"
    and "mu_scope mu = Some sc" and "can_run (scope_id sc) m" and "0 < i"
    and "\<forall>k. ma_client (env k) = (\<lambda>c. c) \<and> ma_cache (env k) = (\<lambda>m. m)"
    and "waits (\<lambda>es cm. map_option (\<lambda>(r, cm', ds). (r, cm')) (execute_mutation_full_tracked mu per_call now [] es cm)) env i (c, m)"
    and "trace (run_step A L M (mutation_future mu per_call now env) (Inl QueryError_cancelled))
       (replicate i RunTask @ OwnDrop # replicate (Suc j) RunTask) (spawned A L M ((c, m), None)) = (outs, p, ((c', m'), st), d)"
    and "mu_scope mu' = Some sc"
  shows "\<not> pt_live p \<and> c' = (case mu_on_mutate mu of None \<Rightarrow> c | Some f \<Rightarrow> fst (f c)) \<and> \<not> can_run (scope_id sc) m'
   \<and> execute_mutation_full_tracked mu' per_call' now' (replicate n (\<lambda>x. x)) as (c', m') = None"
proof -
  note drop = script_dropped [OF assms(1-3,8), OF assms(9) [unfolded mutation_future_def]]
  have "(c', m') = suspended_mutation mu now (map env [0..<i - 1]) (c, m)"
    using drop(1) assms(6) by (simp add: mutation_dropped_def passes_def)
  then have "\<not> can_run (scope_id sc) m'" "c' = (case mu_on_mutate mu of None \<Rightarrow> c | Some f \<Rightarrow> fst (f c))"
    using suspended_scope_busy [OF assms(4), of "map env [0..<i - 1]" now c m] assms(7)
    by (metis (no_types, lifting) fst_conv snd_conv ex_map_conv)+
  then show ?thesis using drop(2) busy_scope_waits [OF assms(10)] by simp
qed

subsection \<open>Witnesses\<close>

text \<open>An execution that counts its polls and succeeds at the third.\<close>

definition demo_execution :: "(nat, (query_error, nat) result) future" where
  "demo_execution = \<lparr>fu_poll = (\<lambda>n. (if n = 2 then Some (Inr 7) else None, n + 1)), fu_drop = (\<lambda>n. n + 100)\<rparr>"

theorem mutation_drop_aborts_witness:
  "\<exists>outs p q d signal e. trace (nested_step demo_abort demo_lib demo_lib demo_execution)
       (replicate 1 RunExecution @ Outer RunTask # map Outer [OwnDrop, RunTask] @ replicate 2 RunExecution)
       (mutate_spawned demo_abort demo_lib demo_lib 0 MIdle) = (outs, p, ((q, 3, d), signal), e) \<and> signal = MIdle"
proof -
  let ?run = "\<lambda>es. trace (nested_step demo_abort demo_lib demo_lib demo_execution) es (mutate_spawned demo_abort demo_lib demo_lib 0 MIdle)"
  obtain outs1 p1 q1 w1 d1 s1 e1 where run1: "?run (replicate 1 RunExecution @ map Outer [OwnDrop, RunTask] @ replicate (Suc 2) RunExecution)
      = (outs1, p1, ((q1, w1, d1), s1), e1)" by (metis prod.collapse)
  obtain outs2 p2 q2 w2 d2 s2 e2 where run2: "?run (replicate 1 RunExecution @ Outer RunTask # map Outer [OwnDrop, RunTask] @ replicate 2 RunExecution)
      = (outs2, p2, ((q2, w2, d2), s2), e2)" by (metis prod.collapse)
  have "\<forall>k<1. fst (fu_poll demo_execution (polled demo_execution 0 k)) = None" by (simp add: demo_execution_def)
  note result = mutation_drop_aborts [OF demo_libs_ok(2,1,1) refl this run1 run2]
  have "phase_world demo_execution 0 ((phase_run (\<lambda>k. fst (fu_poll demo_execution (polled demo_execution 0 k))) ^^ 2) (PhRun 1)) = 3"
    by (simp add: polled_def demo_execution_def numeral_eq_Suc)
  then show ?thesis using result run2 by auto
qed

theorem dropped_fetch_blocks_key_witness:
  "\<exists>outs p c st d. trace (run_step demo_abort demo_lib demo_lib
         (fetch_future (=) (T_Other 0) 0 (Query_new (QueryKey_new ''k'')) (\<lambda>_. failing_env)) Idle)
         (replicate 1 RunTask @ OwnDrop # replicate (Suc 0) RunTask)
         (spawned demo_abort demo_lib demo_lib
            (registered_client (Query_new (QueryKey_new ''k'')) \<lparr>if_abort = 1, if_cancel_token = 1\<rparr> (QueryClient_new :: nat client), None))
       = (outs, p, (c, st), d)
     \<and> execute_query (=) (T_Other 0) 5 (replicate 1000 (\<lambda>c. c)) [] (Query_new (QueryKey_new ''k'')) c = None"
proof -
  let ?q = "Query_new (QueryKey_new ''k'') :: nat query" and ?t = "\<lparr>if_abort = 1, if_cancel_token = 1\<rparr>"
  obtain outs p c st d where run: "trace (run_step demo_abort demo_lib demo_lib (fetch_future (=) (T_Other 0) 0 ?q (\<lambda>_. failing_env)) Idle)
      (replicate 1 RunTask @ OwnDrop # replicate (Suc 0) RunTask)
      (spawned demo_abort demo_lib demo_lib (registered_client ?q ?t QueryClient_new, None)) = (outs, p, (c, st), d)"
    by (metis prod.collapse)
  have "spawned_task (=) (T_Other 0) 0 [] ?q (registered_client ?q ?t QueryClient_new) = None"
    by (simp add: spawned_task_def execute_query_inner_def client_is_restoring_def registered_client_def set_in_flight_def
        inc_fetching_def send_activity_def QueryClient_new_def OnlineManager_is_online_def OnlineManager_new_def Let_def)
  then have "waits (\<lambda>es. spawned_task (=) (T_Other 0) 0 es ?q) (\<lambda>_. failing_env) 1 (registered_client ?q ?t QueryClient_new)"
    by (simp add: waits_def)
  then have "execute_query (=) (T_Other 0) 5 (replicate 1000 (\<lambda>c. c)) [] ?q c = None"
    by (intro dropped_fetch_blocks_key [OF demo_libs_ok(2,1,1) _ _ _ _ _ run, THEN conjunct2, THEN conjunct2, THEN conjunct2, THEN conjunct1])
      (simp_all add: client_is_restoring_def QueryClient_new_def get_query_data_def failing_env_def)
  then show ?thesis using run by blast
qed

definition demo_scoped :: "nat mutation" where
  "demo_scoped = Mutation_set_scope \<lparr>scope_id = ''s''\<rparr> Mutation_new"

definition demo_attempt :: "(nat, nat) mutate_attempt" where
  "demo_attempt = \<lparr>ma_client = (\<lambda>c. c), ma_cache = (\<lambda>m. m), ma_result = Inr 1\<rparr>"

theorem dropped_mutation_blocks_scope_witness:
  "\<exists>outs p c m st d. trace (run_step demo_abort demo_lib demo_lib (mutation_future demo_scoped None 0 (\<lambda>_. demo_attempt))
         (Inl QueryError_cancelled)) (replicate 1 RunTask @ OwnDrop # replicate (Suc 0) RunTask)
         (spawned demo_abort demo_lib demo_lib ((QueryClient_new, MutationCache_new), None)) = (outs, p, ((c, m), st), d)
     \<and> execute_mutation_full_tracked demo_scoped None 5 (replicate 1000 (\<lambda>x. x)) [demo_attempt] (c, m) = None"
proof -
  obtain outs p c m st d where run: "trace (run_step demo_abort demo_lib demo_lib
      (mutation_future demo_scoped None 0 (\<lambda>_. demo_attempt)) (Inl QueryError_cancelled))
      (replicate 1 RunTask @ OwnDrop # replicate (Suc 0) RunTask)
      (spawned demo_abort demo_lib demo_lib ((QueryClient_new, MutationCache_new), None)) = (outs, p, ((c, m), st), d)"
    by (metis prod.collapse)
  have sc: "mu_scope demo_scoped = Some \<lparr>scope_id = ''s''\<rparr>" by (simp add: demo_scoped_def Mutation_set_scope_def)
  have free: "can_run (scope_id \<lparr>scope_id = ''s''\<rparr>) MutationCache_new"
    by (simp add: can_run_def MutationCache_new_def MutationCache_with_config_def)
  have "execute_mutation_full_tracked demo_scoped None 0 [] [] (QueryClient_new, MutationCache_new) = (None :: ((query_error, nat) result \<times> _) option)"
    by (auto simp: execute_mutation_full_tracked_def sc run_acquired_def finish_mutation_def demo_scoped_def Mutation_set_scope_def
        Mutation_new_def Let_def split: option.splits prod.splits)
  then have waits: "waits (\<lambda>es cm. map_option (\<lambda>(r, cm', ds). (r, cm')) (execute_mutation_full_tracked demo_scoped None 0 [] es cm))
      (\<lambda>_. demo_attempt) 1 (QueryClient_new, MutationCache_new)"
    by (simp add: waits_def)
  have "\<forall>k::nat. ma_client demo_attempt = (\<lambda>c. c) \<and> ma_cache demo_attempt = (\<lambda>m. m)" by (simp add: demo_attempt_def)
  from dropped_mutation_blocks_scope [OF demo_libs_ok(2,1,1) sc free zero_less_one this waits run sc] run
  show ?thesis by blast
qed

end
