(* ===== verification/Infinite_Binding.thy ===== *)
theory Infinite_Binding
  imports Hooks
begin

text \<open>
  \<open>UseInfiniteQuery\<close> of \<open>src/hooks.rs\<close>: the methods of the infinite query binding, which hand on to its
  observer, and the way of a page request through the whole system: from the binding into the request
  slot, to the page loop, into the cache, and back into the signal of the binding.
\<close>

subsection \<open>Methods\<close>

text \<open>The request slot is shared with the page loop, the client with everybody.\<close>

definition ui_via ::
  "('v infinite_observer \<times> page_slot \<Rightarrow> 'v infinite_observer \<times> page_slot)
   \<Rightarrow> 'v use_infinite_handle \<times> page_slot \<Rightarrow> 'v use_infinite_handle \<times> page_slot" where
  "ui_via f x = (let (io, slot) = f (ui_observer (fst x), snd x) in ((fst x)\<lparr>ui_observer := io\<rparr>, slot))"

definition ui_fetch_next_page :: "'v use_infinite_handle \<times> page_slot \<Rightarrow> 'v use_infinite_handle \<times> page_slot" where
  "ui_fetch_next_page x = ui_via fetch_next_page x"

definition ui_fetch_previous_page :: "'v use_infinite_handle \<times> page_slot \<Rightarrow> 'v use_infinite_handle \<times> page_slot" where
  "ui_fetch_previous_page x = ui_via fetch_previous_page x"

definition ui_via_client ::
  "('v client \<Rightarrow> 'v infinite_observer \<times> page_slot \<Rightarrow> 'v client \<times> 'v infinite_observer \<times> page_slot)
   \<Rightarrow> 'v client \<Rightarrow> 'v use_infinite_handle \<times> page_slot \<Rightarrow> 'v client \<times> 'v use_infinite_handle \<times> page_slot" where
  "ui_via_client f c x =
     (let (c', io, slot) = f c (ui_observer (fst x), snd x) in (c', (fst x)\<lparr>ui_observer := io\<rparr>, slot))"

definition ui_fetch_next_page_with ::
  "bool \<Rightarrow> 'v client \<Rightarrow> 'v use_infinite_handle \<times> page_slot \<Rightarrow> 'v client \<times> 'v use_infinite_handle \<times> page_slot" where
  "ui_fetch_next_page_with cancel_refetch = ui_via_client (fetch_next_page_with cancel_refetch)"

definition ui_fetch_previous_page_with ::
  "bool \<Rightarrow> 'v client \<Rightarrow> 'v use_infinite_handle \<times> page_slot \<Rightarrow> 'v client \<times> 'v use_infinite_handle \<times> page_slot" where
  "ui_fetch_previous_page_with cancel_refetch = ui_via_client (fetch_previous_page_with cancel_refetch)"

definition ui_has_next_page :: "nat \<Rightarrow> nat \<Rightarrow> 'v client \<Rightarrow> 'v use_infinite_handle \<Rightarrow> bool" where
  "ui_has_next_page t p c u = io_has_next_page t p c (ui_observer u)"

definition ui_has_previous_page :: "nat \<Rightarrow> nat \<Rightarrow> 'v client \<Rightarrow> 'v use_infinite_handle \<Rightarrow> bool" where
  "ui_has_previous_page t p c u = io_has_previous_page t p c (ui_observer u)"

definition ui_is_fetching :: "'v client \<Rightarrow> 'v use_infinite_handle \<Rightarrow> bool" where
  "ui_is_fetching c u = io_is_fetching c (ui_observer u)"

definition ui_is_fetching_next_page :: "'v client \<Rightarrow> 'v use_infinite_handle \<Rightarrow> bool" where
  "ui_is_fetching_next_page c u = is_fetching_next_page c (ui_observer u)"

definition ui_is_fetching_previous_page :: "'v client \<Rightarrow> 'v use_infinite_handle \<Rightarrow> bool" where
  "ui_is_fetching_previous_page c u = is_fetching_previous_page c (ui_observer u)"

subsection \<open>A page request from end to end\<close>

text \<open>The pages after one more page, with the oldest dropped beyond \<open>max_pages\<close>.\<close>

definition pages_after :: "'v infinite_query \<Rightarrow> 'v \<Rightarrow> 'v \<Rightarrow> 'v infinite_data \<Rightarrow> 'v infinite_data" where
  "pages_after q page param d =
     (case iq_max_pages q of
        None \<Rightarrow> push_page page param d
      | Some n \<Rightarrow> \<lparr>pages = last_n n (pages d @ [page]), page_params = last_n n (page_params d @ [param])\<rparr>)"

lemma serve_next_page:
  assumes "client_wf c" "get_infinite_data t p (iq_key q) c = Some d" "inf_wf d" "\<not> is_in_flight (iq_key q) c"
    and "pe_before env = (\<lambda>c. c)" "pe_request env = PR_Next" "pe_during env = (\<lambda>c. c)"
    and "requested_param q PR_Next d = Some param" "pe_fetch env param = Some (Inr page)"
    and "c' = clear_in_flight (iq_key q) (store_pages (pe_now env) (cache_key (iq_key q)) (InfV t p (pages_after q page param d))
           (set_in_flight (iq_key q) (pe_task env) c))"
  shows "\<exists>o2. serve_request t p q env (c, o') = Inr (c', o2)"
proof -
  let ?c1 = "set_in_flight (iq_key q) (pe_task env) c"
  have wf: "client_wf ?c1" using assms(1) by (rule wf_small(1))
  have d1: "get_infinite_data t p (iq_key q) ?c1 = Some d"
    using assms(2) get_infinite_cache [of ?c1 c] by (simp add: set_in_flight_def)
  have "inf_wf (push_page page param d)" using assms(3) by (simp add: inf_wf_def push_page_def)
  then show ?thesis
    using assms(2,4-9) unfolding assms(10)
    by (auto simp: serve_request_def Let_def store_page_def append_page_eq [OF wf] d1 trim_front_last_n pages_after_def
        push_page_def split: option.split)
qed

lemma parked_wakes:
  assumes "sl_slot s = None" "sl_strong s \<noteq> 1" "w_alive (sl_release s)"
    and "recv_poll (RecvTake, s) = (ph, s1)" and "ui_fetch_next_page (u, s1) = (u', s2)"
  shows "\<exists>s3. recv_poll (ph, s2) = (RecvDone (Some PR_Next), s3)" "\<exists>io. u' = u\<lparr>ui_observer := io\<rparr> \<and> io_query io = io_query (ui_observer u)"
proof -
  have ph: "ph = RecvParked (snd (Watch_subscribe (sl_release s)))" "s1 = parked_slot s"
    using assms(1-4) by (simp_all add: recv_poll_take)
  then have s2: "s2 = slot_signal ((parked_slot s)\<lparr>sl_slot := Some PR_Next\<rparr>)"
    using assms(1,5) by (simp add: ui_fetch_next_page_def ui_via_def fetch_next_page_def PageRequestSender_try_send_def parked_slot_def)
  then have "w_alive (sl_release s2)" "w_version (sl_release s2) \<noteq> wr_last_seen (snd (Watch_subscribe (sl_release s)))" "sl_slot s2 = Some PR_Next"
    using assms(3) by (simp_all add: slot_signal_def parked_slot_def Watch_send_def Watch_subscribe_def)
  then show "\<exists>s3. recv_poll (ph, s2) = (RecvDone (Some PR_Next), s3)"
    by (simp add: ph recv_poll_fires recv_poll_take)
  show "\<exists>io. u' = u\<lparr>ui_observer := io\<rparr> \<and> io_query io = io_query (ui_observer u)"
    using assms(5) by (auto simp: ui_fetch_next_page_def ui_via_def fetch_next_page_def)
qed

text \<open>
  C20. A page request from end to end. The page loop waits at its empty slot, pages are cached and no
  fetch of the key is in flight. When the binding asks for the next page, the loop wakes and takes the
  request; with a page for the parameter it computes, serving the request cannot fail, and the pump of
  the binding then shows, in the signal, the cached pages with the new one at the end and the oldest
  ones beyond \<open>max_pages\<close> gone.
\<close>

theorem next_page_shown:
  assumes "client_wf c" and "get_infinite_data t p (iq_key q) c = Some d" and "inf_wf d" and "\<not> is_in_flight (iq_key q) c"
    and "sl_slot s = None" and "sl_strong s \<noteq> 1" and "w_alive (sl_release s)" and "recv_poll (RecvTake, s) = (ph, s1)"
    and "io_query (ui_observer u) = q" and "\<not> ui_pump_done u" and "\<not> ui_stop u"
    and "dm_get (cl_subscribers c) (cache_key (iq_key q)) = Some b" and "attached (ui_rx u) b" and "gated_write set_if_eq"
    and "pe_before env = (\<lambda>c. c)" and "pe_request env = PR_Next" and "pe_during env = (\<lambda>c. c)"
    and "requested_param q PR_Next d = Some param" and "pe_fetch env param = Some (Inr page)"
    and "ui_fetch_next_page (u, s1) = (u1, s2)"
  shows "\<exists>s3 c' o2. recv_poll (ph, s2) = (RecvDone (Some PR_Next), s3) \<and> serve_request t p q env (c, o') = Inr (c', o2)
     \<and> QueryState_data (ui_state (fst (use_infinite_poll set_if_eq t p now w (u1, c')))) = Some (InfV t p (pages_after q page param d))"
proof -
  let ?d = "pages_after q page param d" and ?c1 = "set_in_flight (iq_key q) (pe_task env) c"
  let ?c2 = "store_pages (pe_now env) (cache_key (iq_key q)) (InfV t p ?d) ?c1"
  let ?c = "clear_in_flight (iq_key q) ?c2"
  obtain o2 where serve: "serve_request t p q env (c, o') = Inr (?c, o2)"
    using serve_next_page [OF assms(1-4,15-19) refl] by blast
  have "get_infinite_data t p (iq_key q) ?c1 = Some d"
    using assms(2) get_infinite_cache [of ?c1 c] by (simp add: set_in_flight_def)
  then have "get_query_data (T_Infinite t p) (iq_key q) ?c = Some (InfV t p ?d)"
    by (auto simp: get_infinite_data_def get_query_data_def store_pages_def clear_in_flight_def downcast_def split: option.splits if_splits)
  moreover obtain b' where b': "dm_get (cl_subscribers ?c) (cache_key (iq_key q)) = Some b'" "has_news (ui_rx u) b'"
    using assms(12) send_news [OF assms(13)] by (simp add: clear_in_flight_def store_pages_def notify_subscribers_def set_in_flight_def Let_def)
  moreover obtain io where u1: "u1 = u\<lparr>ui_observer := io\<rparr>" "io_query io = q"
    using parked_wakes(2) [OF assms(5-8,20)] assms(9) by auto
  ultimately have "QueryState_data (ui_state (fst (use_infinite_poll set_if_eq t p now w (u1, ?c)))) = Some (InfV t p ?d)"
    using copy_pump_news [OF assms(14) b'(2), of "read_query_state (T_Infinite t p) now (iq_key q) None ?c" w "ui_state u"] assms(10,11)
    by (auto simp: use_infinite_poll_def key_bus_def read_query_state_def Let_def split: prod.splits)
  then show ?thesis using parked_wakes(1) [OF assms(5-8,20)] serve by blast
qed

definition demo_ui :: "nat use_infinite_handle" where
  "demo_ui = \<lparr>ui_state = Idle, ui_observer = fst (spawn_infinite_query 0 0 1 demo_infinite demo_pages_client),
     ui_rx = snd (client_subscribe ''n'' demo_pages_client), ui_stop = False, ui_pump_done = False\<rparr>"

theorem next_page_shown_witness:
  "\<exists>c' o2. serve_request 0 0 demo_infinite (demo_page_env PR_Next)
       (fst (client_subscribe ''n'' demo_pages_client), fst (QueryObserver_new (T_Infinite 0 0) 0 (QueryKey_new ''n'') demo_pages_client))
       = Inr (c', o2)
     \<and> QueryState_data (ui_state (fst (use_infinite_poll (\<lambda>new old. new) 0 0 5 0
          (fst (ui_fetch_next_page (demo_ui, snd (recv_poll (RecvTake, PageRequestSender_pair)))), c'))))
       = Some (InfV 0 0 \<lparr>pages = [10, 20], page_params = [1, 2]\<rparr>)"
proof -
  let ?c = "fst (client_subscribe ''n'' demo_pages_client)" and ?d = "\<lparr>pages = [0, 10], page_params = [0, 1 :: nat]\<rparr>"
  note q = demo_infinite_def InfiniteQuery_max_pages_def InfiniteQuery_get_next_page_param_def InfiniteQuery_new_def
  have k: "iq_key demo_infinite = QueryKey_new ''n''" "cache_key (iq_key demo_infinite) = ''n''" and m: "iq_max_pages demo_infinite = Some 2"
    by (simp_all add: q QueryKey_new_def)
  have param: "requested_param demo_infinite PR_Next ?d = Some 2" by (simp add: requested_param_def q last_page_def)
  have c: "client_wf ?c" "get_infinite_data 0 0 (iq_key demo_infinite) ?c = Some ?d" "\<not> is_in_flight (iq_key demo_infinite) ?c"
    using demo_pages wf_subscribes(1) [OF demo_pages(1)] get_infinite_cache [OF subscribe_frame(1), of 0 0 _ "''n''" demo_pages_client]
    by (simp_all add: k is_in_flight_def client_subscribe_def [of _ "demo_pages_client"] Let_def case_prod_beta)
  obtain b where b: "dm_get (cl_subscribers ?c) ''n'' = Some b" "attached (ui_rx demo_ui) b"
    by (auto simp: demo_ui_def client_subscribe_def Sender_subscribe_def demo_pages_client_def set_infinite_data_def set_query_data_def
        QueryClient_new_def attached_def fresh_recv_def new_sender_def Receiver_drop_def Sender_channel_def notify_subscribers_def
        dm_modify_def Let_def)
  have b1: "dm_get (cl_subscribers ?c) (cache_key (iq_key demo_infinite)) = Some b" using b(1) by (simp only: k(2))
  have slot: "sl_slot PageRequestSender_pair = None" "sl_strong PageRequestSender_pair \<noteq> 1" "w_alive (sl_release PageRequestSender_pair)"
    by (simp_all add: PageRequestSender_pair_def Watch_new_def)
  obtain ph s1 where ph: "recv_poll (RecvTake, PageRequestSender_pair) = (ph, s1)" by fastforce
  obtain u1 s2 where u1: "ui_fetch_next_page (demo_ui, s1) = (u1, s2)" by fastforce
  have u: "io_query (ui_observer demo_ui) = demo_infinite" "\<not> ui_pump_done demo_ui" "\<not> ui_stop demo_ui"
    by (simp_all add: demo_ui_def spawn_infinite_query_def Let_def case_prod_beta)
  have env: "pe_before (demo_page_env PR_Next) = (\<lambda>c. c)" "pe_request (demo_page_env PR_Next) = PR_Next"
    "pe_during (demo_page_env PR_Next) = (\<lambda>c. c)" "pe_fetch (demo_page_env PR_Next) 2 = Some (Inr 20)"
    by (simp_all add: demo_page_env_def)
  have "pages_after demo_infinite 20 2 ?d = \<lparr>pages = [10, 20], page_params = [1, 2]\<rparr>" "inf_wf ?d"
    by (simp_all add: pages_after_def m last_n_def inf_wf_def)
  then show ?thesis
    using next_page_shown [OF c(1,2) _ c(3) slot ph u b1 b(2) _ env(1-3) param env(4) u1, of "\<lambda>new old. new"] ph u1
    by (auto simp: gated_write_def)
qed

end
