(* ===== verification/Hydration.thy ===== *)
theory Hydration
  imports Query_Client "HOL-Library.Char_ord" "HOL-Library.List_Lexorder"
begin

text \<open>
  \<open>src/hydration.rs\<close>: turning the cache into a serializable state and back. The JSON text of a string
  is produced by the \<open>serde_json\<close> crate when the \<open>serde\<close> feature is on: the argument \<open>serde\<close> is
  \<open>None\<close> for a build without the feature (the default) and otherwise the two functions of that crate.
  The monotonic clock reading of one operation is \<open>now\<close>, the wall clock in milliseconds is \<open>wall\<close>.
\<close>

subsection \<open>Data\<close>

record json_codec =
  js_to_string :: "string \<Rightarrow> string option"
  js_from_str :: "string \<Rightarrow> string option"

definition QUERY_TYPE_QUERY :: string where "QUERY_TYPE_QUERY = ''query''"

definition QUERY_TYPE_INFINITE :: string where "QUERY_TYPE_INFINITE = ''infinite''"

record dehydrated_query =
  dq_query_hash :: string
  dq_query_key :: "string list"
  dq_data_json :: "string option"
  dq_error_json :: "string option"
  dq_fetched_at_ms :: "nat option"
  dq_is_stale :: bool
  dq_stale_time_ms :: nat
  dq_gc_time_ms :: nat
  dq_meta :: "(string, string) dashmap"
  dq_query_type :: string

record dehydrated_mutation =
  dm_mutation_key :: "string list option"
  dm_data_updated_at_ms :: "nat option"
  dm_is_paused :: bool

record dehydrated_state =
  ds_dehydrated_at_ms :: nat
  ds_queries :: "dehydrated_query list"
  ds_mutations :: "dehydrated_mutation list"

definition default_should_dehydrate_query :: "dehydrated_query \<Rightarrow> bool" where
  "default_should_dehydrate_query q = (dq_data_json q \<noteq> None)"

definition default_should_dehydrate_mutation :: "dehydrated_mutation \<Rightarrow> bool" where
  "default_should_dehydrate_mutation m = dm_is_paused m"

record dehydrate_options =
  do_should_dehydrate_query :: "dehydrated_query \<Rightarrow> bool"
  do_should_dehydrate_mutation :: "dehydrated_mutation \<Rightarrow> bool"
  do_should_redact_errors :: bool
  do_serialize_data :: "(string \<Rightarrow> string) option"

definition DehydrateOptions_default :: dehydrate_options where
  "DehydrateOptions_default =
     \<lparr>do_should_dehydrate_query = default_should_dehydrate_query,
      do_should_dehydrate_mutation = default_should_dehydrate_mutation,
      do_should_redact_errors = True, do_serialize_data = None\<rparr>"

definition DehydrateOptions_should_dehydrate_query ::
  "(dehydrated_query \<Rightarrow> bool) \<Rightarrow> dehydrate_options \<Rightarrow> dehydrate_options" where
  "DehydrateOptions_should_dehydrate_query f o' = o'\<lparr>do_should_dehydrate_query := f\<rparr>"

definition DehydrateOptions_should_dehydrate_mutation ::
  "(dehydrated_mutation \<Rightarrow> bool) \<Rightarrow> dehydrate_options \<Rightarrow> dehydrate_options" where
  "DehydrateOptions_should_dehydrate_mutation f o' = o'\<lparr>do_should_dehydrate_mutation := f\<rparr>"

definition DehydrateOptions_should_redact_errors :: "bool \<Rightarrow> dehydrate_options \<Rightarrow> dehydrate_options" where
  "DehydrateOptions_should_redact_errors b o' = o'\<lparr>do_should_redact_errors := b\<rparr>"

definition DehydrateOptions_serialize_data ::
  "(string \<Rightarrow> string) \<Rightarrow> dehydrate_options \<Rightarrow> dehydrate_options" where
  "DehydrateOptions_serialize_data f o' = o'\<lparr>do_serialize_data := Some f\<rparr>"

record hydrate_options =
  ho_should_overwrite :: bool
  ho_should_hydrate :: "(string \<Rightarrow> bool) option"
  ho_default_options :: "query_options option"

definition HydrateOptions_default :: hydrate_options where
  "HydrateOptions_default =
     \<lparr>ho_should_overwrite = True, ho_should_hydrate = None, ho_default_options = None\<rparr>"

definition HydrateOptions_should_overwrite :: "bool \<Rightarrow> hydrate_options \<Rightarrow> hydrate_options" where
  "HydrateOptions_should_overwrite b o' = o'\<lparr>ho_should_overwrite := b\<rparr>"

definition HydrateOptions_should_hydrate :: "(string \<Rightarrow> bool) \<Rightarrow> hydrate_options \<Rightarrow> hydrate_options" where
  "HydrateOptions_should_hydrate f o' = o'\<lparr>ho_should_hydrate := Some f\<rparr>"

definition HydrateOptions_default_options :: "query_options \<Rightarrow> hydrate_options \<Rightarrow> hydrate_options" where
  "HydrateOptions_default_options opts o' = o'\<lparr>ho_default_options := Some opts\<rparr>"

subsection \<open>Helpers\<close>

definition segments_from_cache_key :: "string \<Rightarrow> string list" where
  "segments_from_cache_key s = str_split s"

definition query_key_from_dehydrated :: "dehydrated_query \<Rightarrow> query_key" where
  "query_key_from_dehydrated q =
     (let key = QueryKey_from_segments (dq_query_key q)
      in if cache_key key = dq_query_hash q then key else QueryKey_new (dq_query_hash q))"

definition serialize_entry_data :: "json_codec option \<Rightarrow> string \<Rightarrow> dehydrate_options \<Rightarrow> string" where
  "serialize_entry_data serde data options =
     (case serde of
        None \<Rightarrow> data
      | Some J \<Rightarrow>
          (let json = (case js_to_string J data of Some s \<Rightarrow> s | None \<Rightarrow> data)
           in case do_serialize_data options of Some hook \<Rightarrow> hook json | None \<Rightarrow> json))"

definition deserialize_entry_data :: "json_codec option \<Rightarrow> string \<Rightarrow> string" where
  "deserialize_entry_data serde data_json =
     (case serde of
        None \<Rightarrow> data_json
      | Some J \<Rightarrow> (case js_from_str J data_json of Some s \<Rightarrow> s | None \<Rightarrow> data_json))"

definition redact_error :: "string option \<Rightarrow> bool \<Rightarrow> string option" where
  "redact_error error should_redact =
     (case error of
        Some e \<Rightarrow> if should_redact then Some (QueryError_to_string Redacted) else Some e
      | None \<Rightarrow> None)"

definition dehydrated_age_ms :: "nat \<Rightarrow> nat option \<Rightarrow> nat" where
  "dehydrated_age_ms dehydrated_at fetched_at =
     (case fetched_at of Some f \<Rightarrow> dehydrated_at - f | None \<Rightarrow> u64_max)"

definition dehydrated_is_newer :: "instant \<Rightarrow> instant \<Rightarrow> nat \<Rightarrow> nat option \<Rightarrow> bool" where
  "dehydrated_is_newer now existing_fetched_at dehydrated_at fetched_at =
     (elapsed now existing_fetched_at > from_millis (dehydrated_age_ms dehydrated_at fetched_at))"

definition stored_options_for :: "dehydrated_query \<Rightarrow> hydrate_options \<Rightarrow> query_options" where
  "stored_options_for q options =
     (case ho_default_options options of Some d \<Rightarrow> d | None \<Rightarrow> QueryOptions_default)
       \<lparr>stale_time := from_millis (dq_stale_time_ms q), gc_time := from_millis (dq_gc_time_ms q),
        meta := dq_meta q\<rparr>"

subsection \<open>Dehydration\<close>

definition dehydrate_cache_entry ::
  "json_codec option \<Rightarrow> instant \<Rightarrow> string \<Rightarrow> 'v cache_entry \<Rightarrow> string option \<Rightarrow> nat \<Rightarrow> dehydrate_options
   \<Rightarrow> dehydrated_query" where
  "dehydrate_cache_entry serde now k e error wall options =
     \<lparr>dq_query_hash = k, dq_query_key = segments_from_cache_key k,
      dq_data_json =
        (case downcast T_String (ce_data e) of
           Some (StrV s) \<Rightarrow> Some (serialize_entry_data serde s options) | _ \<Rightarrow> None),
      dq_error_json = redact_error error (do_should_redact_errors options),
      dq_fetched_at_ms = Some (wall - millis_u64 (elapsed now (ce_fetched_at e))),
      dq_is_stale = ce_is_stale e,
      dq_stale_time_ms = millis_u64 (stale_time (ce_options e)),
      dq_gc_time_ms = millis_u64 (gc_time (ce_options e)),
      dq_meta = meta (ce_options e), dq_query_type = QUERY_TYPE_QUERY\<rparr>"

definition dehydrate_state ::
  "json_codec option \<Rightarrow> instant \<Rightarrow> nat \<Rightarrow> dehydrate_options \<Rightarrow> 'v client \<Rightarrow> dehydrated_state" where
  "dehydrate_state serde now wall options c =
     (let queries = map (\<lambda>(k, e). dehydrate_cache_entry serde now k e None wall options) (cl_cache c);
          kept = filter (do_should_dehydrate_query options) queries
      in \<lparr>ds_dehydrated_at_ms = wall, ds_queries = sort_key dq_query_hash kept, ds_mutations = []\<rparr>)"

definition client_dehydrate :: "json_codec option \<Rightarrow> instant \<Rightarrow> nat \<Rightarrow> 'v client \<Rightarrow> dehydrated_state" where
  "client_dehydrate serde now wall c = dehydrate_state serde now wall DehydrateOptions_default c"

subsection \<open>Hydration\<close>

text \<open>Mutations are accepted and ignored by the code.\<close>

definition hydrate_mutations :: "dehydrated_mutation list \<Rightarrow> hydrate_options \<Rightarrow> 'v client \<Rightarrow> 'v client" where
  "hydrate_mutations mutations options c = fold (\<lambda>m c. c) mutations c"

definition restore_entry_staleness ::
  "instant \<Rightarrow> string \<Rightarrow> dehydrated_query \<Rightarrow> nat \<Rightarrow> 'v client \<Rightarrow> 'v client" where
  "restore_entry_staleness now hash q age_ms c =
     c\<lparr>cl_cache := dm_modify hash (\<lambda>e.
         let e1 = e\<lparr>ce_is_stale := dq_is_stale q\<rparr>
         in if age_ms > 0
            then (case instant_checked_sub now (from_millis age_ms) of
                    Some t \<Rightarrow> e1\<lparr>ce_fetched_at := t\<rparr> | None \<Rightarrow> e1)
            else e1) (cl_cache c)\<rparr>"

definition payload_wins :: "instant \<Rightarrow> nat \<Rightarrow> dehydrated_query \<Rightarrow> hydrate_options \<Rightarrow> 'v client \<Rightarrow> bool" where
  "payload_wins now dehydrated_at q options c =
     (case dm_get (cl_cache c) (dq_query_hash q) of
        Some existing \<Rightarrow>
          ho_should_overwrite options
          \<and> dehydrated_is_newer now (ce_fetched_at existing) dehydrated_at (dq_fetched_at_ms q)
      | None \<Rightarrow> True)"

text \<open>The \<open>PartialEq\<close> of the stored type, \<open>String\<close>, is equality of the texts.\<close>

definition hydrate_query ::
  "json_codec option \<Rightarrow> instant \<Rightarrow> nat \<Rightarrow> dehydrated_query \<Rightarrow> hydrate_options \<Rightarrow> 'v client \<Rightarrow> 'v client" where
  "hydrate_query serde now dehydrated_at q options c =
     (if (case ho_should_hydrate options of Some f \<Rightarrow> \<not> f (dq_query_hash q) | None \<Rightarrow> False) then c
      else case dq_data_json q of
             None \<Rightarrow> c
           | Some data_json \<Rightarrow>
               (let data = deserialize_entry_data serde data_json;
                    key = query_key_from_dehydrated q
                in if \<not> payload_wins now dehydrated_at q options c then c
                   else restore_entry_staleness now (dq_query_hash q) q
                          (dehydrated_age_ms dehydrated_at (dq_fetched_at_ms q))
                          (set_query_data (=) now key (StrV data) (stored_options_for q options) c)))"

definition hydrate_state_owned ::
  "json_codec option \<Rightarrow> instant \<Rightarrow> dehydrated_state \<Rightarrow> hydrate_options \<Rightarrow> 'v client \<Rightarrow> 'v client" where
  "hydrate_state_owned serde now state options c =
     fold (\<lambda>q. hydrate_query serde now (ds_dehydrated_at_ms state) q options) (ds_queries state)
       (hydrate_mutations (ds_mutations state) options c)"

definition hydrate_with_options ::
  "json_codec option \<Rightarrow> instant \<Rightarrow> dehydrated_state \<Rightarrow> hydrate_options \<Rightarrow> 'v client \<Rightarrow> 'v client" where
  "hydrate_with_options serde now state options c = hydrate_state_owned serde now state options c"

definition client_hydrate ::
  "json_codec option \<Rightarrow> instant \<Rightarrow> dehydrated_state \<Rightarrow> hydrate_options \<Rightarrow> 'v client \<Rightarrow> 'v client" where
  "client_hydrate serde now state options c = hydrate_state_owned serde now state options c"

subsection \<open>One payload\<close>

lemma query_key_from_dehydrated_key [simp]: "cache_key (query_key_from_dehydrated q) = dq_query_hash q"
  by (simp add: query_key_from_dehydrated_def QueryKey_new_def Let_def)

lemma hydrate_mutations_id [simp]: "hydrate_mutations ms options c = c"
  by (induction ms arbitrary: c) (simp_all add: hydrate_mutations_def)

text \<open>Whether a payload is applied to a client, and the entry it leaves.\<close>

definition applies :: "instant \<Rightarrow> nat \<Rightarrow> dehydrated_query \<Rightarrow> hydrate_options \<Rightarrow> 'v client \<Rightarrow> bool" where
  "applies now at q options c \<longleftrightarrow>
     (\<forall>f. ho_should_hydrate options = Some f \<longrightarrow> f (dq_query_hash q))
     \<and> dq_data_json q \<noteq> None \<and> payload_wins now at q options c"

definition restored_at :: "instant \<Rightarrow> nat \<Rightarrow> instant" where
  "restored_at now age_ms = (if from_millis age_ms \<le> now then now - from_millis age_ms else now)"

lemma hydrate_query_other:
  "k \<noteq> dq_query_hash q \<Longrightarrow>
   dm_get (cl_cache (hydrate_query serde now at q options c)) k = dm_get (cl_cache c) k"
  by (simp add: hydrate_query_def restore_entry_staleness_def set_query_data_entry Let_def
      split: option.split)

lemma hydrate_query_skipped: "\<not> applies now at q options c \<Longrightarrow> hydrate_query serde now at q options c = c"
  by (auto simp: hydrate_query_def applies_def Let_def split: option.splits)

lemma hydrate_query_applied:
  assumes "applies now at q options c" "dq_data_json q = Some j"
  shows "\<exists>e. dm_get (cl_cache (hydrate_query serde now at q options c)) (dq_query_hash q) = Some e
     \<and> ce_data e = StrV (deserialize_entry_data serde j) \<and> ce_type_id e = T_String
     \<and> ce_is_stale e = dq_is_stale q
     \<and> ce_fetched_at e = restored_at now (dehydrated_age_ms at (dq_fetched_at_ms q))
     \<and> ce_options e = resolve_options (dq_query_hash q) (stored_options_for q options) c"
  using assms
  by (cases "dm_get (cl_cache c) (dq_query_hash q)")
    (auto simp: hydrate_query_def applies_def restore_entry_staleness_def set_query_data_entry Let_def
      eq_any_def instant_checked_sub_def restored_at_def from_millis_def split: option.splits)

subsection \<open>A whole state\<close>

abbreviation hydrate_all ::
  "json_codec option \<Rightarrow> instant \<Rightarrow> nat \<Rightarrow> hydrate_options \<Rightarrow> dehydrated_query list \<Rightarrow> 'v client \<Rightarrow> 'v client" where
  "hydrate_all serde now at options qs c \<equiv> fold (\<lambda>q. hydrate_query serde now at q options) qs c"

lemma hydrate_query_defaults [simp]:
  "cl_default_options (hydrate_query serde now at q options c) = cl_default_options c"
  by (simp add: hydrate_query_def restore_entry_staleness_def set_query_data_def Let_def split: option.split)

lemma hydrate_all_other:
  "k \<notin> dq_query_hash ` set qs \<Longrightarrow>
   dm_get (cl_cache (hydrate_all serde now at options qs c)) k = dm_get (cl_cache c) k
   \<and> cl_default_options (hydrate_all serde now at options qs c) = cl_default_options c"
  by (induction qs arbitrary: c) (simp_all add: hydrate_query_other)

lemma hydrate_all_split:
  assumes "distinct (map dq_query_hash qs)" "q \<in> set qs"
  shows "\<exists>c0. dm_get (cl_cache c0) (dq_query_hash q) = dm_get (cl_cache c) (dq_query_hash q)
     \<and> cl_default_options c0 = cl_default_options c
     \<and> dm_get (cl_cache (hydrate_all serde now at options qs c)) (dq_query_hash q)
        = dm_get (cl_cache (hydrate_query serde now at q options c0)) (dq_query_hash q)"
proof -
  obtain xs ys where qs: "qs = xs @ q # ys" using assms(2) by (meson split_list)
  then have "dq_query_hash q \<notin> dq_query_hash ` set xs" "dq_query_hash q \<notin> dq_query_hash ` set ys"
    using assms(1) by auto
  then show ?thesis
    using hydrate_all_other [of "dq_query_hash q" xs serde now at options c] qs
    by (intro exI [of _ "hydrate_all serde now at options xs c"]) (simp add: hydrate_all_other)
qed

lemma applies_cong:
  "dm_get (cl_cache c) (dq_query_hash q) = dm_get (cl_cache c') (dq_query_hash q) \<Longrightarrow>
   applies now at q options c = applies now at q options c'"
  by (simp add: applies_def payload_wins_def)

lemma resolve_options_cong:
  "dm_get (cl_cache c) k = dm_get (cl_cache c') k \<Longrightarrow> cl_default_options c = cl_default_options c' \<Longrightarrow>
   resolve_options k opts c = resolve_options k opts c'"
  by (simp add: resolve_options_def dm_contains_def)

lemma hydrate_all_applied:
  assumes "distinct (map dq_query_hash qs)" "q \<in> set qs" "applies now at q options c" "dq_data_json q = Some j"
  shows "\<exists>e. dm_get (cl_cache (hydrate_all serde now at options qs c)) (dq_query_hash q) = Some e
     \<and> ce_data e = StrV (deserialize_entry_data serde j) \<and> ce_type_id e = T_String
     \<and> ce_is_stale e = dq_is_stale q
     \<and> ce_fetched_at e = restored_at now (dehydrated_age_ms at (dq_fetched_at_ms q))
     \<and> ce_options e = resolve_options (dq_query_hash q) (stored_options_for q options) c"
proof -
  obtain c0 where c0: "dm_get (cl_cache c0) (dq_query_hash q) = dm_get (cl_cache c) (dq_query_hash q)"
    "cl_default_options c0 = cl_default_options c"
    "dm_get (cl_cache (hydrate_all serde now at options qs c)) (dq_query_hash q)
        = dm_get (cl_cache (hydrate_query serde now at q options c0)) (dq_query_hash q)"
    using hydrate_all_split [OF assms(1,2)] by blast
  have "applies now at q options c0" using assms(3) applies_cong [OF c0(1)] by blast
  from hydrate_query_applied [OF this assms(4), of serde] show ?thesis
    using c0(3) resolve_options_cong [OF c0(1,2)] by simp
qed

lemma hydrate_all_skipped:
  assumes "distinct (map dq_query_hash qs)" "q \<in> set qs" "\<not> applies now at q options c"
  shows "dm_get (cl_cache (hydrate_all serde now at options qs c)) (dq_query_hash q)
     = dm_get (cl_cache c) (dq_query_hash q)"
proof -
  obtain c0 where c0: "dm_get (cl_cache c0) (dq_query_hash q) = dm_get (cl_cache c) (dq_query_hash q)"
    "dm_get (cl_cache (hydrate_all serde now at options qs c)) (dq_query_hash q)
        = dm_get (cl_cache (hydrate_query serde now at q options c0)) (dq_query_hash q)"
    using hydrate_all_split [OF assms(1,2)] by blast
  have "\<not> applies now at q options c0" using assms(3) applies_cong [OF c0(1)] by blast
  then show ?thesis using c0 by (simp add: hydrate_query_skipped)
qed

text \<open>The queries of a dehydrated client.\<close>

lemma dehydrated_queries:
  "set (ds_queries (client_dehydrate serde now wall c)) =
     {q. \<exists>k e. (k, e) \<in> set (cl_cache c) \<and> q = dehydrate_cache_entry serde now k e None wall DehydrateOptions_default
        \<and> dq_data_json q \<noteq> None}"
  by (auto simp: client_dehydrate_def dehydrate_state_def Let_def DehydrateOptions_default_def
      default_should_dehydrate_query_def)

lemma dehydrate_hash [simp]:
  "dq_query_hash (dehydrate_cache_entry serde now k e er wall options) = k"
  by (simp add: dehydrate_cache_entry_def)

lemma distinct_map_filter: "distinct (map f xs) \<Longrightarrow> distinct (map f (filter P xs))"
  by (induction xs) auto

lemma dehydrated_distinct:
  assumes "dm_wf (cl_cache c)"
  shows "distinct (map dq_query_hash (ds_queries (client_dehydrate serde now wall c)))"
proof -
  let ?qs = "map (\<lambda>(k, e). dehydrate_cache_entry serde now k e None wall DehydrateOptions_default) (cl_cache c)"
  have "map dq_query_hash ?qs = map fst (cl_cache c)" by (simp add: case_prod_beta)
  then have "distinct (map dq_query_hash ?qs)" using assms unfolding dm_wf_def by (rule ssubst)
  then have "distinct (map dq_query_hash (filter (do_should_dehydrate_query DehydrateOptions_default) ?qs))"
    by (rule distinct_map_filter)
  then show ?thesis
    by (simp add: client_dehydrate_def dehydrate_state_def Let_def distinct_map)
qed

lemma dehydrated_member:
  assumes "dm_wf (cl_cache c)" "dm_get (cl_cache c) k = Some e" "ce_data e = StrV s"
  shows "dehydrate_cache_entry serde now k e None wall DehydrateOptions_default
     \<in> set (ds_queries (client_dehydrate serde now wall c))"
  using assms by (auto simp: dehydrated_queries dm_get_Some_iff dehydrate_cache_entry_def downcast_def)

lemma dehydrated_absent:
  assumes "dm_wf (cl_cache c)" "\<And>e s. dm_get (cl_cache c) k = Some e \<Longrightarrow> ce_data e \<noteq> StrV s"
  shows "k \<notin> dq_query_hash ` set (ds_queries (client_dehydrate serde now wall c))"
proof
  assume "k \<in> dq_query_hash ` set (ds_queries (client_dehydrate serde now wall c))"
  then obtain e where e: "(k, e) \<in> set (cl_cache c)"
    "dq_data_json (dehydrate_cache_entry serde now k e None wall DehydrateOptions_default) \<noteq> None"
    by (auto simp: dehydrated_queries)
  then have "\<exists>s. ce_data e = StrV s"
    by (cases "ce_data e") (auto simp: dehydrate_cache_entry_def downcast_def)
  then show False using e(1) assms by (auto simp: dm_get_Some_iff)
qed

definition codec_ok :: "json_codec option \<Rightarrow> bool" where
  "codec_ok serde \<longleftrightarrow> (\<forall>J. serde = Some J \<longrightarrow> (\<forall>s. \<exists>t. js_to_string J s = Some t \<and> js_from_str J t = Some s))"

lemma serialize_roundtrip:
  assumes "codec_ok serde"
  shows "deserialize_entry_data serde (serialize_entry_data serde s DehydrateOptions_default) = s"
proof (cases serde)
  case None
  then show ?thesis by (simp add: serialize_entry_data_def deserialize_entry_data_def)
next
  case (Some J)
  then obtain t where "js_to_string J s = Some t" "js_from_str J t = Some s"
    using assms by (auto simp: codec_ok_def)
  then show ?thesis
    using Some by (simp add: serialize_entry_data_def deserialize_entry_data_def DehydrateOptions_default_def)
qed

lemma hydrate_dehydrated:
  "client_hydrate serde now2 (client_dehydrate serde now1 wall c1) options c2
     = hydrate_all serde now2 wall options (ds_queries (client_dehydrate serde now1 wall c1)) c2"
  unfolding client_hydrate_def hydrate_state_owned_def
  by (simp add: client_dehydrate_def dehydrate_state_def Let_def)

text \<open>One entry through dehydration and hydration, for a key the second client does not have.\<close>

lemma hydrate_restores_entry:
  assumes "client_wf c1" "codec_ok serde" "dm_get (cl_cache c2) k = None" "cl_default_options c2 = None"
    and e: "dm_get (cl_cache c1) k = Some e" "ce_data e = StrV s" "millis_u64 (elapsed now1 (ce_fetched_at e)) \<le> wall"
  shows "\<exists>e'. dm_get (cl_cache (client_hydrate serde now2 (client_dehydrate serde now1 wall c1) HydrateOptions_default c2)) k
         = Some e'
       \<and> ce_data e' = StrV s \<and> ce_type_id e' = T_String \<and> ce_is_stale e' = ce_is_stale e
       \<and> stale_time (ce_options e') = from_millis (millis_u64 (stale_time (ce_options e)))
       \<and> gc_time (ce_options e') = from_millis (millis_u64 (gc_time (ce_options e)))
       \<and> meta (ce_options e') = meta (ce_options e)
       \<and> ce_fetched_at e' = restored_at now2 (millis_u64 (elapsed now1 (ce_fetched_at e)))"
proof -
  have wf: "dm_wf (cl_cache c1)" using assms(1) by (rule wf_cache)
  let ?q = "dehydrate_cache_entry serde now1 k e None wall DehydrateOptions_default"
  have j: "dq_data_json ?q = Some (serialize_entry_data serde s DehydrateOptions_default)"
    using e(2) by (simp add: dehydrate_cache_entry_def downcast_def)
  have "applies now2 wall ?q HydrateOptions_default c2"
    using assms(3) j by (simp add: applies_def payload_wins_def HydrateOptions_default_def)
  from hydrate_all_applied [OF dehydrated_distinct [OF wf] dehydrated_member [OF wf e(1,2)] this j,
      of serde, unfolded serialize_roundtrip [OF assms(2)] dehydrate_hash]
  show ?thesis unfolding hydrate_dehydrated
    using e(3) assms(4)
    by (auto simp: dehydrate_cache_entry_def dehydrated_age_ms_def resolve_options_def stored_options_for_def)
qed

text \<open>
  C16. Dehydrating a client and hydrating the result into another one restores exactly the string
  entries. For a key the second client does not have (and no client defaults there), the entry comes
  back with its text, its stale flag, its stale and garbage collection times in whole milliseconds, its
  metadata and its age at the time of dehydration in whole milliseconds; entries of other types are
  dropped; keys the first client does not cache are left alone. With the \<open>serde\<close> feature the JSON
  crate is assumed to read back the text it wrote.
\<close>

theorem hydration_roundtrip:
  assumes "client_wf c1" and "codec_ok serde"
    and "dm_get (cl_cache c2) k = None" and "cl_default_options c2 = None"
    and "c' = client_hydrate serde now2 (client_dehydrate serde now1 wall c1) HydrateOptions_default c2"
  shows "(\<forall>e s. dm_get (cl_cache c1) k = Some e \<and> ce_data e = StrV s
        \<and> millis_u64 (elapsed now1 (ce_fetched_at e)) \<le> wall \<longrightarrow>
       (\<exists>e'. dm_get (cl_cache c') k = Some e' \<and> ce_data e' = StrV s \<and> ce_type_id e' = T_String
          \<and> ce_is_stale e' = ce_is_stale e
          \<and> stale_time (ce_options e') = from_millis (millis_u64 (stale_time (ce_options e)))
          \<and> gc_time (ce_options e') = from_millis (millis_u64 (gc_time (ce_options e)))
          \<and> meta (ce_options e') = meta (ce_options e)
          \<and> ce_fetched_at e' = restored_at now2 (millis_u64 (elapsed now1 (ce_fetched_at e)))))
     \<and> ((\<forall>e s. dm_get (cl_cache c1) k = Some e \<longrightarrow> ce_data e \<noteq> StrV s) \<longrightarrow> dm_get (cl_cache c') k = None)"
proof (intro conjI allI impI)
  fix e s
  assume "dm_get (cl_cache c1) k = Some e \<and> ce_data e = StrV s
    \<and> millis_u64 (elapsed now1 (ce_fetched_at e)) \<le> wall"
  then show "\<exists>e'. dm_get (cl_cache c') k = Some e' \<and> ce_data e' = StrV s \<and> ce_type_id e' = T_String
          \<and> ce_is_stale e' = ce_is_stale e
          \<and> stale_time (ce_options e') = from_millis (millis_u64 (stale_time (ce_options e)))
          \<and> gc_time (ce_options e') = from_millis (millis_u64 (gc_time (ce_options e)))
          \<and> meta (ce_options e') = meta (ce_options e)
          \<and> ce_fetched_at e' = restored_at now2 (millis_u64 (elapsed now1 (ce_fetched_at e)))"
    using hydrate_restores_entry [OF assms(1-4)] unfolding assms(5) by blast
next
  assume "\<forall>e s. dm_get (cl_cache c1) k = Some e \<longrightarrow> ce_data e \<noteq> StrV s"
  then have "k \<notin> dq_query_hash ` set (ds_queries (client_dehydrate serde now1 wall c1))"
    by (intro dehydrated_absent [OF wf_cache [OF assms(1)]]) auto
  from hydrate_all_other [OF this, of serde now2 wall HydrateOptions_default c2]
  show "dm_get (cl_cache c') k = None" using assms(3) unfolding assms(5) hydrate_dehydrated by simp
qed

definition demo_text_client :: "nat client" where
  "demo_text_client = set_query_data (=) 0 (QueryKey_new ''t'') (StrV ''hello'')
     (QueryOptions_stale_time (from_millis 5) QueryOptions_default) QueryClient_new"

lemma demo_text:
  "client_wf demo_text_client"
  "\<exists>e. dm_get (cl_cache demo_text_client) ''t'' = Some e \<and> ce_data e = StrV ''hello'' \<and> ce_fetched_at e = 0"
  unfolding demo_text_client_def
  by (simp_all add: wf_set_query_data client_wf_new set_query_data_entry QueryKey_new_def Let_def
      split: option.split) (simp add: QueryClient_new_def)

theorem hydration_roundtrip_witness:
  "\<exists>e'. dm_get (cl_cache (client_hydrate None 100 (client_dehydrate None 7 50 demo_text_client)
      HydrateOptions_default (QueryClient_new :: nat client))) ''t'' = Some e' \<and> ce_data e' = StrV ''hello''"
proof -
  obtain e where e: "dm_get (cl_cache demo_text_client) ''t'' = Some e" "ce_data e = StrV ''hello''"
    "ce_fetched_at e = 0" using demo_text(2) by blast
  have "millis_u64 (elapsed 7 (ce_fetched_at e)) \<le> 50"
    by (simp add: e(3) elapsed_def millis_u64_def as_millis_def sat64_def u64_max_def)
  then show ?thesis
    using hydration_roundtrip [OF demo_text(1), of None QueryClient_new "''t''" _ 100 7 50, OF _ _ _ refl] e
    by (auto simp: codec_ok_def QueryClient_new_def)
qed

subsection \<open>The overwrite guard\<close>

text \<open>
  When the local cache already has the key, the payload wins by comparing two ages taken at different
  times: the payload's age when it was captured against the local entry's age now. So a payload fetched
  earlier than the local data still replaces it once the local data has grown older than the payload was
  at its capture, although only newer payloads are meant to overwrite; with \<open>should_overwrite\<close> off it
  never does.
\<close>

theorem hydrate_overwrite_guard:
  assumes "client_wf c0" and "codec_ok serde"
    and "dm_get (cl_cache c0) k = Some e0" and "ce_data e0 = StrV old" and "ce_fetched_at e0 < t1"
    and "millis_u64 (elapsed t1 (ce_fetched_at e0)) \<le> wall"
    and "dm_get (cl_cache c) k = Some e" and "ce_data e = StrV new" and "old \<noteq> new"
    and "t1 < ce_fetched_at e"
    and "c' = client_hydrate serde now (client_dehydrate serde t1 wall c0) options c"
    and "ho_should_hydrate options = None"
  shows "(map_option ce_data (dm_get (cl_cache c') k) = Some (StrV old)) \<longleftrightarrow>
       ho_should_overwrite options
       \<and> elapsed now (ce_fetched_at e) > from_millis (millis_u64 (elapsed t1 (ce_fetched_at e0)))"
proof -
  have wf: "dm_wf (cl_cache c0)" using assms(1) by (rule wf_cache)
  let ?qs = "ds_queries (client_dehydrate serde t1 wall c0)"
  let ?q = "dehydrate_cache_entry serde t1 k e0 None wall DehydrateOptions_default"
  have c': "c' = hydrate_all serde now wall options ?qs c"
    unfolding assms(11) client_hydrate_def hydrate_state_owned_def
    by (simp add: client_dehydrate_def dehydrate_state_def Let_def)
  have j: "dq_data_json ?q = Some (serialize_entry_data serde old DehydrateOptions_default)"
    using assms(4) by (simp add: dehydrate_cache_entry_def downcast_def)
  note mem = dehydrated_distinct [OF wf] dehydrated_member [OF wf assms(3,4)]
  have win: "applies now wall ?q options c \<longleftrightarrow> ho_should_overwrite options
       \<and> elapsed now (ce_fetched_at e) > from_millis (millis_u64 (elapsed t1 (ce_fetched_at e0)))"
    using assms(6,7,12) j
    by (simp add: applies_def payload_wins_def dehydrated_is_newer_def dehydrated_age_ms_def)
      (simp add: dehydrate_cache_entry_def)
  show ?thesis
  proof (cases "applies now wall ?q options c")
    case True
    from hydrate_all_applied [OF mem this j, of serde, unfolded serialize_roundtrip [OF assms(2)] dehydrate_hash
        c' [symmetric]]
    show ?thesis using True win by auto
  next
    case False
    from hydrate_all_skipped [OF mem this, of serde, unfolded dehydrate_hash c' [symmetric]]
    show ?thesis using False win assms(7,8,9) by auto
  qed
qed

text \<open>Data fetched at time 10 is replaced at time 1000 by a payload fetched at time 0.\<close>

theorem hydrate_overwrite_guard_witness:
  "map_option ce_data (dm_get (cl_cache (client_hydrate None 1000 (client_dehydrate None 7 50 demo_text_client)
      HydrateOptions_default (set_query_data (=) 10 (QueryKey_new ''t'') (StrV ''newer'') QueryOptions_default
        (QueryClient_new :: nat client)))) ''t'') = Some (StrV ''hello'')"
proof -
  let ?c = "set_query_data (=) 10 (QueryKey_new ''t'') (StrV ''newer'') QueryOptions_default
        (QueryClient_new :: nat client)"
  obtain e0 where e0: "dm_get (cl_cache demo_text_client) ''t'' = Some e0" "ce_data e0 = StrV ''hello''"
    "ce_fetched_at e0 = 0" using demo_text(2) by blast
  obtain e where e: "dm_get (cl_cache ?c) ''t'' = Some e" "ce_data e = StrV ''newer''" "ce_fetched_at e = 10"
    by (simp add: set_query_data_entry QueryKey_new_def Let_def QueryClient_new_def)
  have age: "millis_u64 (elapsed 7 (ce_fetched_at e0)) = 0"
    by (simp add: e0(3) elapsed_def millis_u64_def as_millis_def sat64_def u64_max_def)
  show ?thesis
    using hydrate_overwrite_guard [OF demo_text(1) _ e0(1,2) _ _ e(1,2), of None 7 50
        "client_hydrate None 1000 (client_dehydrate None 7 50 demo_text_client) HydrateOptions_default ?c"
        1000 HydrateOptions_default] age e0(3) e(3)
    by (simp add: codec_ok_def HydrateOptions_default_def elapsed_def from_millis_def)
qed

end
