(* ===== verification/Query_Persister.thy ===== *)
theory Query_Persister
  imports Client_Laws "HOL-Library.Char_ord" "HOL-Library.List_Lexorder"
begin

text \<open>
  \<open>src/persister.rs\<close>: persistence of single queries in a key-value storage. The trait
  \<open>QueryStorage\<close> is a record of operations on a storage state, each of which may fail; the in-memory
  storage of the crate is one such record. The \<open>serde\<close> feature provides the JSON conversions, which
  are the functions of the argument \<open>serde\<close> (\<open>None\<close>: a build without the feature). The wall clock is
  \<open>wall\<close> (milliseconds), the monotonic clock \<open>now\<close>.

  What the persister relies on a storage for is the locale \<open>storage_contract\<close>: a storage that does not
  fail behaves like a finite map. The persister's laws are proved from it and hold of the in-memory
  storage by interpretation.
\<close>

subsection \<open>Storages\<close>

record 's query_storage =
  st_get :: "string \<Rightarrow> 's \<Rightarrow> (query_error, string option) result"
  st_set :: "string \<Rightarrow> string \<Rightarrow> 's \<Rightarrow> (query_error, unit) result \<times> 's"
  st_remove :: "string \<Rightarrow> 's \<Rightarrow> (query_error, unit) result \<times> 's"
  st_entries :: "'s \<Rightarrow> (query_error, (string \<times> string) list) result"

type_synonym memory_store = "(string, string) dashmap"

definition InMemoryQueryStorage_new :: memory_store where
  "InMemoryQueryStorage_new = []"

definition memory_get :: "string \<Rightarrow> memory_store \<Rightarrow> (query_error, string option) result" where
  "memory_get k s = Inr (dm_get s k)"

definition memory_set :: "string \<Rightarrow> string \<Rightarrow> memory_store \<Rightarrow> (query_error, unit) result \<times> memory_store" where
  "memory_set k v s = (Inr (), dm_insert k v s)"

definition memory_remove :: "string \<Rightarrow> memory_store \<Rightarrow> (query_error, unit) result \<times> memory_store" where
  "memory_remove k s = (Inr (), dm_remove k s)"

definition memory_entries :: "memory_store \<Rightarrow> (query_error, (string \<times> string) list) result" where
  "memory_entries s = Inr (sort_key fst s)"

definition memory_storage :: "memory_store query_storage" where
  "memory_storage = \<lparr>st_get = memory_get, st_set = memory_set, st_remove = memory_remove,
     st_entries = memory_entries\<rparr>"

subsection \<open>Persisted entries and options\<close>

record persisted_query_state =
  ps_data_json :: "string option"
  ps_data_updated_at_ms :: "nat option"
  ps_error :: "string option"

record persisted_query =
  pq_buster :: string
  pq_query_hash :: string
  pq_query_key :: "string list"
  pq_state :: persisted_query_state

text \<open>The conversions of \<open>serde_json\<close>; a failure carries the error text.\<close>

record 'v serde_codec =
  sc_query_to :: "persisted_query \<Rightarrow> (string, string) result"
  sc_query_from :: "string \<Rightarrow> (string, persisted_query) result"
  sc_text_to :: "string \<Rightarrow> (string, string) result"
  sc_value_from :: "type_id \<Rightarrow> string \<Rightarrow> (string, 'v dynval) result"

definition serialize_persisted_query :: "'v serde_codec \<Rightarrow> persisted_query \<Rightarrow> (query_error, string) result" where
  "serialize_persisted_query J q =
     (case sc_query_to J q of Inr s \<Rightarrow> Inr s | Inl e \<Rightarrow> Inl (QueryError_serialization e))"

definition deserialize_persisted_query :: "'v serde_codec \<Rightarrow> string \<Rightarrow> (query_error, persisted_query) result" where
  "deserialize_persisted_query J s =
     (case sc_query_from J s of Inr q \<Rightarrow> Inr q | Inl e \<Rightarrow> Inl (QueryError_serialization e))"

definition DEFAULT_MAX_AGE :: duration where
  "DEFAULT_MAX_AGE = from_secs (24 * 60 * 60)"

definition PERSISTER_KEY_PREFIX :: string where
  "PERSISTER_KEY_PREFIX = ''rs-query''"

text \<open>The options, the storage being a separate argument.\<close>

record persister_options =
  pp_buster :: string
  pp_max_age :: duration
  pp_prefix :: string
  pp_refetch_on_restore :: bool
  pp_stale_time :: "duration option"

definition QueryPersisterOptions_new :: persister_options where
  "QueryPersisterOptions_new =
     \<lparr>pp_buster = [], pp_max_age = DEFAULT_MAX_AGE, pp_prefix = PERSISTER_KEY_PREFIX,
      pp_refetch_on_restore = True, pp_stale_time = None\<rparr>"

definition with_buster :: "string \<Rightarrow> persister_options \<Rightarrow> persister_options" where
  "with_buster b p = p\<lparr>pp_buster := b\<rparr>"

definition with_max_age :: "duration \<Rightarrow> persister_options \<Rightarrow> persister_options" where
  "with_max_age d p = p\<lparr>pp_max_age := d\<rparr>"

definition with_prefix :: "string \<Rightarrow> persister_options \<Rightarrow> persister_options" where
  "with_prefix s p = p\<lparr>pp_prefix := s\<rparr>"

definition with_refetch_on_restore :: "bool \<Rightarrow> persister_options \<Rightarrow> persister_options" where
  "with_refetch_on_restore b p = p\<lparr>pp_refetch_on_restore := b\<rparr>"

definition with_stale_time :: "duration option \<Rightarrow> persister_options \<Rightarrow> persister_options" where
  "with_stale_time d p = p\<lparr>pp_stale_time := d\<rparr>"

definition storage_key :: "persister_options \<Rightarrow> string \<Rightarrow> string" where
  "storage_key p query_hash = pp_prefix p @ ''-'' @ query_hash"

definition is_expired_or_busted :: "persister_options \<Rightarrow> persisted_query \<Rightarrow> nat \<Rightarrow> bool" where
  "is_expired_or_busted p q wall =
     (if pq_buster q \<noteq> pp_buster p then True
      else case ps_data_updated_at_ms (pq_state q) of
             None \<Rightarrow> True
           | Some updated_at \<Rightarrow> wall - updated_at > millis_u64 (pp_max_age p))"

subsection \<open>Persisting and restoring\<close>

definition persist_query ::
  "'v serde_codec option \<Rightarrow> 's query_storage \<Rightarrow> persister_options \<Rightarrow> nat \<Rightarrow> query_key \<Rightarrow> 'v client \<Rightarrow> 's
   \<Rightarrow> (query_error, unit) result \<times> 's" where
  "persist_query serde st p wall key c s =
     (case serde of
        None \<Rightarrow> (Inl (QueryError_serialization ''serde feature required''), s)
      | Some J \<Rightarrow>
          (case get_query_data T_String key c of
             Some (StrV data) \<Rightarrow>
               (case sc_text_to J data of
                  Inl e \<Rightarrow> (Inl (QueryError_serialization e), s)
                | Inr data_json \<Rightarrow>
                    (case serialize_persisted_query J
                            \<lparr>pq_buster = pp_buster p, pq_query_hash = cache_key key,
                             pq_query_key = segments key,
                             pq_state = \<lparr>ps_data_json = Some data_json, ps_data_updated_at_ms = Some wall,
                                         ps_error = None\<rparr>\<rparr> of
                       Inl e \<Rightarrow> (Inl e, s)
                     | Inr payload \<Rightarrow> st_set st (storage_key p (cache_key key)) payload s))
           | _ \<Rightarrow> (Inr (), s)))"

definition persist_query_by_key ::
  "'v serde_codec option \<Rightarrow> 's query_storage \<Rightarrow> persister_options \<Rightarrow> nat \<Rightarrow> query_key \<Rightarrow> 'v client \<Rightarrow> 's
   \<Rightarrow> (query_error, unit) result \<times> 's" where
  "persist_query_by_key serde st p wall key c s = persist_query serde st p wall key c s"

definition apply_restored_data ::
  "('v dynval \<Rightarrow> 'v dynval \<Rightarrow> bool) \<Rightarrow> persister_options \<Rightarrow> instant \<Rightarrow> nat \<Rightarrow> query_key \<Rightarrow> 'v dynval
   \<Rightarrow> nat option \<Rightarrow> 'v client \<Rightarrow> 'v client" where
  "apply_restored_data peq p now wall key data updated_at c =
     (let effective = (case pp_stale_time p of Some d \<Rightarrow> d | None \<Rightarrow> 0);
          c1 = set_query_data peq now key data (QueryOptions_default\<lparr>stale_time := effective\<rparr>) c;
          is_stale = pp_refetch_on_restore p
            \<and> (case updated_at of None \<Rightarrow> True | Some u \<Rightarrow> wall - u \<ge> millis_u64 effective)
      in if is_stale then mark_stale (cache_key key) c1 else c1)"

definition retrieve_query ::
  "'v serde_codec \<Rightarrow> ('v dynval \<Rightarrow> 'v dynval \<Rightarrow> bool) \<Rightarrow> 's query_storage \<Rightarrow> persister_options \<Rightarrow> type_id
   \<Rightarrow> instant \<Rightarrow> nat \<Rightarrow> query_key \<Rightarrow> 'v client \<times> 's
   \<Rightarrow> (query_error, 'v dynval option) result \<times> ('v client \<times> 's)" where
  "retrieve_query J peq st p ty now wall key cs =
     (let sk = storage_key p (cache_key key) in
      case st_get st sk (snd cs) of
        Inl e \<Rightarrow> (Inl e, cs)
      | Inr None \<Rightarrow> (Inr None, cs)
      | Inr (Some raw) \<Rightarrow>
          (case deserialize_persisted_query J raw of
             Inl e \<Rightarrow>
               (case st_remove st sk (snd cs) of
                  (Inl e', s') \<Rightarrow> (Inl e', (fst cs, s'))
                | (Inr _, s') \<Rightarrow> (Inr None, (fst cs, s')))
           | Inr persisted \<Rightarrow>
               if is_expired_or_busted p persisted wall then (Inr None, cs)
               else (case ps_data_json (pq_state persisted) of
                       None \<Rightarrow> (Inr None, cs)
                     | Some data_json \<Rightarrow>
                         (case sc_value_from J ty data_json of
                            Inr data \<Rightarrow>
                              (Inr (Some data),
                               (apply_restored_data peq p now wall key data
                                  (ps_data_updated_at_ms (pq_state persisted)) (fst cs), snd cs))
                          | Inl e \<Rightarrow>
                              (case st_remove st sk (snd cs) of
                                 (Inl e', s') \<Rightarrow> (Inl e', (fst cs, s'))
                               | (Inr _, s') \<Rightarrow> (Inr None, (fst cs, s')))))))"

definition restore_query ::
  "'v serde_codec \<Rightarrow> ('v dynval \<Rightarrow> 'v dynval \<Rightarrow> bool) \<Rightarrow> 's query_storage \<Rightarrow> persister_options \<Rightarrow> type_id
   \<Rightarrow> instant \<Rightarrow> nat \<Rightarrow> query_key \<Rightarrow> 'v client \<times> 's
   \<Rightarrow> (query_error, 'v dynval option) result \<times> ('v client \<times> 's)" where
  "restore_query J peq st p ty now wall key cs =
     (case get_query_data ty key (fst cs) of
        Some existing \<Rightarrow> (Inr (Some existing), cs)
      | None \<Rightarrow> retrieve_query J peq st p ty now wall key cs)"

subsection \<open>Garbage collection and bulk operations\<close>

definition drops_entry :: "'v serde_codec \<Rightarrow> persister_options \<Rightarrow> nat \<Rightarrow> string \<Rightarrow> bool" where
  "drops_entry J p wall raw =
     (case deserialize_persisted_query J raw of
        Inl e \<Rightarrow> True
      | Inr persisted \<Rightarrow> is_expired_or_busted p persisted wall)"

definition owned :: "persister_options \<Rightarrow> string \<Rightarrow> bool" where
  "owned p sk = prefix (pp_prefix p @ ''-'') sk"

definition strip_owned :: "persister_options \<Rightarrow> string \<Rightarrow> string" where
  "strip_owned p sk = drop (length (pp_prefix p @ ''-'')) sk"

fun gc_loop ::
  "'v serde_codec \<Rightarrow> 's query_storage \<Rightarrow> persister_options \<Rightarrow> nat \<Rightarrow> (string \<times> string) list \<Rightarrow> nat
   \<Rightarrow> 'v client \<times> 's \<Rightarrow> (query_error, nat) result \<times> ('v client \<times> 's)" where
  "gc_loop J st p wall [] removed cs = (Inr removed, cs)"
| "gc_loop J st p wall ((sk, raw) # entries) removed cs =
     (if \<not> owned p sk \<or> \<not> drops_entry J p wall raw then gc_loop J st p wall entries removed cs
      else (case st_remove st sk (snd cs) of
              (Inl e, s') \<Rightarrow> (Inl e, (fst cs, s'))
            | (Inr _, s') \<Rightarrow>
                gc_loop J st p wall entries (removed + 1)
                  (invalidate_queries (QueryKey_from_segments [strip_owned p sk]) (fst cs), s')))"

definition persister_gc ::
  "'v serde_codec option \<Rightarrow> 's query_storage \<Rightarrow> persister_options \<Rightarrow> nat \<Rightarrow> 'v client \<times> 's
   \<Rightarrow> (query_error, nat) result \<times> ('v client \<times> 's)" where
  "persister_gc serde st p wall cs =
     (case serde of
        None \<Rightarrow> (Inl (QueryError_serialization ''serde feature required''), cs)
      | Some J \<Rightarrow>
          (case st_entries st (snd cs) of
             Inl e \<Rightarrow> (Inl e, cs)
           | Inr entries \<Rightarrow> gc_loop J st p wall entries 0 cs))"

fun restore_queries ::
  "'v serde_codec \<Rightarrow> 's query_storage \<Rightarrow> persister_options \<Rightarrow> instant \<Rightarrow> nat \<Rightarrow> query_key list \<Rightarrow> nat
   \<Rightarrow> 'v client \<times> 's \<Rightarrow> (query_error, nat) result \<times> ('v client \<times> 's)" where
  "restore_queries J st p now wall [] restored cs = (Inr restored, cs)"
| "restore_queries J st p now wall (key # keys) restored cs =
     (case retrieve_query J (=) st p T_String now wall key cs of
        (Inl e, cs') \<Rightarrow> (Inl e, cs')
      | (Inr r, cs') \<Rightarrow>
          restore_queries J st p now wall keys (if r \<noteq> None then restored + 1 else restored) cs')"

fun persister_remove_queries ::
  "'s query_storage \<Rightarrow> persister_options \<Rightarrow> query_key list \<Rightarrow> nat \<Rightarrow> 'v client \<times> 's
   \<Rightarrow> (query_error, nat) result \<times> ('v client \<times> 's)" where
  "persister_remove_queries st p [] removed cs = (Inr removed, cs)"
| "persister_remove_queries st p (key # keys) removed cs =
     (let sk = storage_key p (cache_key key) in
      case st_get st sk (snd cs) of
        Inl e \<Rightarrow> (Inl e, cs)
      | Inr found \<Rightarrow>
          (case st_remove st sk (snd cs) of
             (Inl e, s') \<Rightarrow> (Inl e, (fst cs, s'))
           | (Inr _, s') \<Rightarrow>
               (let in_client = dm_contains (cl_cache (fst cs)) (cache_key key);
                    c' = (fst cs)\<lparr>cl_cache := dm_remove (cache_key key) (cl_cache (fst cs))\<rparr>
                in persister_remove_queries st p keys
                     (if found \<noteq> None \<or> in_client then removed + 1 else removed) (c', s'))))"

text \<open>The storage keys the loop removes, for the statements below.\<close>

definition gc_victims :: "'v serde_codec \<Rightarrow> persister_options \<Rightarrow> nat \<Rightarrow> (string \<times> string) list \<Rightarrow> string list" where
  "gc_victims J p wall entries =
     map fst (filter (\<lambda>(sk, raw). owned p sk \<and> drops_entry J p wall raw) entries)"

lemma cache_key_single [simp]: "cache_key (QueryKey_from_segments [s]) = s"
  by (simp add: QueryKey_from_segments_def QueryKey_new_def)

subsection \<open>What a stored text is worth\<close>

text \<open>
  The documented behaviour of \<open>serde_json\<close> on these types: writing a value succeeds and reading the
  text back gives the value.
\<close>

definition serde_ok :: "'v serde_codec \<Rightarrow> bool" where
  "serde_ok J \<longleftrightarrow>
     (\<forall>q. \<exists>raw. sc_query_to J q = Inr raw \<and> sc_query_from J raw = Inr q)
   \<and> (\<forall>txt. \<exists>j. sc_text_to J txt = Inr j \<and> sc_value_from J T_String j = Inr (StrV txt))"

text \<open>
  The value a stored text stands for (none when it cannot be used), its timestamp, and whether it is
  corrupt: not a persisted query at all, or a valid and live one whose data does not fit the type.
\<close>

definition persisted_value ::
  "'v serde_codec \<Rightarrow> persister_options \<Rightarrow> type_id \<Rightarrow> nat \<Rightarrow> string option \<Rightarrow> 'v dynval option" where
  "persisted_value J p ty wall stored =
     Option.bind stored (\<lambda>raw.
       case deserialize_persisted_query J raw of
         Inl e \<Rightarrow> None
       | Inr q \<Rightarrow> if is_expired_or_busted p q wall then None
                 else Option.bind (ps_data_json (pq_state q)) (\<lambda>j.
                   case sc_value_from J ty j of Inl e \<Rightarrow> None | Inr d \<Rightarrow> Some d))"

definition persisted_stamp :: "'v serde_codec \<Rightarrow> string option \<Rightarrow> nat option" where
  "persisted_stamp J stored =
     Option.bind stored (\<lambda>raw.
       case deserialize_persisted_query J raw of
         Inl e \<Rightarrow> None | Inr q \<Rightarrow> ps_data_updated_at_ms (pq_state q))"

definition persisted_corrupt ::
  "'v serde_codec \<Rightarrow> persister_options \<Rightarrow> type_id \<Rightarrow> nat \<Rightarrow> string option \<Rightarrow> bool" where
  "persisted_corrupt J p ty wall stored =
     (case stored of
        None \<Rightarrow> False
      | Some raw \<Rightarrow>
          (case deserialize_persisted_query J raw of
             Inl e \<Rightarrow> True
           | Inr q \<Rightarrow> \<not> is_expired_or_busted p q wall
               \<and> (case ps_data_json (pq_state q) of
                    None \<Rightarrow> False
                  | Some j \<Rightarrow> (case sc_value_from J ty j of Inl e \<Rightarrow> True | Inr d \<Rightarrow> False))))"

text \<open>The storage keys the garbage collection has to drop, of a storage with the given content.\<close>

definition persister_garbage ::
  "'v serde_codec \<Rightarrow> persister_options \<Rightarrow> nat \<Rightarrow> (string \<Rightarrow> string option) \<Rightarrow> string set" where
  "persister_garbage J p wall m = {k. owned p k \<and> (\<exists>raw. m k = Some raw \<and> drops_entry J p wall raw)}"

subsection \<open>The storage contract\<close>

locale storage_contract =
  fixes st :: "'s query_storage" and content :: "'s \<Rightarrow> string \<Rightarrow> string option" and ok :: "'s \<Rightarrow> bool"
  assumes get_ok: "ok s \<Longrightarrow> st_get st k s = Inr (content s k)"
    and set_ok: "ok s \<Longrightarrow> \<exists>s'. st_set st k v s = (Inr (), s') \<and> ok s' \<and> content s' = (content s)(k \<mapsto> v)"
    and remove_ok: "ok s \<Longrightarrow> \<exists>s'. st_remove st k s = (Inr (), s') \<and> ok s' \<and> content s' = (content s)(k := None)"
    and entries_ok: "ok s \<Longrightarrow> \<exists>xs. st_entries st s = Inr xs \<and> distinct (map fst xs) \<and> map_of xs = content s"
begin

lemma gc_loop_ok:
  assumes "ok s"
  shows "\<exists>s' c'. gc_loop J st p wall xs n (c, s) = (Inr (n + length (gc_victims J p wall xs)), (c', s'))
     \<and> ok s'
     \<and> content s' = (\<lambda>k. if k \<in> set (gc_victims J p wall xs) then None else content s k)
     \<and> (\<forall>k. dm_get (cl_cache c') k = map_option (\<lambda>e.
          if \<exists>sk \<in> set (gc_victims J p wall xs). prefix (strip_owned p sk) k
          then e\<lparr>ce_is_stale := True\<rparr> else e) (dm_get (cl_cache c) k))"
  using assms
proof (induction xs arbitrary: n c s)
  case Nil
  then show ?case by (auto simp: gc_victims_def option.map_ident)
next
  case (Cons x xs)
  obtain sk raw where x: "x = (sk, raw)" by (cases x)
  show ?case
  proof (cases "owned p sk \<and> drops_entry J p wall raw")
    case False
    then have "gc_victims J p wall (x # xs) = gc_victims J p wall xs"
      "gc_loop J st p wall (x # xs) n (c, s) = gc_loop J st p wall xs n (c, s)"
      by (auto simp: gc_victims_def x)
    then show ?thesis using Cons.IH [OF Cons.prems, of n c] by simp
  next
    case True
    then have vic: "gc_victims J p wall (x # xs) = sk # gc_victims J p wall xs"
      by (simp add: gc_victims_def x)
    obtain s1 where s1: "st_remove st sk s = (Inr (), s1)" "ok s1" "content s1 = (content s)(sk := None)"
      using remove_ok [OF Cons.prems] by blast
    let ?c = "invalidate_queries (QueryKey_from_segments [strip_owned p sk]) c"
    obtain s' c' where ih: "gc_loop J st p wall xs (n + 1) (?c, s1)
       = (Inr (n + 1 + length (gc_victims J p wall xs)), (c', s'))"
      "ok s'"
      "content s' = (\<lambda>k. if k \<in> set (gc_victims J p wall xs) then None else content s1 k)"
      "\<And>k. dm_get (cl_cache c') k = map_option (\<lambda>e.
          if \<exists>sk \<in> set (gc_victims J p wall xs). prefix (strip_owned p sk) k
          then e\<lparr>ce_is_stale := True\<rparr> else e) (dm_get (cl_cache ?c) k)"
      using Cons.IH [OF s1(2), of "n + 1" ?c] by blast
    have "gc_loop J st p wall (x # xs) n (c, s) = (Inr (n + length (gc_victims J p wall (x # xs))), (c', s'))"
      using True s1(1) ih(1) by (simp add: x vic [unfolded x])
    moreover have "content s' = (\<lambda>k. if k \<in> set (gc_victims J p wall (x # xs)) then None else content s k)"
      by (simp add: vic ih(3) s1(3) fun_eq_iff)
    moreover have "dm_get (cl_cache c') k = map_option (\<lambda>e.
          if \<exists>sk \<in> set (gc_victims J p wall (x # xs)). prefix (strip_owned p sk) k
          then e\<lparr>ce_is_stale := True\<rparr> else e) (dm_get (cl_cache c) k)" for k
      unfolding ih(4) invalidate_entry
      by (cases "dm_get (cl_cache c) k") (auto simp: vic cache_key_single)
    ultimately show ?thesis using ih(2) by blast
  qed
qed

lemma gc_ok:
  assumes "ok s" and G: "G = persister_garbage J p wall (content s)"
  shows "finite G \<and> (\<exists>s' c'. persister_gc (Some J) st p wall (c, s) = (Inr (card G), (c', s'))
     \<and> ok s' \<and> content s' = (\<lambda>k. if k \<in> G then None else content s k)
     \<and> (\<forall>k. dm_get (cl_cache c') k = map_option (\<lambda>e.
          if \<exists>sk \<in> G. prefix (strip_owned p sk) k then e\<lparr>ce_is_stale := True\<rparr> else e) (dm_get (cl_cache c) k)))"
proof -
  obtain xs where xs: "st_entries st s = Inr xs" "distinct (map fst xs)" "map_of xs = content s"
    using entries_ok [OF assms(1)] by blast
  have set: "set (gc_victims J p wall xs) = G"
    using xs(2) by (force simp: gc_victims_def G persister_garbage_def image_iff simp flip: xs(3))
  have "distinct (gc_victims J p wall xs)"
    unfolding gc_victims_def using xs(2) by (rule distinct_map_filter)
  then have "length (gc_victims J p wall xs) = card G" using set distinct_card by fastforce
  then show ?thesis
    using gc_loop_ok [OF assms(1), of J p wall xs 0 c] set
    by (auto simp: persister_gc_def xs(1))
qed

lemma persist_ok:
  assumes "ok s" "serde_ok J" "get_query_data T_String key c = Some (StrV txt)"
  shows "\<exists>s' j raw. persist_query (Some J) st p wall key c s = (Inr (), s') \<and> ok s'
     \<and> content s' = (content s)(storage_key p (cache_key key) \<mapsto> raw)
     \<and> sc_value_from J T_String j = Inr (StrV txt)
     \<and> deserialize_persisted_query J raw = Inr
         \<lparr>pq_buster = pp_buster p, pq_query_hash = cache_key key, pq_query_key = segments key,
          pq_state = \<lparr>ps_data_json = Some j, ps_data_updated_at_ms = Some wall, ps_error = None\<rparr>\<rparr>"
proof -
  obtain j where j: "sc_text_to J txt = Inr j" "sc_value_from J T_String j = Inr (StrV txt)"
    using assms(2) by (auto simp: serde_ok_def)
  let ?q = "\<lparr>pq_buster = pp_buster p, pq_query_hash = cache_key key, pq_query_key = segments key,
          pq_state = \<lparr>ps_data_json = Some j, ps_data_updated_at_ms = Some wall, ps_error = None\<rparr>\<rparr>"
  obtain raw where raw: "sc_query_to J ?q = Inr raw" "sc_query_from J raw = Inr ?q"
    using assms(2) unfolding serde_ok_def by blast
  then have q: "serialize_persisted_query J ?q = Inr raw" "deserialize_persisted_query J raw = Inr ?q"
    by (simp_all add: serialize_persisted_query_def deserialize_persisted_query_def)
  obtain s' where "st_set st (storage_key p (cache_key key)) raw s = (Inr (), s')" "ok s'"
    "content s' = (content s)(storage_key p (cache_key key) \<mapsto> raw)"
    using set_ok [OF assms(1)] by blast
  moreover from this have "persist_query (Some J) st p wall key c s = (Inr (), s')"
    using assms(3) j(1) q(1) by (simp add: persist_query_def)
  ultimately show ?thesis using j(2) q(2) by blast
qed

lemma retrieve_ok:
  assumes "ok s"
  shows "\<exists>s'. retrieve_query J peq st p ty now wall key (c, s) =
      (Inr (persisted_value J p ty wall (content s (storage_key p (cache_key key)))),
       (case persisted_value J p ty wall (content s (storage_key p (cache_key key))) of
          None \<Rightarrow> c
        | Some d \<Rightarrow> apply_restored_data peq p now wall key d
            (persisted_stamp J (content s (storage_key p (cache_key key)))) c, s'))
     \<and> ok s'
     \<and> content s' = (if persisted_corrupt J p ty wall (content s (storage_key p (cache_key key)))
          then (content s)(storage_key p (cache_key key) := None) else content s)"
proof -
  let ?sk = "storage_key p (cache_key key)"
  obtain s1 where "st_remove st ?sk s = (Inr (), s1)" "ok s1" "content s1 = (content s)(?sk := None)"
    using remove_ok [OF assms] by blast
  then show ?thesis
    using assms
    by (auto simp: retrieve_query_def Let_def get_ok persisted_value_def persisted_stamp_def persisted_corrupt_def
        split: option.splits sum.splits)
qed

end

interpretation mem: storage_contract memory_storage dm_get dm_wf
proof unfold_locales
  show "\<exists>xs. st_entries memory_storage s = Inr xs \<and> distinct (map fst xs) \<and> map_of xs = dm_get s"
    if "dm_wf s" for s
  proof (intro exI conjI)
    have d: "distinct (map fst s)" using that by (simp add: dm_wf_def)
    then have d': "distinct (map fst (sort_key fst s))" by (simp add: distinct_map)
    then show "distinct (map fst (sort_key fst s))" .
    have "map_of (sort_key fst s) = map_of s" by (simp add: map_of_inject_set [OF d' d])
    then show "map_of (sort_key fst s) = dm_get s" by (simp add: dm_get_def fun_eq_iff)
  qed (simp add: memory_storage_def memory_entries_def)
qed (auto simp: memory_storage_def memory_get_def memory_set_def memory_remove_def)

subsection \<open>The persister's laws\<close>

lemma set_query_data_eq_entry:
  "\<exists>e. dm_get (cl_cache (set_query_data (=) now key data opts c)) (cache_key key) = Some e
     \<and> ce_data e = data \<and> ce_type_id e = value_type data \<and> ce_fetched_at e = now \<and> \<not> ce_is_stale e"
  by (cases "dm_get (cl_cache c) (cache_key key)") 
    (auto simp: set_query_data_entry Let_def eq_any_def downcast_def split: option.splits if_splits)

lemma apply_restored_entry:
  assumes "dm_get (cl_cache (apply_restored_data (=) p now wall key data stamp c)) (cache_key key) = Some e"
  shows "ce_data e = data \<and> ce_type_id e = value_type data \<and> ce_fetched_at e = now
   \<and> (ce_is_stale e \<longleftrightarrow> pp_refetch_on_restore p
        \<and> (case stamp of None \<Rightarrow> True
           | Some u \<Rightarrow> wall - u \<ge> millis_u64 (case pp_stale_time p of Some d \<Rightarrow> d | None \<Rightarrow> 0)))"
proof -
  let ?st = "case pp_stale_time p of Some d \<Rightarrow> d | None \<Rightarrow> 0"
  obtain e0 where "dm_get (cl_cache (set_query_data (=) now key data
      (QueryOptions_default\<lparr>stale_time := ?st\<rparr>) c)) (cache_key key) = Some e0"
    "ce_data e0 = data" "ce_type_id e0 = value_type data" "ce_fetched_at e0 = now" "\<not> ce_is_stale e0"
    using set_query_data_eq_entry by blast
  with assms show ?thesis by (auto simp: apply_restored_data_def Let_def split: if_splits)
qed

lemma apply_restored_present:
  "\<exists>e. dm_get (cl_cache (apply_restored_data peq p now wall key data stamp c)) (cache_key key) = Some e"
  by (simp add: apply_restored_data_def Let_def set_query_data_entry)

lemma apply_restored_other:
  "k \<noteq> cache_key key \<Longrightarrow>
   dm_get (cl_cache (apply_restored_data peq p now wall key data stamp c)) k = dm_get (cl_cache c) k"
  by (simp add: apply_restored_data_def Let_def set_query_data_entry)

text \<open>
  C21. Persist then retrieve: a text query written to the in-memory storage and read back, within
  \<open>max_age\<close> and with the same options, comes back as the same text in the second client, whatever that
  client held for the key; only that key changes there and the storage is left as it was. The restored
  entry is stale exactly when \<open>refetch_on_restore\<close> is on and the persisted data is at least the
  effective stale time old.
\<close>

theorem persister_roundtrip:
  assumes "dm_wf s" and "serde_ok J" and "get_query_data T_String key c1 = Some (StrV txt)"
    and "wall2 - wall1 \<le> millis_u64 (pp_max_age p)"
    and "persist_query (Some J) memory_storage p wall1 key c1 s = (r1, s1)"
    and "retrieve_query J (=) memory_storage p T_String now wall2 key (c2, s1) = (r2, (c3, s2))"
  shows "r1 = Inr () \<and> r2 = Inr (Some (StrV txt))
   \<and> dm_get s2 = dm_get s1 \<and> (\<forall>k. k \<noteq> storage_key p (cache_key key) \<longrightarrow> dm_get s1 k = dm_get s k)
   \<and> get_query_data T_String key c3 = Some (StrV txt)
   \<and> (\<exists>e. dm_get (cl_cache c3) (cache_key key) = Some e \<and> ce_fetched_at e = now
        \<and> (ce_is_stale e \<longleftrightarrow> pp_refetch_on_restore p
              \<and> wall2 - wall1 \<ge> millis_u64 (case pp_stale_time p of Some d \<Rightarrow> d | None \<Rightarrow> 0)))
   \<and> (\<forall>k. k \<noteq> cache_key key \<longrightarrow> dm_get (cl_cache c3) k = dm_get (cl_cache c2) k)"
proof -
  let ?sk = "storage_key p (cache_key key)"
  obtain j raw where r1: "r1 = Inr ()" and wf1: "dm_wf s1" and s1: "dm_get s1 = (dm_get s)(?sk \<mapsto> raw)"
    and j: "sc_value_from J T_String j = Inr (StrV txt)"
    and raw: "deserialize_persisted_query J raw = Inr
         \<lparr>pq_buster = pp_buster p, pq_query_hash = cache_key key, pq_query_key = segments key,
          pq_state = \<lparr>ps_data_json = Some j, ps_data_updated_at_ms = Some wall1, ps_error = None\<rparr>\<rparr>"
    using mem.persist_ok [OF assms(1-3), of p wall1] assms(5) by auto
  have live: "persisted_value J p T_String wall2 (dm_get s1 ?sk) = Some (StrV txt)"
    "persisted_stamp J (dm_get s1 ?sk) = Some wall1"
    "\<not> persisted_corrupt J p T_String wall2 (dm_get s1 ?sk)"
    using assms(4) j raw
    by (simp_all add: s1 persisted_value_def persisted_stamp_def persisted_corrupt_def is_expired_or_busted_def)
  have r2: "r2 = Inr (Some (StrV txt))" "c3 = apply_restored_data (=) p now wall2 key (StrV txt) (Some wall1) c2"
    "dm_get s2 = dm_get s1"
    using mem.retrieve_ok [OF wf1, of J "(=)" p T_String now wall2 key c2] assms(6) live by auto
  obtain e where e: "dm_get (cl_cache c3) (cache_key key) = Some e"
    using apply_restored_present r2(2) by blast
  note e' = apply_restored_entry [OF e [unfolded r2(2)]]
  have "get_query_data T_String key c3 = Some (StrV txt)"
    using e e' by (simp add: get_query_data_def)
  then show ?thesis using e e' r1 r2 s1 by (auto simp: apply_restored_other)
qed

text \<open>
  C30. What a retrieval does, on every branch: it returns the value the stored text stands for, and
  nothing when the entry is missing, expired, of another buster or unreadable. A refused retrieval
  leaves the client untouched, and the storage entry is deleted exactly when it is corrupt: an expired
  or busted entry stays for the garbage collection, however damaged its data is.
\<close>

theorem retrieve_query_spec:
  assumes "dm_wf s" and "stored = dm_get s (storage_key p (cache_key key))"
    and "retrieve_query J peq memory_storage p ty now wall key (c, s) = (r, (c', s'))"
  shows "r = Inr (persisted_value J p ty wall stored)
   \<and> (persisted_value J p ty wall stored = None \<longrightarrow> c' = c)
   \<and> dm_get s' = (if persisted_corrupt J p ty wall stored
        then (dm_get s)(storage_key p (cache_key key) := None) else dm_get s)
   \<and> (\<forall>raw q. stored = Some raw \<and> deserialize_persisted_query J raw = Inr q \<and> is_expired_or_busted p q wall
        \<longrightarrow> r = Inr None \<and> dm_get s' = dm_get s)"
  using mem.retrieve_ok [OF assms(1), of J peq p ty now wall key c] assms(2,3)
  by (auto simp: persisted_value_def persisted_corrupt_def)

text \<open>
  The garbage collection removes exactly the entries of the persister's own prefix that are
  unreadable, expired or of another buster, returns their number, leaves every other entry of the
  storage, and a second run finds nothing. In the client it marks stale every entry whose cache key
  starts with the key of a removed entry, which is more than the copies of the removed entries.
\<close>

theorem persister_gc_exact:
  assumes "dm_wf s" and "G = persister_garbage J p wall (dm_get s)"
    and "persister_gc (Some J) memory_storage p wall (c, s) = (r, (c', s'))"
  shows "r = Inr (card G) \<and> finite G
   \<and> (\<forall>k. dm_get s' k = (if k \<in> G then None else dm_get s k))
   \<and> (\<forall>k. dm_get (cl_cache c') k = map_option (\<lambda>e.
          if \<exists>sk \<in> G. prefix (strip_owned p sk) k then e\<lparr>ce_is_stale := True\<rparr> else e) (dm_get (cl_cache c) k))
   \<and> fst (persister_gc (Some J) memory_storage p wall (c', s')) = Inr 0"
proof -
  have 1: "finite G" "r = Inr (card G)" "dm_wf s'" "dm_get s' = (\<lambda>k. if k \<in> G then None else dm_get s k)"
    "\<forall>k. dm_get (cl_cache c') k = map_option (\<lambda>e.
          if \<exists>sk \<in> G. prefix (strip_owned p sk) k then e\<lparr>ce_is_stale := True\<rparr> else e) (dm_get (cl_cache c) k)"
    using mem.gc_ok [OF assms(1,2), of c] assms(3) by auto
  have "persister_garbage J p wall (dm_get s') = {}"
    by (auto simp: persister_garbage_def 1(4) assms(2) split: if_splits)
  then have "fst (persister_gc (Some J) memory_storage p wall (c', s')) = Inr 0"
    using mem.gc_ok [OF 1(3) refl, of J p wall c'] by auto
  then show ?thesis using 1 by simp
qed

subsection \<open>A concrete codec\<close>

text \<open>
  A codec with the behaviour asked of \<open>serde_json\<close>, for the examples: numbers in unary, texts and
  lists with their length first.
\<close>

definition put_nat :: "nat \<Rightarrow> string" where
  "put_nat n = replicate n (CHR ''1'') @ ''.''"

definition get_nat :: "string \<Rightarrow> nat \<times> string" where
  "get_nat r = (let n = length (takeWhile (\<lambda>c. c = CHR ''1'') r) in (n, drop (Suc n) r))"

definition put_str :: "string \<Rightarrow> string" where
  "put_str s = put_nat (length s) @ s"

definition get_str :: "string \<Rightarrow> string \<times> string" where
  "get_str r = (case get_nat r of (n, r') \<Rightarrow> (take n r', drop n r'))"

fun put_opt :: "('a \<Rightarrow> string) \<Rightarrow> 'a option \<Rightarrow> string" where
  "put_opt f None = put_nat 0"
| "put_opt f (Some x) = put_nat 1 @ f x"

definition get_opt :: "(string \<Rightarrow> 'a \<times> string) \<Rightarrow> string \<Rightarrow> 'a option \<times> string" where
  "get_opt g r = (case get_nat r of (n, r') \<Rightarrow>
     if n = 0 then (None, r') else (case g r' of (x, r'') \<Rightarrow> (Some x, r'')))"

primrec get_many :: "nat \<Rightarrow> string \<Rightarrow> string list \<times> string" where
  "get_many 0 r = ([], r)"
| "get_many (Suc n) r = (case get_str r of (x, r') \<Rightarrow> case get_many n r' of (xs, r'') \<Rightarrow> (x # xs, r''))"

lemma get_nat_put [simp]: "get_nat (put_nat n @ r) = (n, r)"
  by (induction n) (auto simp: get_nat_def put_nat_def Let_def)

lemma get_str_put [simp]: "get_str (put_str s @ r) = (s, r)"
  by (simp add: get_str_def put_str_def)

lemma get_opt_put [simp]: "(\<And>x r. g (f x @ r) = (x, r)) \<Longrightarrow> get_opt g (put_opt f v @ r) = (v, r)"
  by (cases v) (simp_all add: get_opt_def)

lemma get_many_put [simp]: "get_many (length xs) (concat (map put_str xs) @ r) = (xs, r)"
  by (induction xs) simp_all

definition demo_query_to :: "persisted_query \<Rightarrow> string" where
  "demo_query_to q = ''{'' @ put_str (pq_buster q) @ put_str (pq_query_hash q)
     @ put_nat (length (pq_query_key q)) @ concat (map put_str (pq_query_key q))
     @ put_opt put_str (ps_data_json (pq_state q)) @ put_opt put_nat (ps_data_updated_at_ms (pq_state q))
     @ put_opt put_str (ps_error (pq_state q))"

definition demo_query_from :: "string \<Rightarrow> (string, persisted_query) result" where
  "demo_query_from raw =
     (if \<not> prefix ''{'' raw then Inl ''expected an object''
      else case get_str (tl raw) of (b, r1) \<Rightarrow> case get_str r1 of (h, r2) \<Rightarrow>
           case get_nat r2 of (n, r3) \<Rightarrow> case get_many n r3 of (ks, r4) \<Rightarrow>
           case get_opt get_str r4 of (d, r5) \<Rightarrow> case get_opt get_nat r5 of (u, r6) \<Rightarrow>
           case get_opt get_str r6 of (e, r7) \<Rightarrow>
             Inr \<lparr>pq_buster = b, pq_query_hash = h, pq_query_key = ks,
                  pq_state = \<lparr>ps_data_json = d, ps_data_updated_at_ms = u, ps_error = e\<rparr>\<rparr>)"

definition demo_codec :: "'v serde_codec" where
  "demo_codec = \<lparr>sc_query_to = \<lambda>q. Inr (demo_query_to q), sc_query_from = demo_query_from,
     sc_text_to = \<lambda>s. Inr (put_str s),
     sc_value_from = \<lambda>ty j. if ty = T_String then Inr (StrV (fst (get_str j))) else Inl ''invalid type''\<rparr>"

lemma demo_query_roundtrip: "demo_query_from (demo_query_to q) = Inr q"
  using get_opt_put [of get_str put_str "ps_error (pq_state q)" "[]"]
  by (simp add: demo_query_from_def demo_query_to_def)

lemma demo_codec_ok: "serde_ok demo_codec"
  using get_str_put [of _ "[]"] by (simp add: serde_ok_def demo_codec_def demo_query_roundtrip)

definition demo_persist_client :: "nat client" where
  "demo_persist_client =
     set_query_data (=) 0 (QueryKey_new ''t'') (StrV ''hello'') QueryOptions_default QueryClient_new"

theorem persister_roundtrip_witness:
  "fst (retrieve_query demo_codec (=) memory_storage QueryPersisterOptions_new T_String 9 1500 (QueryKey_new ''t'')
     (QueryClient_new :: nat client,
      snd (persist_query (Some demo_codec) memory_storage QueryPersisterOptions_new 1000 (QueryKey_new ''t'')
             demo_persist_client []))) = Inr (Some (StrV ''hello''))"
proof -
  obtain r1 s1 where p: "persist_query (Some demo_codec) memory_storage QueryPersisterOptions_new 1000
      (QueryKey_new ''t'') demo_persist_client [] = (r1, s1)" by fastforce
  obtain r2 c3 s2 where r: "retrieve_query demo_codec (=) memory_storage QueryPersisterOptions_new T_String 9 1500
      (QueryKey_new ''t'') (QueryClient_new :: nat client, s1) = (r2, (c3, s2))" by (metis prod.collapse)
  have "get_query_data T_String (QueryKey_new ''t'') demo_persist_client = Some (StrV ''hello'')"
    by (simp add: demo_persist_client_def get_query_data_def set_query_data_entry QueryClient_new_def Let_def)
  moreover have "(1500::nat) - 1000 \<le> millis_u64 (pp_max_age QueryPersisterOptions_new)"
    by (simp add: QueryPersisterOptions_new_def DEFAULT_MAX_AGE_def millis_u64_def as_millis_def sat64_def
        u64_max_def from_secs_def)
  ultimately show ?thesis
    using persister_roundtrip [OF dm_wf_Nil demo_codec_ok _ _ p r] p r by simp
qed

theorem retrieve_query_spec_witness:
  "\<exists>c' s'. retrieve_query demo_codec (=) memory_storage QueryPersisterOptions_new T_String 9 1500 (QueryKey_new ''t'')
     (QueryClient_new :: nat client, [(''rs-query-t'', ''junk'')]) = (Inr None, (c', s'))
   \<and> c' = QueryClient_new \<and> dm_get s' ''rs-query-t'' = None"
proof -
  obtain r c' s' where r: "retrieve_query demo_codec (=) memory_storage QueryPersisterOptions_new T_String 9 1500
      (QueryKey_new ''t'') (QueryClient_new :: nat client, [(''rs-query-t'', ''junk'')]) = (r, (c', s'))"
    by (metis prod.collapse)
  have sk: "storage_key QueryPersisterOptions_new (cache_key (QueryKey_new ''t'')) = ''rs-query-t''"
    by (simp add: storage_key_def QueryPersisterOptions_new_def PERSISTER_KEY_PREFIX_def QueryKey_new_def)
  have g: "dm_get [(''rs-query-t'', ''junk'')] ''rs-query-t'' = Some ''junk''" by (simp add: dm_get_def)
  have wf: "dm_wf [(''rs-query-t'', ''junk'')]" by (simp add: dm_wf_def)
  have "deserialize_persisted_query (demo_codec :: nat serde_codec) ''junk'' = Inl (QueryError_serialization ''expected an object'')"
    by (simp add: deserialize_persisted_query_def demo_codec_def demo_query_from_def)
  then show ?thesis
    using retrieve_query_spec [OF wf refl r] r
    by (simp add: sk g persisted_value_def persisted_corrupt_def)
qed

theorem persister_gc_exact_witness:
  "fst (persister_gc (Some demo_codec) memory_storage QueryPersisterOptions_new 1500
     (QueryClient_new :: nat client, [(''rs-query-t'', ''junk''), (''other'', ''junk'')])) = Inr 1"
proof -
  let ?s = "[(''rs-query-t'', ''junk''), (''other'', ''junk'')]"
  obtain r c' s' where r: "persister_gc (Some demo_codec) memory_storage QueryPersisterOptions_new 1500
     (QueryClient_new :: nat client, ?s) = (r, (c', s'))" by (metis prod.collapse)
  have wf: "dm_wf ?s" by (simp add: dm_wf_def)
  have "drops_entry (demo_codec :: nat serde_codec) QueryPersisterOptions_new 1500 ''junk''"
    by (simp add: drops_entry_def deserialize_persisted_query_def demo_codec_def demo_query_from_def)
  then have "persister_garbage (demo_codec :: nat serde_codec) QueryPersisterOptions_new 1500 (dm_get ?s) = {''rs-query-t''}"
    by (auto simp: persister_garbage_def dm_get_def owned_def QueryPersisterOptions_new_def
        PERSISTER_KEY_PREFIX_def split: if_splits)
  then show ?thesis using persister_gc_exact [OF wf refl r] r by simp
qed

end
