(* ===== verification/Persist_Client.thy ===== *)
theory Persist_Client
  imports Hydration Query_Persister Network
begin

text \<open>
  \<open>src/persist_client.rs\<close>: the whole client persisted as one snapshot. The trait
  \<open>ClientPersister\<close> is a record of operations on a persister state; the background save loop is the
  state of its task together with one function per poll, so that its interleavings with
  \<open>unsubscribe\<close> are sequences of events. \<open>now\<close> and \<open>wall\<close> are the monotonic clock and the wall
  clock (milliseconds) at the call, \<open>serde\<close> the JSON functions of hydration.
\<close>

subsection \<open>Snapshots, persisters and options\<close>

definition PERSIST_INTERVAL :: duration where
  "PERSIST_INTERVAL = from_secs 1"

definition MAX_RESTORE_RETRIES :: nat where
  "MAX_RESTORE_RETRIES = 3"

record persisted_client =
  pc_timestamp_ms :: nat
  pc_buster :: string
  pc_client_state :: dehydrated_state

record 's client_persister =
  cp_persist_client :: "persisted_client \<Rightarrow> 's \<Rightarrow> (query_error, unit) result \<times> 's"
  cp_restore_client :: "'s \<Rightarrow> (query_error, persisted_client option) result \<times> 's"
  cp_remove_client :: "'s \<Rightarrow> (query_error, unit) result \<times> 's"

definition InMemoryClientPersister_new :: "persisted_client option" where
  "InMemoryClientPersister_new = None"

definition memory_persist_client ::
  "persisted_client \<Rightarrow> persisted_client option \<Rightarrow> (query_error, unit) result \<times> persisted_client option" where
  "memory_persist_client p s = (Inr (), Some p)"

definition memory_restore_client ::
  "persisted_client option \<Rightarrow> (query_error, persisted_client option) result \<times> persisted_client option" where
  "memory_restore_client s = (Inr s, s)"

definition memory_remove_client ::
  "persisted_client option \<Rightarrow> (query_error, unit) result \<times> persisted_client option" where
  "memory_remove_client s = (Inr (), None)"

definition memory_client_persister :: "persisted_client option client_persister" where
  "memory_client_persister =
     \<lparr>cp_persist_client = memory_persist_client, cp_restore_client = memory_restore_client,
      cp_remove_client = memory_remove_client\<rparr>"

record persist_client_options =
  po_max_age :: duration
  po_buster :: string

definition PersistQueryClientOptions_new :: persist_client_options where
  "PersistQueryClientOptions_new = \<lparr>po_max_age = DEFAULT_MAX_AGE, po_buster = []\<rparr>"

definition PersistQueryClientOptions_with_max_age ::
  "duration \<Rightarrow> persist_client_options \<Rightarrow> persist_client_options" where
  "PersistQueryClientOptions_with_max_age d o' = o'\<lparr>po_max_age := d\<rparr>"

definition PersistQueryClientOptions_with_buster ::
  "string \<Rightarrow> persist_client_options \<Rightarrow> persist_client_options" where
  "PersistQueryClientOptions_with_buster b o' = o'\<lparr>po_buster := b\<rparr>"

subsection \<open>Restore and save\<close>

definition discards :: "persist_client_options \<Rightarrow> nat \<Rightarrow> persisted_client \<Rightarrow> bool" where
  "discards o' wall persisted =
     (let busted = (pc_buster persisted \<noteq> po_buster o');
          missing_timestamp = (pc_timestamp_ms persisted = 0);
          expired = (\<not> missing_timestamp
            \<and> wall - pc_timestamp_ms persisted > millis_u64 (po_max_age o'))
      in busted \<or> missing_timestamp \<or> expired)"

definition persist_query_client_restore ::
  "json_codec option \<Rightarrow> 's client_persister \<Rightarrow> persist_client_options \<Rightarrow> instant \<Rightarrow> nat \<Rightarrow> 'v client \<times> 's
   \<Rightarrow> (query_error, unit) result \<times> ('v client \<times> 's)" where
  "persist_query_client_restore serde cp o' now wall cs =
     (case cp_restore_client cp (snd cs) of
        (Inr None, s1) \<Rightarrow> (Inr (), (fst cs, s1))
      | (Inr (Some persisted), s1) \<Rightarrow>
          if discards o' wall persisted
          then (case cp_remove_client cp s1 of
                  (Inl e, s2) \<Rightarrow> (Inl e, (fst cs, s2))
                | (Inr _, s2) \<Rightarrow> (Inr (), (fst cs, s2)))
          else (Inr (), (client_hydrate serde now (pc_client_state persisted) HydrateOptions_default (fst cs), s1))
      | (Inl e, s1) \<Rightarrow> (Inl e, (fst cs, snd (cp_remove_client cp s1))))"

text \<open>The snapshot that a save takes when it starts.\<close>

definition client_snapshot ::
  "json_codec option \<Rightarrow> persist_client_options \<Rightarrow> instant \<Rightarrow> nat \<Rightarrow> 'v client \<Rightarrow> persisted_client" where
  "client_snapshot serde o' now wall c =
     \<lparr>pc_timestamp_ms = wall, pc_buster = po_buster o', pc_client_state = client_dehydrate serde now wall c\<rparr>"

definition persist_query_client_save ::
  "json_codec option \<Rightarrow> 's client_persister \<Rightarrow> persist_client_options \<Rightarrow> instant \<Rightarrow> nat \<Rightarrow> 'v client \<Rightarrow> 's
   \<Rightarrow> (query_error, unit) result \<times> 's" where
  "persist_query_client_save serde cp o' now wall c s =
     cp_persist_client cp (client_snapshot serde o' now wall c) s"

subsection \<open>The background save loop\<close>

text \<open>
  What the loop sees of \<open>ClientPersister::persist_client\<close>: the call, and the polls of the future it returns,
  which may stay pending for any number of them. Both may change what is stored.
\<close>

record 's save_future =
  sf_call :: "persisted_client \<Rightarrow> 's \<Rightarrow> 's"
  sf_poll :: "persisted_client \<Rightarrow> nat \<Rightarrow> 's \<Rightarrow> (query_error, unit) result option \<times> 's"

definition memory_saves :: "persisted_client option save_future" where
  "memory_saves = \<lparr>sf_call = (\<lambda>p s. snd (memory_persist_client p s)), sf_poll = (\<lambda>p k s. (Some (Inr ()), s))\<rparr>"

text \<open>The task's shared state: the flag, the stop signal, the loop's receiver, whether it has ended, and the
  save it is waiting for, with the number of times that has been polled.\<close>

record save_loop =
  sl_unsubscribe :: bool
  sl_stop_signal :: "bool watch"
  sl_stop_rx :: watcher
  sl_done :: bool
  sl_saving :: "(persisted_client \<times> nat) option"

definition save_loop_start :: save_loop where
  "save_loop_start =
     (let (tx, rx) = Watch_new False
      in \<lparr>sl_unsubscribe = False, sl_stop_signal = tx, sl_stop_rx = rx, sl_done = False, sl_saving = None\<rparr>)"

definition handle_unsubscribe :: "save_loop \<Rightarrow> save_loop" where
  "handle_unsubscribe l =
     l\<lparr>sl_unsubscribe := True, sl_stop_signal := fst (Watch_send True (sl_stop_signal l))\<rparr>"

text \<open>
  \<open>into_task\<close> on a handle with or without its task; \<open>None\<close> is the panic. The handle is consumed, so
  its \<open>Drop\<close> unsubscribes once more, also while the panic unwinds.
\<close>

definition handle_drop :: "save_loop \<Rightarrow> save_loop" where
  "handle_drop l = handle_unsubscribe l"

definition into_task :: "'t option \<Rightarrow> save_loop \<Rightarrow> 't option \<times> save_loop" where
  "into_task task l =
     (case task of
        None \<Rightarrow> (None, handle_drop l)
      | Some t \<Rightarrow> (Some t, handle_drop (handle_unsubscribe l)))"

text \<open>
  One poll of the task. \<open>select\<close> looks at the stop signal first, then at the sleep, which is over when
  \<open>tick\<close>. A save that is pending suspends the loop inside it, where it does not look at the stop signal;
  when the save is over, whether it failed or not, the loop goes round to \<open>select\<close> with a new sleep.
\<close>

definition save_select :: "save_loop \<Rightarrow> save_loop" where
  "save_select l =
     (case Changed_poll (sl_stop_signal l) (sl_stop_rx l) of
        (ChangePending, w, r) \<Rightarrow> l\<lparr>sl_stop_signal := w, sl_stop_rx := r\<rparr>
      | (_, w, r) \<Rightarrow> l\<lparr>sl_stop_signal := w, sl_stop_rx := r, sl_done := True\<rparr>)"

definition save_poll :: "'s save_future \<Rightarrow> persisted_client \<Rightarrow> nat \<Rightarrow> save_loop \<times> 's \<Rightarrow> save_loop \<times> 's" where
  "save_poll sf snapshot k ls =
     (case sf_poll sf snapshot k (snd ls) of
        (None, s) \<Rightarrow> ((fst ls)\<lparr>sl_saving := Some (snapshot, k + 1)\<rparr>, s)
      | (Some _, s) \<Rightarrow> (save_select ((fst ls)\<lparr>sl_saving := None\<rparr>), s))"

definition save_loop_poll ::
  "json_codec option \<Rightarrow> 's save_future \<Rightarrow> persist_client_options \<Rightarrow> instant \<Rightarrow> nat \<Rightarrow> bool \<Rightarrow> 'v client
   \<Rightarrow> save_loop \<times> 's \<Rightarrow> save_loop \<times> 's" where
  "save_loop_poll serde sf o' now wall tick c ls =
     (if sl_done (fst ls) then ls
      else case sl_saving (fst ls) of
        Some (snapshot, k) \<Rightarrow> save_poll sf snapshot k ls
      | None \<Rightarrow>
          (let l = save_select (fst ls); s = snd ls; snapshot = client_snapshot serde o' now wall c
           in if sl_done l \<or> \<not> tick then (l, s)
              else if sl_unsubscribe l then (l\<lparr>sl_done := True\<rparr>, s)
              else save_poll sf snapshot 0 (l, sf_call sf snapshot s)))"

definition persist_query_client ::
  "json_codec option \<Rightarrow> 's client_persister \<Rightarrow> persist_client_options \<Rightarrow> instant \<Rightarrow> nat \<Rightarrow> 'v client \<times> 's
   \<Rightarrow> (query_error, save_loop) result \<times> ('v client \<times> 's)" where
  "persist_query_client serde cp o' now wall cs =
     (case persist_query_client_restore serde cp o' now wall cs of
        (Inl e, cs') \<Rightarrow> (Inl e, cs')
      | (Inr _, cs') \<Rightarrow> (Inr save_loop_start, cs'))"

text \<open>Interleavings of the loop with the owner of its handle, the client being whatever it is at each poll.\<close>

datatype 'v save_event =
    Poll_Task instant nat bool "'v client"
  | Unsubscribe

fun save_event_step ::
  "json_codec option \<Rightarrow> 's save_future \<Rightarrow> persist_client_options \<Rightarrow> 'v save_event
   \<Rightarrow> save_loop \<times> 's \<Rightarrow> save_loop \<times> 's" where
  "save_event_step serde sf o' (Poll_Task now wall tick c) ls = save_loop_poll serde sf o' now wall tick c ls"
| "save_event_step serde sf o' Unsubscribe (l, s) = (handle_unsubscribe l, s)"

subsection \<open>Retry strategies\<close>

text \<open>\<open>Iterator::min_by_key\<close> over \<open>enumerate\<close>: the first of the smallest elements.\<close>

fun min_index :: "('a \<Rightarrow> nat) \<Rightarrow> nat \<Rightarrow> nat \<times> 'a \<Rightarrow> 'a list \<Rightarrow> nat" where
  "min_index key i best [] = fst best"
| "min_index key i best (x # xs) =
     min_index key (i + 1) (if key x < key (snd best) then (i, x) else best) xs"

fun min_by_key :: "('a \<Rightarrow> nat) \<Rightarrow> 'a list \<Rightarrow> nat option" where
  "min_by_key key [] = None"
| "min_by_key key (x # xs) = Some (min_index key 1 (0, x) xs)"

definition query_stamp :: "dehydrated_query \<Rightarrow> nat" where
  "query_stamp q = (case dq_fetched_at_ms q of Some t \<Rightarrow> t | None \<Rightarrow> 0)"

definition remove_oldest_query :: "dehydrated_state \<Rightarrow> bool \<times> dehydrated_state" where
  "remove_oldest_query st =
     (case min_by_key query_stamp (ds_queries st) of
        Some index \<Rightarrow>
          (True, st\<lparr>ds_queries := take index (ds_queries st) @ drop (Suc index) (ds_queries st)\<rparr>)
      | None \<Rightarrow> (False, st))"

text \<open>
  The retry loop; \<open>clk n\<close> gives the two clocks at the attempt after \<open>n\<close> errors.
\<close>

function retry_loop ::
  "json_codec option \<Rightarrow> 's client_persister \<Rightarrow> persist_client_options \<Rightarrow> (nat \<Rightarrow> instant \<times> nat)
   \<Rightarrow> (query_error \<Rightarrow> nat \<Rightarrow> persisted_client option) \<Rightarrow> nat \<Rightarrow> 'v client \<times> 's
   \<Rightarrow> (query_error, unit) result \<times> ('v client \<times> 's)" where
  "retry_loop serde cp o' clk strategy error_count cs =
     (case persist_query_client_restore serde cp o' (fst (clk error_count)) (snd (clk error_count)) cs of
        (Inr _, cs') \<Rightarrow> (Inr (), cs')
      | (Inl e, cs') \<Rightarrow>
          if error_count + 1 > MAX_RESTORE_RETRIES then (Inl e, cs')
          else case strategy e (error_count + 1) of
                 Some replacement \<Rightarrow>
                   (Inr (), (client_hydrate serde (fst (clk error_count)) (pc_client_state replacement)
                               HydrateOptions_default (fst cs'),
                             snd (cp_persist_client cp replacement (snd cs'))))
               | None \<Rightarrow> retry_loop serde cp o' clk strategy (error_count + 1) cs')"
  by pat_completeness auto

termination
  by (relation "measure (\<lambda>(_, _, _, _, _, n, _). MAX_RESTORE_RETRIES - n)") auto

declare retry_loop.simps [simp del]

definition persist_with_retry ::
  "json_codec option \<Rightarrow> 's client_persister \<Rightarrow> persist_client_options \<Rightarrow> (nat \<Rightarrow> instant \<times> nat)
   \<Rightarrow> (query_error \<Rightarrow> nat \<Rightarrow> persisted_client option) \<Rightarrow> 'v client \<times> 's
   \<Rightarrow> (query_error, unit) result \<times> ('v client \<times> 's)" where
  "persist_with_retry serde cp o' clk strategy cs = retry_loop serde cp o' clk strategy 0 cs"

subsection \<open>The persister contract\<close>

text \<open>
  A persister that works holds at most one snapshot, \<open>snap\<close>: saving replaces it, reading returns it
  and leaves it, removing drops it.
\<close>

locale client_persister_contract =
  fixes cp :: "'s client_persister" and snap :: "'s \<Rightarrow> persisted_client option" and ok :: "'s \<Rightarrow> bool"
  assumes persist_ok: "ok s \<Longrightarrow> \<exists>s'. cp_persist_client cp p s = (Inr (), s') \<and> ok s' \<and> snap s' = Some p"
    and restore_ok: "ok s \<Longrightarrow> \<exists>s'. cp_restore_client cp s = (Inr (snap s), s') \<and> ok s' \<and> snap s' = snap s"
    and remove_ok: "ok s \<Longrightarrow> \<exists>s'. cp_remove_client cp s = (Inr (), s') \<and> ok s' \<and> snap s' = None"
begin

lemma restore_spec:
  assumes "ok s"
  shows "\<exists>s'. persist_query_client_restore serde cp o' now wall (c, s) =
      (Inr (), ((case snap s of
                   Some p \<Rightarrow> if discards o' wall p then c
                             else client_hydrate serde now (pc_client_state p) HydrateOptions_default c
                 | None \<Rightarrow> c), s'))
     \<and> ok s'
     \<and> snap s' = (case snap s of Some p \<Rightarrow> if discards o' wall p then None else Some p | None \<Rightarrow> None)"
proof -
  obtain s1 where s1: "cp_restore_client cp s = (Inr (snap s), s1)" "ok s1" "snap s1 = snap s"
    using restore_ok [OF assms] by blast
  obtain s2 where s2: "cp_remove_client cp s1 = (Inr (), s2)" "ok s2" "snap s2 = None"
    using remove_ok [OF s1(2)] by blast
  show ?thesis
    using s1 s2 by (cases "snap s") (auto simp: persist_query_client_restore_def)
qed

lemma save_spec:
  assumes "ok s"
  shows "\<exists>s'. persist_query_client_save serde cp o' now wall c s = (Inr (), s') \<and> ok s'
     \<and> snap s' = Some \<lparr>pc_timestamp_ms = wall, pc_buster = po_buster o',
                       pc_client_state = client_dehydrate serde now wall c\<rparr>"
  using persist_ok [OF assms] by (simp add: persist_query_client_save_def client_snapshot_def)

lemma save_restore:
  assumes "ok s" "persist_query_client_save serde cp o' now1 wall1 c1 s = (r1, s1)"
    "persist_query_client_restore serde cp o' now2 wall2 (c2, s1) = (r2, (c3, s2))"
  shows "r1 = Inr () \<and> r2 = Inr () \<and> ok s2
     \<and> (if wall1 = 0 \<or> wall2 - wall1 > millis_u64 (po_max_age o') then c3 = c2 \<and> snap s2 = None
        else c3 = client_hydrate serde now2 (client_dehydrate serde now1 wall1 c1) HydrateOptions_default c2
           \<and> snap s2 = snap s1)"
proof -
  obtain s' where "persist_query_client_save serde cp o' now1 wall1 c1 s = (Inr (), s')" and s': "ok s'"
    "snap s' = Some \<lparr>pc_timestamp_ms = wall1, pc_buster = po_buster o',
                       pc_client_state = client_dehydrate serde now1 wall1 c1\<rparr>"
    using save_spec [OF assms(1)] by blast
  with assms(2) have r1: "r1 = Inr ()" "s1 = s'" by simp_all
  show ?thesis
    using restore_spec [OF s'(1), of serde o' now2 wall2 c2] assms(3) r1 s'(2)
    by (auto simp: discards_def)
qed

end

interpretation memc: client_persister_contract memory_client_persister "\<lambda>s. s" "\<lambda>_. True"
  by unfold_locales
    (simp_all add: memory_client_persister_def memory_persist_client_def memory_restore_client_def
      memory_remove_client_def)

text \<open>
  C25. Saving a client and restoring the snapshot into another one, with the same options, is exactly
  hydrating the second client with the dehydrated state of the first, and keeps the snapshot, as long
  as the snapshot is not older than \<open>max_age\<close>. An expired snapshot, or one saved while the wall clock
  stands before the epoch (timestamp 0), is removed instead and leaves the second client untouched.
\<close>

theorem persist_client_roundtrip:
  assumes "persist_query_client_save serde memory_client_persister o' now1 wall1 c1 s = (r1, s1)"
    and "persist_query_client_restore serde memory_client_persister o' now2 wall2 (c2, s1) = (r2, (c3, s2))"
  shows "r1 = Inr () \<and> r2 = Inr ()
     \<and> (if wall1 = 0 \<or> wall2 - wall1 > millis_u64 (po_max_age o') then c3 = c2 \<and> s2 = None
        else c3 = client_hydrate serde now2 (client_dehydrate serde now1 wall1 c1) HydrateOptions_default c2
           \<and> s2 = s1)"
  using memc.save_restore [OF TrueI assms] by blast

theorem persist_client_roundtrip_witness:
  "snd (persist_query_client_restore None memory_client_persister PersistQueryClientOptions_new 9 1500
     (QueryClient_new :: nat client,
      snd (persist_query_client_save None memory_client_persister PersistQueryClientOptions_new 7 1000
             demo_text_client None)))
   = (client_hydrate None 9 (client_dehydrate None 7 1000 demo_text_client) HydrateOptions_default QueryClient_new,
      snd (persist_query_client_save None memory_client_persister PersistQueryClientOptions_new 7 1000
             demo_text_client None))"
proof -
  obtain r1 s1 where a: "persist_query_client_save None memory_client_persister PersistQueryClientOptions_new 7 1000
             demo_text_client None = (r1, s1)" by fastforce
  obtain r2 c3 s2 where b: "persist_query_client_restore None memory_client_persister PersistQueryClientOptions_new
     9 1500 (QueryClient_new :: nat client, s1) = (r2, (c3, s2))" by (metis prod.collapse)
  have "(1500::nat) - 1000 \<le> millis_u64 (po_max_age PersistQueryClientOptions_new)"
    by (simp add: PersistQueryClientOptions_new_def DEFAULT_MAX_AGE_def millis_u64_def as_millis_def sat64_def
        u64_max_def from_secs_def)
  then show ?thesis using persist_client_roundtrip [OF a b] a b by simp
qed

subsection \<open>Stopping the save loop\<close>

text \<open>A loop that has been told to stop: it has ended, or its next \<open>select\<close> ends it.\<close>

definition stopping :: "save_loop \<Rightarrow> bool" where
  "stopping l \<longleftrightarrow> sl_done l \<or> w_version (sl_stop_signal l) \<noteq> wr_last_seen (sl_stop_rx l)"

definition save_loop_ok :: "save_loop \<Rightarrow> bool" where
  "save_loop_ok l \<longleftrightarrow> watch_ok (sl_stop_signal l) (sl_stop_rx l)"

lemma save_loop_start_ok: "save_loop_ok save_loop_start"
  by (simp add: save_loop_start_def save_loop_ok_def watch_ok_def Watch_new_def)

lemma save_select_ok: "save_loop_ok l \<Longrightarrow> save_loop_ok (save_select l)"
  by (auto simp: save_select_def save_loop_ok_def watch_ok_def Changed_poll_def)

lemma save_poll_ok: "save_loop_ok (fst ls) \<Longrightarrow> save_loop_ok (fst (save_poll sf snapshot k ls))"
  using save_select_ok [of "(fst ls)\<lparr>sl_saving := None\<rparr>"]
  by (auto simp: save_poll_def save_loop_ok_def split: option.splits prod.splits)

lemma save_loop_poll_ok: "save_loop_ok (fst ls) \<Longrightarrow> save_loop_ok (fst (save_loop_poll serde sf o' now wall tick c ls))"
  using save_select_ok [of "fst ls"]
  by (auto simp: save_loop_poll_def Let_def save_poll_ok save_loop_ok_def [of "_\<lparr>sl_done := _\<rparr>"] save_loop_ok_def [of "save_select _"]
      split: option.splits)

lemma unsubscribe_ok: "save_loop_ok l \<Longrightarrow> save_loop_ok (handle_unsubscribe l)"
  by (simp add: save_loop_ok_def handle_unsubscribe_def watch_ok_def Watch_send_def)

lemma save_event_ok: "save_loop_ok (fst ls) \<Longrightarrow> save_loop_ok (fst (save_event_step serde sf o' ev ls))"
  by (cases ev; cases ls) (simp_all add: save_loop_poll_ok unsubscribe_ok)

lemma run_ok:
  "save_loop_ok (fst ls) \<Longrightarrow> save_loop_ok (fst (fold (save_event_step serde sf o') evs ls))"
  by (induction evs arbitrary: ls) (simp_all add: save_event_ok)

lemma unsubscribe_stopping: "save_loop_ok l \<Longrightarrow> stopping (handle_unsubscribe l)"
  by (simp add: stopping_def save_loop_ok_def handle_unsubscribe_def watch_ok_def Watch_send_def)

text \<open>Polling a pending save \<open>n\<close> more times: whether it is over, and what is then stored.\<close>

fun drive :: "'s save_future \<Rightarrow> persisted_client \<Rightarrow> nat \<Rightarrow> nat \<Rightarrow> 's \<Rightarrow> bool \<times> 's" where
  "drive sf snapshot k 0 s = (False, s)"
| "drive sf snapshot k (Suc n) s =
     (case sf_poll sf snapshot k s of
        (None, s1) \<Rightarrow> drive sf snapshot (k + 1) n s1
      | (Some _, s1) \<Rightarrow> (True, s1))"

text \<open>What is left of a loop that has been told to stop, over \<open>n\<close> more polls.\<close>

definition remaining :: "'s save_future \<Rightarrow> save_loop \<Rightarrow> nat \<Rightarrow> 's \<Rightarrow> bool \<times> 's" where
  "remaining sf l n s =
     (if sl_done l then (True, s)
      else case sl_saving l of
        None \<Rightarrow> (0 < n, s)
      | Some (snapshot, k) \<Rightarrow> drive sf snapshot k n s)"

definition polls :: "'v save_event list \<Rightarrow> nat" where
  "polls evs = length (filter (\<lambda>ev. ev \<noteq> Unsubscribe) evs)"

lemma stopped_select: "w_version (sl_stop_signal l) \<noteq> wr_last_seen (sl_stop_rx l) \<Longrightarrow> sl_done (save_select l)"
  by (auto simp: save_select_def Changed_poll_def)

lemma remaining_poll:
  assumes "stopping l" "save_loop_poll serde sf o' now wall tick c (l, s) = (l1, s1)"
  shows "stopping l1 \<and> remaining sf l1 n s1 = remaining sf l (Suc n) s"
proof (cases "sl_done l")
  case True
  then show ?thesis using assms by (simp add: save_loop_poll_def remaining_def)
next
  case False
  then have v: "w_version (sl_stop_signal l) \<noteq> wr_last_seen (sl_stop_rx l)" using assms(1) by (simp add: stopping_def)
  show ?thesis
  proof (cases "sl_saving l")
    case None
    then show ?thesis using False v assms(2) by (auto simp: save_loop_poll_def Let_def stopped_select remaining_def stopping_def)
  next
    case (Some pending)
    obtain snapshot k where pending: "pending = (snapshot, k)" by fastforce
    obtain r s2 where r: "sf_poll sf snapshot k s = (r, s2)" by fastforce
    have "sl_done (save_select (l\<lparr>sl_saving := None\<rparr>))" using v by (simp add: stopped_select)
    then show ?thesis
      using False v assms(2) Some pending r
      by (cases r) (auto simp: save_loop_poll_def save_poll_def remaining_def stopping_def)
  qed
qed

lemma remaining_run:
  "stopping l \<Longrightarrow> save_loop_ok l \<Longrightarrow> fold (save_event_step serde sf o') evs (l, s) = (l', s') \<Longrightarrow>
   (sl_done l', s') = remaining sf l (polls evs) s"
proof (induction evs arbitrary: l s)
  case Nil
  then show ?case by (auto simp: remaining_def polls_def split: option.splits)
next
  case (Cons ev evs)
  obtain l1 s1 where step: "save_event_step serde sf o' ev (l, s) = (l1, s1)" by fastforce
  have ok: "save_loop_ok l1" using save_event_ok [of "(l, s)" serde sf o' ev] Cons.prems(2) step by simp
  have "stopping l1 \<and> remaining sf l1 (polls evs) s1 = remaining sf l (polls (ev # evs)) s"
  proof (cases ev)
    case (Poll_Task now wall tick c)
    then show ?thesis using remaining_poll [OF Cons.prems(1)] step by (simp add: polls_def)
  next
    case Unsubscribe
    then show ?thesis using step unsubscribe_stopping [OF Cons.prems(2)] by (auto simp: polls_def remaining_def handle_unsubscribe_def)
  qed
  then show ?case using Cons.IH [of l1 s1] ok Cons.prems(3) step by simp
qed

text \<open>
  C31. Stopping the background save loop, for a persister whose saves take any number of polls: from the
  start and after any interleaving of polls and \<open>unsubscribe\<close> calls, once the handle is unsubscribed (or
  dropped) no save is started any more, whatever the timer does. If none is under way, nothing is written
  and the first poll ends the task. If one is, the task still waits for it: the storage changes exactly
  by the remaining polls of that save, of the snapshot it took before, and the poll that finds it
  over ends the task.
\<close>

theorem save_loop_stops:
  assumes "(l, s) = fold (save_event_step serde sf o') before (save_loop_start, s0)" and "\<not> sl_done l"
    and "(l', s') = fold (save_event_step serde sf o') (Unsubscribe # after) (l, s)"
  shows "case sl_saving l of
      None \<Rightarrow> s' = s \<and> (sl_done l' \<longleftrightarrow> 0 < polls after)
    | Some (snapshot, k) \<Rightarrow> (sl_done l', s') = drive sf snapshot k (polls after) s"
proof -
  have ok: "save_loop_ok l" using run_ok [of "(save_loop_start, s0)" serde sf o' before] assms(1) save_loop_start_ok
    by (metis fst_conv)
  have "(sl_done l', s') = remaining sf (handle_unsubscribe l) (polls after) s"
    using remaining_run [OF unsubscribe_stopping [OF ok] unsubscribe_ok [OF ok], of serde sf o' after s l' s'] assms(3) [symmetric] by simp
  then show ?thesis using assms(2) by (auto simp: remaining_def handle_unsubscribe_def split: option.splits)
qed

text \<open>With the in-memory persister a save is over when it is polled first, and a round of the loop that is
  not told to stop stores what \<open>persist_query_client_save\<close> stores.\<close>

lemma memory_round_saves:
  assumes "\<not> sl_done l" "sl_saving l = None" "\<not> sl_unsubscribe l" "\<not> sl_done (save_select l)"
  shows "snd (save_loop_poll serde memory_saves o' now wall True c (l, s))
     = snd (persist_query_client_save serde memory_client_persister o' now wall c s)"
proof -
  have "sl_unsubscribe (save_select l) = sl_unsubscribe l" by (simp add: save_select_def split: prod.splits change_poll.splits)
  then show ?thesis
    using assms by (simp add: save_loop_poll_def save_poll_def memory_saves_def persist_query_client_save_def memory_client_persister_def)
qed

text \<open>A persister that stores at the second poll; the loop is unsubscribed in between.\<close>

definition slow_saves :: "persisted_client option save_future" where
  "slow_saves = \<lparr>sf_call = (\<lambda>p s. s), sf_poll = (\<lambda>p k s. if k = 0 then (None, s) else (Some (Inr ()), Some p))\<rparr>"

theorem save_loop_stops_witness:
  "\<exists>l s l' s'. (l, s) = fold (save_event_step None slow_saves PersistQueryClientOptions_new)
        [Poll_Task 7 1000 True demo_text_client] (save_loop_start, None)
   \<and> s = None
   \<and> (l', s') = fold (save_event_step None slow_saves PersistQueryClientOptions_new)
        [Unsubscribe, Poll_Task 8 2000 True demo_text_client, Poll_Task 9 3000 True demo_text_client] (l, s)
   \<and> s' = Some (client_snapshot None PersistQueryClientOptions_new 7 1000 demo_text_client) \<and> sl_done l'"
proof -
  obtain l s where a: "(l, s) = fold (save_event_step None slow_saves PersistQueryClientOptions_new)
        [Poll_Task 7 1000 True demo_text_client] (save_loop_start, None)" by (metis prod.collapse)
  obtain l' s' where b: "(l', s') = fold (save_event_step None slow_saves PersistQueryClientOptions_new)
        [Unsubscribe, Poll_Task 8 2000 True demo_text_client, Poll_Task 9 3000 True demo_text_client] (l, s)" by (metis prod.collapse)
  have l: "\<not> sl_done l" "s = None" "sl_saving l = Some (client_snapshot None PersistQueryClientOptions_new 7 1000 demo_text_client, 1)"
    using a by (simp_all add: save_loop_poll_def save_loop_start_def Watch_new_def Changed_poll_def Let_def save_select_def
        save_poll_def slow_saves_def)
  have "(sl_done l', s') = drive slow_saves (client_snapshot None PersistQueryClientOptions_new 7 1000 demo_text_client) 1 2 s"
    using save_loop_stops [OF a l(1) b] l(3) by (simp add: polls_def numeral_2_eq_2)
  then have "s' = Some (client_snapshot None PersistQueryClientOptions_new 7 1000 demo_text_client)" "sl_done l'"
    by (simp_all add: slow_saves_def numeral_2_eq_2)
  then show ?thesis using a b l(2) by blast
qed

subsection \<open>Dropping the oldest query\<close>

lemma min_index_spec:
  assumes "\<And>j. j < i \<Longrightarrow> key (xs ! b) \<le> key (xs ! j)" "\<And>j. j < b \<Longrightarrow> key (xs ! b) < key (xs ! j)"
    "b < i" "i \<le> length xs"
  shows "let m = min_index key i (b, xs ! b) (drop i xs)
         in m < length xs \<and> (\<forall>j < length xs. key (xs ! m) \<le> key (xs ! j)) \<and> (\<forall>j < m. key (xs ! m) < key (xs ! j))"
  using assms
proof (induction "length xs - i" arbitrary: i b)
  case 0
  then show ?case by simp
next
  case (Suc n)
  then have i: "i < length xs" and d: "drop i xs = xs ! i # drop (i + 1) xs" by (simp_all add: Cons_nth_drop_Suc)
  define b' where "b' = (if key (xs ! i) < key (xs ! b) then i else b)"
  have "key (xs ! b') \<le> key (xs ! j)" if "j < i + 1" for j
    using that Suc.prems(1) [of j] by (cases "j = i") (auto simp: b'_def)
  moreover have "key (xs ! b') < key (xs ! j)" if "j < b'" for j
    using that Suc.prems(1) [of j] Suc.prems(2) [of j] Suc.prems(3) by (auto simp: b'_def split: if_splits)
  moreover have "b' < i + 1" "n = length xs - (i + 1)" "i + 1 \<le> length xs"
    using Suc.prems(3) Suc.hyps(2) i by (auto simp: b'_def)
  ultimately have "let m = min_index key (i + 1) (b', xs ! b') (drop (i + 1) xs)
         in m < length xs \<and> (\<forall>j < length xs. key (xs ! m) \<le> key (xs ! j)) \<and> (\<forall>j < m. key (xs ! m) < key (xs ! j))"
    by (intro Suc.hyps(1)) auto
  then show ?case by (cases "key (xs ! i) < key (xs ! b)") (simp_all add: d b'_def)
qed

lemma min_by_key_spec:
  "min_by_key key xs = Some m \<Longrightarrow>
   m < length xs \<and> (\<forall>j < length xs. key (xs ! m) \<le> key (xs ! j)) \<and> (\<forall>j < m. key (xs ! m) < key (xs ! j))"
  using min_index_spec [of 1 key xs 0] by (cases xs) auto

text \<open>
  \<open>remove_oldest_query\<close> answers \<open>false\<close> exactly when the state has no query, and otherwise takes
  out one query, the first of those with the smallest timestamp (a missing one counts as 0), leaving
  the other queries in their order and the mutations alone. So a strategy that shrinks a snapshot with
  it runs out after as many steps as the snapshot has queries.
\<close>

theorem remove_oldest_query_spec:
  assumes "remove_oldest_query st = (removed, st')"
  shows "(removed \<longleftrightarrow> ds_queries st \<noteq> [])
   \<and> (\<not> removed \<longrightarrow> st' = st)
   \<and> (removed \<longrightarrow> (\<exists>xs q ys. ds_queries st = xs @ q # ys \<and> st' = st\<lparr>ds_queries := xs @ ys\<rparr>
        \<and> (\<forall>q' \<in> set (ds_queries st). query_stamp q \<le> query_stamp q')
        \<and> (\<forall>q' \<in> set xs. query_stamp q < query_stamp q')))
   \<and> length (ds_queries st') = length (ds_queries st) - 1"
proof (cases "min_by_key query_stamp (ds_queries st)")
  case None
  then have "ds_queries st = []" by (cases "ds_queries st") simp_all
  then show ?thesis using assms None by (simp add: remove_oldest_query_def)
next
  case (Some m)
  let ?qs = "ds_queries st"
  note spec = min_by_key_spec [OF Some]
  have st': "removed" "st' = st\<lparr>ds_queries := take m ?qs @ drop (Suc m) ?qs\<rparr>"
    using assms Some by (simp_all add: remove_oldest_query_def)
  moreover have "?qs = take m ?qs @ ?qs ! m # drop (Suc m) ?qs" using spec by (simp add: id_take_nth_drop)
  moreover have "\<forall>q' \<in> set ?qs. query_stamp (?qs ! m) \<le> query_stamp q'"
    using spec by (auto simp: in_set_conv_nth)
  moreover have "\<forall>q' \<in> set (take m ?qs). query_stamp (?qs ! m) < query_stamp q'"
    using spec by (auto simp: in_set_conv_nth)
  moreover have "?qs \<noteq> []" using spec by auto
  moreover have "length (take m ?qs @ drop (Suc m) ?qs) = length ?qs - 1" using spec by simp
  ultimately show ?thesis by auto
qed

definition demo_dehydrated :: "nat option \<Rightarrow> dehydrated_query" where
  "demo_dehydrated t =
     \<lparr>dq_query_hash = ''q'', dq_query_key = [''q''], dq_data_json = None, dq_error_json = None,
      dq_fetched_at_ms = t, dq_is_stale = False, dq_stale_time_ms = 0, dq_gc_time_ms = 0, dq_meta = [],
      dq_query_type = QUERY_TYPE_QUERY\<rparr>"

theorem remove_oldest_query_spec_witness:
  "length (ds_queries (snd (remove_oldest_query \<lparr>ds_dehydrated_at_ms = 9,
     ds_queries = [demo_dehydrated (Some 5), demo_dehydrated None, demo_dehydrated (Some 3)], ds_mutations = []\<rparr>))) = 2
   \<and> fst (remove_oldest_query \<lparr>ds_dehydrated_at_ms = 9,
     ds_queries = [demo_dehydrated (Some 5), demo_dehydrated None, demo_dehydrated (Some 3)], ds_mutations = []\<rparr>)"
  using remove_oldest_query_spec [of "\<lparr>ds_dehydrated_at_ms = 9,
     ds_queries = [demo_dehydrated (Some 5), demo_dehydrated None, demo_dehydrated (Some 3)], ds_mutations = []\<rparr>",
     OF prod.collapse [symmetric]]
  by simp

subsection \<open>Restoring with retries\<close>

text \<open>One failed attempt of a persister whose reads fail: the read, then the precautionary removal.\<close>

definition failed_attempt :: "'s client_persister \<Rightarrow> 's \<Rightarrow> 's" where
  "failed_attempt cp s = snd (cp_remove_client cp (snd (cp_restore_client cp s)))"

definition attempt_error :: "'s client_persister \<Rightarrow> 's \<Rightarrow> nat \<Rightarrow> query_error" where
  "attempt_error cp s n = projl (fst (cp_restore_client cp ((failed_attempt cp ^^ n) s)))"

lemma restore_failing:
  assumes "\<And>s. isl (fst (cp_restore_client cp s))"
  shows "persist_query_client_restore serde cp o' now wall (c, (failed_attempt cp ^^ n) s)
     = (Inl (attempt_error cp s n), (c, (failed_attempt cp ^^ Suc n) s))"
  using assms [of "(failed_attempt cp ^^ n) s"]
  by (cases "cp_restore_client cp ((failed_attempt cp ^^ n) s)"; cases "fst (cp_restore_client cp ((failed_attempt cp ^^ n) s))")
    (auto simp: persist_query_client_restore_def attempt_error_def failed_attempt_def)

text \<open>
  \<open>persist_with_retry\<close> is bounded. When every read of the persister fails, the strategy is asked
  after the first, second and third error, with the error and its number. Its first replacement is
  hydrated and written back and the call succeeds, even if that write fails; if it declines three
  times, a fourth attempt is made and its error is returned. Every failed attempt removes the snapshot.
\<close>

theorem persist_with_retry_failing:
  assumes "\<And>s. isl (fst (cp_restore_client cp s))"
  shows "persist_with_retry serde cp o' clk strategy (c, s) =
     (case find (\<lambda>n. strategy (attempt_error cp s n) (n + 1) \<noteq> None) [0, 1, 2] of
        None \<Rightarrow> (Inl (attempt_error cp s 3), (c, (failed_attempt cp ^^ 4) s))
      | Some n \<Rightarrow>
          (Inr (), (client_hydrate serde (fst (clk n))
                      (pc_client_state (the (strategy (attempt_error cp s n) (n + 1)))) HydrateOptions_default c,
                    snd (cp_persist_client cp (the (strategy (attempt_error cp s n) (n + 1)))
                           ((failed_attempt cp ^^ (n + 1)) s)))))"
proof -
  define A where "A n = (failed_attempt cp ^^ n) s" for n
  define R where "R n = retry_loop serde cp o' clk strategy n (c, A n)" for n
  have loop: "R n =
     (if n \<ge> 3 then (Inl (attempt_error cp s n), (c, A (n + 1)))
      else case strategy (attempt_error cp s n) (n + 1) of
             Some replacement \<Rightarrow>
               (Inr (), (client_hydrate serde (fst (clk n)) (pc_client_state replacement) HydrateOptions_default c,
                         snd (cp_persist_client cp replacement (A (n + 1)))))
           | None \<Rightarrow> R (n + 1))" for n
    using restore_failing [OF assms, of serde o' _ _ c n s, folded A_def]
    unfolding R_def by (subst retry_loop.simps) (simp add: MAX_RESTORE_RETRIES_def split: option.split)
  have "persist_with_retry serde cp o' clk strategy (c, s) = R 0"
    by (simp add: persist_with_retry_def R_def A_def)
  also have "\<dots> = (case find (\<lambda>n. strategy (attempt_error cp s n) (n + 1) \<noteq> None) [0, 1, 2] of
        None \<Rightarrow> (Inl (attempt_error cp s 3), (c, A 4))
      | Some n \<Rightarrow>
          (Inr (), (client_hydrate serde (fst (clk n))
                      (pc_client_state (the (strategy (attempt_error cp s n) (n + 1)))) HydrateOptions_default c,
                    snd (cp_persist_client cp (the (strategy (attempt_error cp s n) (n + 1))) (A (n + 1))))))"
    using loop [of 0] loop [of 1] loop [of 2] loop [of 3]
    by (auto simp: eval_nat_numeral split: option.splits)
  finally show ?thesis by (simp add: A_def)
qed

text \<open>A persister whose first reads fail, as many as its counter says.\<close>

definition flaky_persister :: "(nat \<times> persisted_client option) client_persister" where
  "flaky_persister =
     \<lparr>cp_persist_client = \<lambda>p (n, s). (Inr (), (n, Some p)),
      cp_restore_client = \<lambda>(n, s). (if n = 0 then Inr s else Inl Redacted, (n - 1, s)),
      cp_remove_client = \<lambda>(n, s). (Inr (), (n, None))\<rparr>"

text \<open>
  A strategy that declines does not make \<open>persist_with_retry\<close> give up with the triggering error:
  the restore is tried again, and since the failed attempt has removed the snapshot, a persister whose
  removal works then has nothing to restore. The call succeeds, the client is unchanged, the snapshot
  is lost and the error is never reported.
\<close>

theorem persist_with_retry_declined:
  assumes "cp_restore_client cp s = (Inl e, s1)" and "cp_remove_client cp s1 = (Inr (), s2)"
    and "cp_restore_client cp s2 = (Inr None, s3)"
    and "strategy e 1 = None"
  shows "persist_with_retry serde cp o' clk strategy (c, s) = (Inr (), (c, s3))"
proof -
  have 1: "persist_query_client_restore serde cp o' now wall (c, s) = (Inl e, (c, s2))"
    and 2: "persist_query_client_restore serde cp o' now wall (c, s2) = (Inr (), (c, s3))" for now wall
    by (simp_all add: persist_query_client_restore_def assms)
  have "retry_loop serde cp o' clk strategy 1 (c, s2) = (Inr (), (c, s3))"
    by (subst retry_loop.simps) (simp add: 2)
  then show ?thesis
    unfolding persist_with_retry_def
    by (subst retry_loop.simps) (simp add: 1 assms(4) [unfolded One_nat_def] MAX_RESTORE_RETRIES_def)
qed

theorem persist_with_retry_declined_witness:
  "persist_with_retry None flaky_persister PersistQueryClientOptions_new (\<lambda>_. (7, 1000)) (\<lambda>_ _. None)
     (QueryClient_new :: nat client, (1, Some \<lparr>pc_timestamp_ms = 900, pc_buster = [],
        pc_client_state = client_dehydrate None 0 900 demo_text_client\<rparr>))
   = (Inr (), (QueryClient_new, (0, None)))"
  by (rule persist_with_retry_declined [where e = Redacted and ?s2.0 = "(0, None)"]) (simp_all add: flaky_persister_def)+

definition broken_persister :: "nat client_persister" where
  "broken_persister =
     \<lparr>cp_persist_client = \<lambda>p n. (Inr (), n), cp_restore_client = \<lambda>n. (Inl Redacted, n + 1),
      cp_remove_client = \<lambda>n. (Inr (), n)\<rparr>"

theorem persist_with_retry_failing_witness:
  "persist_with_retry None broken_persister PersistQueryClientOptions_new (\<lambda>_. (7, 1000)) (\<lambda>_ _. None)
     (QueryClient_new :: nat client, 0) = (Inl Redacted, (QueryClient_new, 4))"
proof -
  have "isl (fst (cp_restore_client broken_persister s))" for s by (simp add: broken_persister_def)
  moreover have "(failed_attempt broken_persister ^^ n) m = m + n" for n m
    by (induction n) (simp_all add: failed_attempt_def broken_persister_def)
  moreover have "attempt_error broken_persister m n = Redacted" for m n
    by (simp add: attempt_error_def broken_persister_def)
  ultimately show ?thesis
    using persist_with_retry_failing [of broken_persister None PersistQueryClientOptions_new "\<lambda>_. (7, 1000)" "\<lambda>_ _. None"
        "QueryClient_new :: nat client" 0] by simp
qed

end
