(* ===== verification/Tab_Broadcast.thy ===== *)
theory Tab_Broadcast
  imports Persist_Client Mutation_Observer
begin

text \<open>
  \<open>src/broadcast.rs\<close>: clients of one process exchange their states over named channels. The registry
  is one map from names to channels; a channel stays in it as long as it has a receiver, so it is also
  where the running tasks find theirs. A task is its stop state (as for the save loop), its receiver
  and the guard; one poll of it runs until it has to wait.
\<close>

subsection \<open>The registry\<close>

definition DEFAULT_CHANNEL :: string where
  "DEFAULT_CHANNEL = ''rs-query''"

definition CHANNEL_CAPACITY :: nat where
  "CHANNEL_CAPACITY = 64"

type_synonym registry = "(string, persisted_client bus) dashmap"

text \<open>\<open>bus::Sender::channel(CHANNEL_CAPACITY).0\<close>: the receiver that comes with the channel is dropped.\<close>

definition new_channel :: "persisted_client bus" where
  "new_channel = Receiver_drop 0 (fst (Sender_channel CHANNEL_CAPACITY))"

definition registry_bus :: "string \<Rightarrow> registry \<Rightarrow> persisted_client bus" where
  "registry_bus channel reg = (case dm_get reg channel of Some b \<Rightarrow> b | None \<Rightarrow> new_channel)"

text \<open>The registered sender, a clone of it for the caller and a new receiver.\<close>

definition channel_entry :: "string \<Rightarrow> registry \<Rightarrow> registry \<times> nat" where
  "channel_entry channel reg =
     (let b = registry_bus channel reg; (b', rx) = Sender_subscribe (Sender_clone b)
      in (dm_insert channel b' reg, rx))"

definition maybe_remove_channel :: "string \<Rightarrow> registry \<Rightarrow> registry" where
  "maybe_remove_channel channel reg =
     (case dm_get reg channel of
        None \<Rightarrow> reg
      | Some b \<Rightarrow> if receiver_count b = 0 then dm_remove channel reg else reg)"

record broadcast_options =
  bo_channel :: string

definition BroadcastQueryClientOptions_default :: broadcast_options where
  "BroadcastQueryClientOptions_default = \<lparr>bo_channel = DEFAULT_CHANNEL\<rparr>"

definition with_channel :: "string \<Rightarrow> broadcast_options \<Rightarrow> broadcast_options" where
  "with_channel c o' = o'\<lparr>bo_channel := c\<rparr>"

subsection \<open>The subscription\<close>

record broadcast_task =
  bt_stop :: save_loop
  bt_applying_remote :: bool
  bt_rx :: nat
  bt_channel :: string

definition broadcast_query_client_with_options :: "broadcast_options \<Rightarrow> registry \<Rightarrow> broadcast_task \<times> registry" where
  "broadcast_query_client_with_options options reg =
     (let (reg1, rx) = channel_entry (bo_channel options) reg;
          reg2 = dm_modify (bo_channel options) (\<lambda>b. fst (Sender_drop b)) reg1
      in (\<lparr>bt_stop = save_loop_start, bt_applying_remote = False, bt_rx = rx, bt_channel = bo_channel options\<rparr>, reg2))"

definition broadcast_query_client :: "string \<Rightarrow> registry \<Rightarrow> broadcast_task \<times> registry" where
  "broadcast_query_client channel reg =
     broadcast_query_client_with_options (with_channel channel BroadcastQueryClientOptions_default) reg"

definition broadcast_unsubscribe :: "broadcast_task \<Rightarrow> broadcast_task" where
  "broadcast_unsubscribe t = t\<lparr>bt_stop := handle_unsubscribe (bt_stop t)\<rparr>"

definition broadcast_drop :: "broadcast_task \<Rightarrow> broadcast_task" where
  "broadcast_drop t = broadcast_unsubscribe t"

definition broadcast_into_task :: "'h option \<Rightarrow> broadcast_task \<Rightarrow> 'h option \<times> broadcast_task" where
  "broadcast_into_task task t =
     (case task of
        None \<Rightarrow> (None, broadcast_drop t)
      | Some h \<Rightarrow> (Some h, broadcast_drop (broadcast_unsubscribe t)))"

definition is_applying_remote :: "broadcast_task \<Rightarrow> bool" where
  "is_applying_remote t = bt_applying_remote t"

text \<open>The end of the task: the receiver is dropped and the channel released.\<close>

definition broadcast_finish :: "broadcast_task \<Rightarrow> registry \<Rightarrow> broadcast_task \<times> registry" where
  "broadcast_finish t reg =
     (t\<lparr>bt_stop := (bt_stop t)\<lparr>sl_done := True\<rparr>\<rparr>,
      maybe_remove_channel (bt_channel t) (dm_modify (bt_channel t) (Receiver_drop (bt_rx t)) reg))"

text \<open>Applying a remote state, between raising and lowering the guard.\<close>

definition apply_remote ::
  "json_codec option \<Rightarrow> instant \<Rightarrow> persisted_client \<Rightarrow> broadcast_task \<times> 'v client \<Rightarrow> broadcast_task \<times> 'v client" where
  "apply_remote serde now message tc =
     (let t1 = (fst tc)\<lparr>bt_applying_remote := True\<rparr>;
          c1 = client_hydrate serde now (pc_client_state message) HydrateOptions_default (snd tc)
      in (t1\<lparr>bt_applying_remote := False\<rparr>, c1))"

lemma registry_bus_insert [simp]: "registry_bus k (dm_insert k b reg) = b"
  by (simp add: registry_bus_def)

lemma apply_remote_fields [simp]:
  "bt_rx (fst (apply_remote serde now m tc)) = bt_rx (fst tc)"
  "bt_channel (fst (apply_remote serde now m tc)) = bt_channel (fst tc)"
  "bt_stop (fst (apply_remote serde now m tc)) = bt_stop (fst tc)"
  "bt_applying_remote (fst (apply_remote serde now m tc)) = False"
  "snd (apply_remote serde now m tc) = client_hydrate serde now (pc_client_state m) HydrateOptions_default (snd tc)"
  by (simp_all add: apply_remote_def Let_def)

function broadcast_poll ::
  "json_codec option \<Rightarrow> instant \<Rightarrow> nat \<Rightarrow> broadcast_task \<times> 'v client \<times> registry \<Rightarrow> broadcast_task \<times> 'v client \<times> registry" where
  "broadcast_poll serde now w (t, c, reg) =
     (if sl_done (bt_stop t) then (t, c, reg)
      else case Changed_poll (sl_stop_signal (bt_stop t)) (sl_stop_rx (bt_stop t)) of
             (ChangePending, sw, sr) \<Rightarrow>
               (let t1 = t\<lparr>bt_stop := (bt_stop t)\<lparr>sl_stop_signal := sw, sl_stop_rx := sr\<rparr>\<rparr>
                in case Recv_poll (bt_rx t) w (registry_bus (bt_channel t) reg) of
                     (Pending, b) \<Rightarrow> (t1, c, dm_insert (bt_channel t) b reg)
                   | (Ready (Inl (RE_Lagged n)), b) \<Rightarrow> broadcast_poll serde now w (t1, c, dm_insert (bt_channel t) b reg)
                   | (Ready (Inl RE_Closed), b) \<Rightarrow>
                       (case broadcast_finish t1 (dm_insert (bt_channel t) b reg) of (t2, reg2) \<Rightarrow> (t2, c, reg2))
                   | (Ready (Inr message), b) \<Rightarrow>
                       if sl_unsubscribe (bt_stop t)
                       then (case broadcast_finish t1 (dm_insert (bt_channel t) b reg) of (t2, reg2) \<Rightarrow> (t2, c, reg2))
                       else (case apply_remote serde now message (t1, c) of (t2, c2) \<Rightarrow>
                               broadcast_poll serde now w (t2, c2, dm_insert (bt_channel t) b reg)))
           | (_, sw, sr) \<Rightarrow>
               (case broadcast_finish (t\<lparr>bt_stop := (bt_stop t)\<lparr>sl_stop_signal := sw, sl_stop_rx := sr\<rparr>\<rparr>) reg of
                  (t2, reg2) \<Rightarrow> (t2, c, reg2)))"
  by pat_completeness auto

termination
  by (relation "measure (\<lambda>(serde, now, w, t, c, reg). backlog (bt_rx t) (registry_bus (bt_channel t) reg))")
    (auto simp: apply_remote_def Let_def dest: Recv_poll_backlog [OF sym])

declare broadcast_poll.simps [simp del]

subsection \<open>Publishing\<close>

definition publish_state ::
  "json_codec option \<Rightarrow> instant \<Rightarrow> nat \<Rightarrow> string \<Rightarrow> 'v client \<Rightarrow> registry \<Rightarrow> registry" where
  "publish_state serde now wall channel c reg =
     (let snapshot = \<lparr>pc_timestamp_ms = wall, pc_buster = [], pc_client_state = client_dehydrate serde now wall c\<rparr>;
          b = Sender_clone (registry_bus channel reg);
          b1 = (if receiver_count b = 0 then b else fst (Sender_send snapshot b))
      in dm_insert channel (fst (Sender_drop b1)) reg)"

subsection \<open>Applying what arrives\<close>

definition tab_listening :: "save_loop \<Rightarrow> bool" where
  "tab_listening l \<longleftrightarrow> \<not> sl_done l \<and> \<not> sl_unsubscribe l
     \<and> w_version (sl_stop_signal l) = wr_last_seen (sl_stop_rx l) \<and> w_alive (sl_stop_signal l)"

lemma listening_poll:
  assumes "tab_listening l"
  obtains sw sr where "Changed_poll (sl_stop_signal l) (sl_stop_rx l) = (ChangePending, sw, sr)"
    "tab_listening (l\<lparr>sl_stop_signal := sw, sl_stop_rx := sr\<rparr>)"
  using assms by (auto simp: tab_listening_def Changed_poll_def)

definition apply_all :: "json_codec option \<Rightarrow> instant \<Rightarrow> persisted_client list \<Rightarrow> 'v client \<Rightarrow> 'v client" where
  "apply_all serde now ms c = fold (\<lambda>m. client_hydrate serde now (pc_client_state m) HydrateOptions_default) ms c"

lemma apply_all_simps [simp]:
  "apply_all serde now [] c = c"
  "apply_all serde now (m # ms) c =
     apply_all serde now ms (client_hydrate serde now (pc_client_state m) HydrateOptions_default c)"
  by (simp_all add: apply_all_def)

text \<open>The state after a poll that ends waiting: the receiver is drained, nothing else is touched.\<close>

definition drained :: "broadcast_task \<Rightarrow> nat \<Rightarrow> registry \<Rightarrow> broadcast_task \<Rightarrow> registry \<Rightarrow> bool" where
  "drained t w reg t' reg' \<longleftrightarrow>
     tab_listening (bt_stop t') \<and> \<not> bt_applying_remote t' \<and> bt_rx t' = bt_rx t \<and> bt_channel t' = bt_channel t
     \<and> (\<forall>k. k \<noteq> bt_channel t \<longrightarrow> dm_get reg' k = dm_get reg k)
     \<and> (\<exists>b'. dm_get reg' (bt_channel t) = Some b' \<and> senders_alive b'
          \<and> (\<exists>s'. dm_get (receivers b') (bt_rx t) = Some s' \<and> rs_queue s' = [] \<and> rs_missed s' = 0 \<and> rs_waker s' = Some w)
          \<and> (\<forall>j. j \<noteq> bt_rx t \<longrightarrow> dm_get (receivers b') j = dm_get (receivers (registry_bus (bt_channel t) reg)) j))"

lemma poll_drains:
  assumes "tab_listening (bt_stop t)" "\<not> bt_applying_remote t" "registry_bus (bt_channel t) reg = b" "senders_alive b"
    "dm_get (receivers b) (bt_rx t) = Some s" "rs_missed s = 0"
  shows "\<exists>t' reg'. broadcast_poll serde now w (t, c, reg) = (t', apply_all serde now (rs_queue s) c, reg')
     \<and> drained t w reg t' reg'"
  using assms
proof (induction "rs_queue s" arbitrary: s b t c reg)
  case Nil
  obtain sw sr where stop: "Changed_poll (sl_stop_signal (bt_stop t)) (sl_stop_rx (bt_stop t)) = (ChangePending, sw, sr)"
    "tab_listening ((bt_stop t)\<lparr>sl_stop_signal := sw, sl_stop_rx := sr\<rparr>)" using Nil.prems(1) listening_poll by blast
  have "Recv_poll (bt_rx t) w b = (Pending, b\<lparr>receivers := dm_insert (bt_rx t) (s\<lparr>rs_waker := Some w\<rparr>) (receivers b)\<rparr>)"
    using Nil by (simp add: Recv_poll_pending)
  then show ?case
    using Nil stop by (subst broadcast_poll.simps) (simp add: tab_listening_def drained_def flip: Nil.hyps)
next
  case (Cons m q)
  obtain sw sr where stop: "Changed_poll (sl_stop_signal (bt_stop t)) (sl_stop_rx (bt_stop t)) = (ChangePending, sw, sr)"
    "tab_listening ((bt_stop t)\<lparr>sl_stop_signal := sw, sl_stop_rx := sr\<rparr>)" using Cons.prems(1) listening_poll by blast
  let ?s = "s\<lparr>rs_queue := q\<rparr>"
  let ?b = "b\<lparr>receivers := dm_insert (bt_rx t) ?s (receivers b)\<rparr>"
  let ?t = "t\<lparr>bt_stop := (bt_stop t)\<lparr>sl_stop_signal := sw, sl_stop_rx := sr\<rparr>, bt_applying_remote := False\<rparr>"
  let ?c = "client_hydrate serde now (pc_client_state m) HydrateOptions_default c"
  let ?reg = "dm_insert (bt_channel t) ?b reg"
  have "Recv_poll (bt_rx t) w b = (Ready (Inr m), ?b)"
    using Cons.prems Cons.hyps(2) by (simp add: Recv_poll_ready)
  then have "broadcast_poll serde now w (t, c, reg) = broadcast_poll serde now w (?t, ?c, ?reg)"
    using Cons.prems(1-3) stop(1) by (subst broadcast_poll.simps) (simp add: tab_listening_def apply_remote_def Let_def)
  moreover obtain t' reg' where "broadcast_poll serde now w (?t, ?c, ?reg) = (t', apply_all serde now q ?c, reg')"
    "drained ?t w ?reg t' reg'"
    using Cons.hyps(1) [of ?s ?t ?reg ?b ?c] stop(2) Cons.prems by (auto simp: tab_listening_def)
  moreover from this(2) have "drained t w reg t' reg'" using Cons.prems(3) by (auto simp: drained_def)
  ultimately show ?case by (simp flip: Cons.hyps(2))
qed

text \<open>
  A subscribed client applies every snapshot waiting in its channel, in order of publication, by
  hydration, then parks with its waker registered. While doing so it publishes nothing: no receiver of
  any channel gets an element, so applying a remote state is never echoed; the guard is down again at
  the end.
\<close>

theorem broadcast_applies_in_order:
  assumes "tab_listening (bt_stop t)" and "\<not> bt_applying_remote t"
    and "dm_get reg (bt_channel t) = Some b" and "senders_alive b"
    and "dm_get (receivers b) (bt_rx t) = Some s" and "rs_missed s = 0"
    and "broadcast_poll serde now w (t, c, reg) = (t', c', reg')"
  shows "c' = apply_all serde now (rs_queue s) c \<and> \<not> is_applying_remote t' \<and> tab_listening (bt_stop t')
   \<and> (\<exists>b' s'. dm_get reg' (bt_channel t) = Some b' \<and> dm_get (receivers b') (bt_rx t) = Some s'
        \<and> rs_queue s' = [] \<and> rs_waker s' = Some w
        \<and> (\<forall>j. j \<noteq> bt_rx t \<longrightarrow> dm_get (receivers b') j = dm_get (receivers b) j))
   \<and> (\<forall>k. k \<noteq> bt_channel t \<longrightarrow> dm_get reg' k = dm_get reg k)"
proof -
  have b: "registry_bus (bt_channel t) reg = b" using assms(3) by (simp add: registry_bus_def)
  from poll_drains [OF assms(1,2) b assms(4-6), of serde now w c] assms(7) b
  show ?thesis by (auto simp: drained_def is_applying_remote_def)
qed

subsection \<open>From publisher to subscriber\<close>

lemma sender_clone_drop:
  "0 < sender_count b \<Longrightarrow> fst (Sender_drop (Sender_clone b)) = b"
  "0 < sender_count b \<Longrightarrow> fst (Sender_drop (fst (Sender_send v (Sender_clone b)))) = fst (Sender_send v b)"
  by (simp_all add: Sender_drop_def Sender_clone_def Sender_send_def Let_def)

lemma count_pos: "dm_get (receivers b) i = Some s \<Longrightarrow> rs_alive s \<Longrightarrow> receiver_count b \<noteq> 0"
  unfolding receiver_count_def dm_get_def length_0_conv filter_empty_conv
  by (drule map_of_SomeD) fastforce

text \<open>
  A state published on a channel reaches every client subscribed to it: a subscriber that was
  waiting with an empty queue and is polled next ends up exactly as if it had hydrated the publisher's
  dehydrated state, with no persistence in between.
\<close>

theorem broadcast_syncs:
  assumes "tab_listening (bt_stop t)" and "\<not> bt_applying_remote t"
    and "dm_get reg (bt_channel t) = Some b" and "senders_alive b" and "0 < sender_count b" and "0 < capacity b"
    and "dm_get (receivers b) (bt_rx t) = Some s" and "rs_alive s" and "rs_queue s = []" and "rs_missed s = 0"
    and "broadcast_poll serde now2 w (t, c2, publish_state serde now1 wall (bt_channel t) c1 reg) = (t', c', reg')"
  shows "c' = client_hydrate serde now2 (client_dehydrate serde now1 wall c1) HydrateOptions_default c2"
proof -
  let ?m = "\<lparr>pc_timestamp_ms = wall, pc_buster = [], pc_client_state = client_dehydrate serde now1 wall c1\<rparr>"
  let ?b = "fst (Sender_send ?m b)"
  have "receiver_count b \<noteq> 0" using count_pos assms(7,8) by blast
  then have pub: "dm_get (publish_state serde now1 wall (bt_channel t) c1 reg) (bt_channel t) = Some ?b"
    using assms(3,5) by (simp add: publish_state_def registry_bus_def Let_def sender_clone_drop)
      (simp add: receiver_count_def Sender_clone_def)
  have "dm_get (receivers ?b) (bt_rx t) = Some (send_state (capacity b) ?m s)"
    using assms(7) by (simp add: Sender_send_def dm_get_map_snd)
  moreover have "rs_queue (send_state (capacity b) ?m s) = [?m]" "rs_missed (send_state (capacity b) ?m s) = 0"
    using assms(6,8-10) by (simp_all add: send_state_def push_bounded_def)
  moreover have "senders_alive ?b" using assms(4) by (simp add: Sender_send_def)
  ultimately show ?thesis
    using poll_drains [OF assms(1,2) _ _ _ _, of "publish_state serde now1 wall (bt_channel t) c1 reg" ?b
        "send_state (capacity b) ?m s" serde now2 w c2] pub assms(11)
    by (auto simp: registry_bus_def)
qed

subsection \<open>Leaving\<close>

text \<open>
  Unsubscribing is final: the next poll of the task applies nothing that is still queued, drops the
  task's receiver, and removes the channel from the registry exactly when no other live receiver is
  left on it; later polls do nothing.
\<close>

theorem broadcast_unsubscribe_releases:
  assumes "save_loop_ok (bt_stop t)" and "\<not> sl_done (bt_stop t)"
    and "dm_get reg (bt_channel t) = Some b"
    and "broadcast_poll serde now w (broadcast_unsubscribe t, c, reg) = (t', c', reg')"
  shows "c' = c \<and> sl_done (bt_stop t')
   \<and> dm_get reg' (bt_channel t) =
       (if receiver_count (Receiver_drop (bt_rx t) b) = 0 then None else Some (Receiver_drop (bt_rx t) b))
   \<and> (\<forall>k. k \<noteq> bt_channel t \<longrightarrow> dm_get reg' k = dm_get reg k)
   \<and> broadcast_poll serde now w (t', c', reg') = (t', c', reg')"
proof -
  let ?l = "handle_unsubscribe (bt_stop t)"
  have "w_version (sl_stop_signal ?l) \<noteq> wr_last_seen (sl_stop_rx ?l)" "\<not> sl_done ?l"
    using assms(1,2) by (simp_all add: save_loop_ok_def watch_ok_def handle_unsubscribe_def Watch_send_def)
  then have "broadcast_poll serde now w (broadcast_unsubscribe t, c, reg) =
     (case broadcast_finish (t\<lparr>bt_stop := ?l\<lparr>sl_stop_signal := sl_stop_signal ?l,
         sl_stop_rx := (sl_stop_rx ?l)\<lparr>wr_last_seen := w_version (sl_stop_signal ?l)\<rparr>\<rparr>\<rparr>) reg of (t2, reg2) \<Rightarrow> (t2, c, reg2))"
    by (subst broadcast_poll.simps) (simp add: broadcast_unsubscribe_def Changed_poll_def)
  then have "c' = c" "sl_done (bt_stop t')"
    "reg' = maybe_remove_channel (bt_channel t) (dm_modify (bt_channel t) (Receiver_drop (bt_rx t)) reg)"
    using assms(4) by (auto simp: broadcast_finish_def)
  then show ?thesis using assms(3) by (auto simp: maybe_remove_channel_def broadcast_poll.simps)
qed

text \<open>
  Publishing on a channel nobody subscribes to is not without effect: it leaves an entry in the
  process-wide registry, with no receiver. Only the end of a subscription on that channel removes it,
  so a process that publishes under ever new names grows the registry without bound.
\<close>

theorem publish_leaves_channel:
  assumes "dm_get reg channel = None"
  shows "\<exists>b. dm_get (publish_state serde now wall channel c reg) channel = Some b \<and> receiver_count b = 0
     \<and> (\<forall>k. k \<noteq> channel \<longrightarrow> dm_get (publish_state serde now wall channel c reg) k = dm_get reg k)"
proof -
  have "receiver_count new_channel = 0" "0 < sender_count new_channel"
    by (simp_all add: new_channel_def Receiver_drop_def Sender_channel_def receiver_count_def dm_insert_def dm_remove_def)
  then show ?thesis
    using assms by (simp add: publish_state_def registry_bus_def Let_def sender_clone_drop)
      (simp add: receiver_count_def Sender_clone_def)
qed

subsection \<open>Witnesses\<close>

definition demo_hub :: "broadcast_task \<times> registry" where
  "demo_hub = broadcast_query_client ''tabs'' []"

lemma demo_hub_facts:
  "tab_listening (bt_stop (fst demo_hub))" "\<not> bt_applying_remote (fst demo_hub)" "bt_channel (fst demo_hub) = ''tabs''"
  "bt_rx (fst demo_hub) = 1" "save_loop_ok (bt_stop (fst demo_hub))"
  by (simp_all add: demo_hub_def broadcast_query_client_def broadcast_query_client_with_options_def with_channel_def
      channel_entry_def registry_bus_def new_channel_def Sender_subscribe_def Sender_clone_def Receiver_drop_def
      Sender_channel_def Let_def BroadcastQueryClientOptions_default_def save_loop_start_ok)
    (simp_all add: save_loop_start_def tab_listening_def Watch_new_def)

lemma demo_hub_bus:
  "\<exists>b. dm_get (snd demo_hub) ''tabs'' = Some b \<and> senders_alive b \<and> 0 < sender_count b \<and> 0 < capacity b
     \<and> dm_get (receivers b) 1 = Some fresh_recv \<and> receiver_count (Receiver_drop 1 b) = 0"
  by (simp add: demo_hub_def broadcast_query_client_def broadcast_query_client_with_options_def with_channel_def
      channel_entry_def registry_bus_def new_channel_def Sender_subscribe_def Sender_clone_def Receiver_drop_def
      Sender_channel_def Sender_drop_def Let_def BroadcastQueryClientOptions_default_def CHANNEL_CAPACITY_def)
    (simp add: dm_insert_def dm_remove_def dm_get_def receiver_count_def)

theorem broadcast_syncs_witness:
  "fst (snd (broadcast_poll None 9 0 (fst demo_hub, QueryClient_new :: nat client,
       publish_state None 7 1000 ''tabs'' demo_text_client (snd demo_hub))))
   = client_hydrate None 9 (client_dehydrate None 7 1000 demo_text_client) HydrateOptions_default QueryClient_new"
proof -
  obtain b where b: "dm_get (snd demo_hub) ''tabs'' = Some b" "senders_alive b" "0 < sender_count b" "0 < capacity b"
    "dm_get (receivers b) 1 = Some fresh_recv" using demo_hub_bus by blast
  obtain t' c' reg' where p: "broadcast_poll None 9 0 (fst demo_hub, QueryClient_new :: nat client,
       publish_state None 7 1000 ''tabs'' demo_text_client (snd demo_hub)) = (t', c', reg')" by (metis prod_cases3)
  have "c' = client_hydrate None 9 (client_dehydrate None 7 1000 demo_text_client) HydrateOptions_default QueryClient_new"
    by (rule broadcast_syncs [where t = "fst demo_hub" and b = b and s = fresh_recv and w = 0, OF demo_hub_facts(1,2)])
      (use b p in \<open>simp_all add: demo_hub_facts fresh_recv_def\<close>)
  then show ?thesis using p by simp
qed

definition demo_message :: persisted_client where
  "demo_message = \<lparr>pc_timestamp_ms = 1000, pc_buster = [], pc_client_state = client_dehydrate None 7 1000 demo_text_client\<rparr>"

definition demo_queue_bus :: "persisted_client bus" where
  "demo_queue_bus = new_channel\<lparr>receivers := [(1, fresh_recv\<lparr>rs_queue := [demo_message, demo_message]\<rparr>)]\<rparr>"

theorem broadcast_applies_in_order_witness:
  "fst (snd (broadcast_poll None 9 0 (fst demo_hub, QueryClient_new :: nat client, [(''tabs'', demo_queue_bus)])))
   = apply_all None 9 [demo_message, demo_message] QueryClient_new"
proof -
  obtain t' c' reg' where p: "broadcast_poll None 9 0 (fst demo_hub, QueryClient_new :: nat client, [(''tabs'', demo_queue_bus)])
     = (t', c', reg')" by (metis prod_cases3)
  have "senders_alive demo_queue_bus" by (simp add: demo_queue_bus_def new_channel_def Receiver_drop_def Sender_channel_def)
  then show ?thesis
    using broadcast_applies_in_order [OF demo_hub_facts(1,2) _ _ _ _ p, of demo_queue_bus
        "fresh_recv\<lparr>rs_queue := [demo_message, demo_message]\<rparr>"] p
    by (simp add: demo_hub_facts demo_queue_bus_def dm_get_def fresh_recv_def)
qed

theorem broadcast_unsubscribe_releases_witness:
  "dm_get (snd (snd (broadcast_poll None 9 0 (broadcast_unsubscribe (fst demo_hub), QueryClient_new :: nat client, snd demo_hub))))
     ''tabs'' = None"
proof -
  obtain b where b: "dm_get (snd demo_hub) ''tabs'' = Some b" "receiver_count (Receiver_drop 1 b) = 0"
    using demo_hub_bus by blast
  obtain t' c' reg' where p: "broadcast_poll None 9 0 (broadcast_unsubscribe (fst demo_hub), QueryClient_new :: nat client, snd demo_hub)
     = (t', c', reg')" by (metis prod_cases3)
  have "\<not> sl_done (bt_stop (fst demo_hub))" using demo_hub_facts(1) by (simp add: tab_listening_def)
  from broadcast_unsubscribe_releases [OF demo_hub_facts(5) this _ p, of b] b p show ?thesis
    by (simp add: demo_hub_facts)
qed

theorem publish_leaves_channel_witness:
  "dm_get (publish_state None 7 1000 ''x'' (QueryClient_new :: nat client) []) ''x'' \<noteq> None"
  using publish_leaves_channel [of "[]" "''x''" None 7 1000 "QueryClient_new :: nat client"] by auto

end
