(* ===== verification/Managers.thy ===== *)
theory Managers
  imports Query_Error
begin

text \<open>
  \<open>src/notify_manager.rs\<close>, \<open>src/timeout_manager.rs\<close> and \<open>src/streamed_query.rs\<close>.

  The callbacks of the notify manager are code that may itself notify, batch, flush and panic, so a
  callback is a list of commands, and running is a machine with an explicit stack: what is left to do
  of the batches and callbacks that are open. A panic unwinds the whole stack.
\<close>

subsection \<open>The notify manager\<close>

datatype 'a command =
    Effect 'a
  | Notify "'a command list"
  | Batch "'a command list"
  | End_Batch
  | Flush
  | Panic

text \<open>The queue and the batch depth, and the effects seen so far; \<open>nm_panicked\<close> when a panic unwound.\<close>

record 'a notify_manager =
  nm_queue :: "'a command list list"
  nm_batch_depth :: nat
  nm_effects :: "'a list"
  nm_panicked :: bool

definition NotifyManager_new :: "'a notify_manager" where
  "NotifyManager_new = \<lparr>nm_queue = [], nm_batch_depth = 0, nm_effects = [], nm_panicked = False\<rparr>"

definition nm_pending :: "'a notify_manager \<Rightarrow> nat" where
  "nm_pending m = length (nm_queue m)"

text \<open>
  One command: what has to run next because of it, and the state. \<open>notify\<close> queues and flushes outside
  a batch; \<open>batch\<close> is its body between the two depth updates; \<open>flush\<close> empties the queue first and then
  runs what was in it.
\<close>

definition nm_notify :: "'a command list \<Rightarrow> 'a notify_manager \<Rightarrow> 'a command list \<times> 'a notify_manager" where
  "nm_notify callback m =
     (let m1 = m\<lparr>nm_queue := nm_queue m @ [callback]\<rparr>
      in (if nm_batch_depth m1 = 0 then [Flush] else [], m1))"

definition nm_batch :: "'a command list \<Rightarrow> 'a notify_manager \<Rightarrow> 'a command list \<times> 'a notify_manager" where
  "nm_batch body m = (body @ [End_Batch], m\<lparr>nm_batch_depth := nm_batch_depth m + 1\<rparr>)"

definition nm_end_batch :: "'a notify_manager \<Rightarrow> 'a command list \<times> 'a notify_manager" where
  "nm_end_batch m =
     (if nm_batch_depth m = 1 then [Flush] else [], m\<lparr>nm_batch_depth := nm_batch_depth m - 1\<rparr>)"

definition nm_flush :: "'a notify_manager \<Rightarrow> 'a command list \<times> 'a notify_manager" where
  "nm_flush m = (concat (nm_queue m), m\<lparr>nm_queue := []\<rparr>)"

text \<open>The work left, which every command uses up.\<close>

fun weight :: "'a command \<Rightarrow> nat" where
  "weight (Effect a) = 1"
| "weight (Notify cs) = 3 + sum_list (map weight cs)"
| "weight (Batch cs) = 3 + sum_list (map weight cs)"
| "weight End_Batch = 2"
| "weight Flush = 1"
| "weight Panic = 1"

definition weights :: "'a command list \<Rightarrow> nat" where
  "weights cs = sum_list (map weight cs)"

lemma weights_simps [simp]:
  "weights [] = 0" "weights (c # cs) = weight c + weights cs" "weights (xs @ ys) = weights xs + weights ys"
  by (simp_all add: weights_def)

lemma weights_concat [simp]: "weights (concat xss) = sum_list (map weights xss)"
  by (induction xss) simp_all

lemma weight_body [simp]: "weight (Notify cs) = 3 + weights cs" "weight (Batch cs) = 3 + weights cs"
  by (simp_all add: weights_def)

declare weight.simps(2,3) [simp del]

function nm_run :: "'a command list \<Rightarrow> 'a notify_manager \<Rightarrow> 'a notify_manager" where
  "nm_run [] m = m"
| "nm_run (Effect a # cs) m = nm_run cs (m\<lparr>nm_effects := nm_effects m @ [a]\<rparr>)"
| "nm_run (Notify callback # cs) m = (case nm_notify callback m of (todo, m') \<Rightarrow> nm_run (todo @ cs) m')"
| "nm_run (Batch body # cs) m = (case nm_batch body m of (todo, m') \<Rightarrow> nm_run (todo @ cs) m')"
| "nm_run (End_Batch # cs) m = (case nm_end_batch m of (todo, m') \<Rightarrow> nm_run (todo @ cs) m')"
| "nm_run (Flush # cs) m = (case nm_flush m of (todo, m') \<Rightarrow> nm_run (todo @ cs) m')"
| "nm_run (Panic # cs) m = m\<lparr>nm_panicked := True\<rparr>"
  by pat_completeness auto

termination
  by (relation "measure (\<lambda>(cs, m). weights cs + sum_list (map weights (nm_queue m)))")
    (auto simp: nm_notify_def nm_batch_def nm_end_batch_def nm_flush_def)

subsection \<open>Batching\<close>

text \<open>
  The body of a batch that neither flushes by hand nor panics: the effects it has itself, and the
  callbacks it submits, in order and through nested batches.
\<close>

fun plain :: "'a command \<Rightarrow> bool" where
  "plain (Effect a) = True"
| "plain (Notify cs) = True"
| "plain (Batch cs) = list_all plain cs"
| "plain End_Batch = False"
| "plain Flush = False"
| "plain Panic = False"

fun own_effects :: "'a command \<Rightarrow> 'a list" where
  "own_effects (Effect a) = [a]"
| "own_effects (Batch cs) = concat (map own_effects cs)"
| "own_effects _ = []"

fun submitted :: "'a command \<Rightarrow> 'a command list list" where
  "submitted (Notify cs) = [cs]"
| "submitted (Batch cs) = concat (map submitted cs)"
| "submitted _ = []"

lemma plain_command:
  assumes "plain c" "nm_batch_depth m > 0"
  shows "nm_run (c # cs) m =
     nm_run cs (m\<lparr>nm_queue := nm_queue m @ submitted c, nm_effects := nm_effects m @ own_effects c\<rparr>)"
  using assms
proof (induction c arbitrary: m cs)
  case (Batch body)
  have body: "nm_run (xs @ cs') m' = nm_run cs' (m'\<lparr>nm_queue := nm_queue m' @ concat (map submitted xs),
      nm_effects := nm_effects m' @ concat (map own_effects xs)\<rparr>)"
    if "set xs \<subseteq> set body" "nm_batch_depth m' > 0" for xs cs' m'
    using that
  proof (induction xs arbitrary: m')
    case (Cons x xs)
    then have "plain x" using Batch.prems(1) by (auto simp: list_all_iff)
    then show ?case using Cons Batch.IH [of x m' "xs @ cs'"] by simp
  qed simp
  show ?case using Batch.prems body [of body "m\<lparr>nm_batch_depth := nm_batch_depth m + 1\<rparr>" "End_Batch # cs"]
    by (simp add: nm_batch_def nm_end_batch_def)
qed (simp_all add: nm_notify_def)

lemma plain_commands:
  assumes "list_all plain body" "nm_batch_depth m > 0"
  shows "nm_run (body @ cs) m = nm_run cs (m\<lparr>nm_queue := nm_queue m @ concat (map submitted body),
      nm_effects := nm_effects m @ concat (map own_effects body)\<rparr>)"
  using assms
proof (induction body arbitrary: m)
  case (Cons c body)
  then show ?case by (simp add: plain_command)
qed simp

text \<open>
  C38. Batching: outside any other batch, \<open>batch(body)\<close> runs the whole body first, and only then, once,
  every callback that is queued, in the order of submission and whatever the nesting of batches inside
  the body; the queue is empty and the depth back at zero when the first of them starts.
\<close>

theorem notify_batch_flushes_once:
  assumes "list_all plain body" and "nm_batch_depth m = 0"
  shows "nm_run (Batch body # cs) m =
     nm_run (concat (nm_queue m) @ concat (concat (map submitted body)) @ cs)
       (m\<lparr>nm_queue := [], nm_effects := nm_effects m @ concat (map own_effects body)\<rparr>)"
  using plain_commands [OF assms(1), of "m\<lparr>nm_batch_depth := 1\<rparr>" "End_Batch # cs"] assms(2)
  by (cases m) (simp add: nm_batch_def nm_end_batch_def nm_flush_def)

theorem notify_batch_flushes_once_witness:
  "nm_effects (nm_run [Batch [Notify [Effect 2], Batch [Notify [Effect 3]], Effect (1::nat)]] NotifyManager_new) = [1, 2, 3]"
  using notify_batch_flushes_once [of "[Notify [Effect 2], Batch [Notify [Effect 3]], Effect (1::nat)]" NotifyManager_new "[]"]
  by (simp add: NotifyManager_new_def)

text \<open>
  The batch depth is not restored when the body of a batch panics: after the panic the manager
  behaves as if a batch were open for ever, and callbacks notified outside any batch, one at a time or
  inside later batches, pile up in the queue without ever running.
\<close>

theorem notify_batch_panic_stuck:
  assumes "list_all plain before" and "nm_batch_depth m = 0"
    and "m1 = nm_run (Batch (before @ Panic # rest) # cs) m"
    and "list_all plain later"
  shows "nm_batch_depth m1 = 1 \<and> nm_panicked m1
   \<and> nm_queue (nm_run later m1) = nm_queue m @ concat (map submitted before) @ concat (map submitted later)
   \<and> nm_effects (nm_run later m1) =
       nm_effects m @ concat (map own_effects before) @ concat (map own_effects later)"
proof -
  have m1: "m1 = m\<lparr>nm_batch_depth := 1, nm_queue := nm_queue m @ concat (map submitted before),
      nm_effects := nm_effects m @ concat (map own_effects before), nm_panicked := True\<rparr>"
    using plain_commands [OF assms(1), of "m\<lparr>nm_batch_depth := 1\<rparr>" "Panic # rest @ End_Batch # cs"] assms(2,3)
    by (simp add: nm_batch_def)
  then show ?thesis using plain_commands [OF assms(4), of m1 "[]"] by simp
qed

theorem notify_batch_panic_stuck_witness:
  "nm_effects (nm_run [Notify [Effect (7::nat)]] (nm_run [Batch [Panic]] NotifyManager_new)) = []"
  using notify_batch_panic_stuck [of "[]" NotifyManager_new _ "[]" "[]" "[Notify [Effect (7::nat)]]", OF _ _ refl]
  by (simp add: NotifyManager_new_def)

subsection \<open>The timeout manager\<close>

text \<open>
  All clones share the provider. A sleep reads the provider once, when it starts, and is a call of that
  provider; the providers themselves are the host's timers.
\<close>

record 'p timeout_manager =
  tm_provider :: 'p

definition TimeoutManager_with_provider :: "'p \<Rightarrow> 'p timeout_manager" where
  "TimeoutManager_with_provider p = \<lparr>tm_provider = p\<rparr>"

definition tm_sleep :: "('p \<Rightarrow> duration \<Rightarrow> 'w) \<Rightarrow> duration \<Rightarrow> 'p timeout_manager \<Rightarrow> 'w" where
  "tm_sleep provider_sleep d m = (let provider = tm_provider m in provider_sleep provider d)"

definition tm_set_provider :: "'p \<Rightarrow> 'p timeout_manager \<Rightarrow> 'p timeout_manager" where
  "tm_set_provider p m = m\<lparr>tm_provider := p\<rparr>"

subsection \<open>Streamed queries\<close>

datatype refetch_mode = RM_Replace | RM_Append | RM_Reset

record 'a streamed_query_config =
  sq_refetch_mode :: refetch_mode
  sq_reducer :: "('a \<Rightarrow> 'a \<Rightarrow> 'a) option"
  sq_initial_value :: "'a option"

definition StreamedQueryConfig_default :: "'a streamed_query_config" where
  "StreamedQueryConfig_default = \<lparr>sq_refetch_mode = RM_Reset, sq_reducer = None, sq_initial_value = None\<rparr>"

definition sq_set_refetch_mode :: "refetch_mode \<Rightarrow> 'a streamed_query_config \<Rightarrow> 'a streamed_query_config" where
  "sq_set_refetch_mode mode cfg = cfg\<lparr>sq_refetch_mode := mode\<rparr>"

definition sq_set_reducer :: "('a \<Rightarrow> 'a \<Rightarrow> 'a) \<Rightarrow> 'a streamed_query_config \<Rightarrow> 'a streamed_query_config" where
  "sq_set_reducer f cfg = cfg\<lparr>sq_reducer := Some f\<rparr>"

definition sq_set_initial_value :: "'a \<Rightarrow> 'a streamed_query_config \<Rightarrow> 'a streamed_query_config" where
  "sq_set_initial_value v cfg = cfg\<lparr>sq_initial_value := Some v\<rparr>"

text \<open>The default combinations, of \<open>Vec\<close> and of \<open>String\<close>.\<close>

definition combine_chunks :: "'e list \<Rightarrow> 'e list \<Rightarrow> 'e list" where
  "combine_chunks acc chunk = acc @ chunk"

definition combine_text :: "string \<Rightarrow> string \<Rightarrow> string" where
  "combine_text acc chunk = acc @ chunk"

text \<open>
  The loop over a stream that ends, given by its items; \<open>combine\<close> is the \<open>CombineChunks\<close> instance of
  the type.
\<close>

fun collect_loop ::
  "('a \<Rightarrow> 'a \<Rightarrow> 'a) \<Rightarrow> ('a \<Rightarrow> 'a \<Rightarrow> 'a) option \<Rightarrow> 'a option \<Rightarrow> (query_error, 'a) result list \<Rightarrow> (query_error, 'a) result" where
  "collect_loop combine reducer acc [] = (case acc of Some v \<Rightarrow> Inr v | None \<Rightarrow> Inl UndefinedData)"
| "collect_loop combine reducer acc (Inl e # items) = Inl e"
| "collect_loop combine reducer acc (Inr chunk # items) =
     collect_loop combine reducer
       (Some (case acc of
                Some current \<Rightarrow> (case reducer of Some reduce \<Rightarrow> reduce current chunk | None \<Rightarrow> combine current chunk)
              | None \<Rightarrow> chunk)) items"

fun stream_base :: "refetch_mode \<Rightarrow> 'a option \<Rightarrow> 'a option" where
  "stream_base RM_Append previous = previous"
| "stream_base RM_Replace previous = None"
| "stream_base RM_Reset previous = None"

definition collect_stream ::
  "('a \<Rightarrow> 'a \<Rightarrow> 'a) \<Rightarrow> (query_error, 'a) result list \<Rightarrow> refetch_mode \<Rightarrow> 'a option \<Rightarrow> ('a \<Rightarrow> 'a \<Rightarrow> 'a) option
   \<Rightarrow> (query_error, 'a) result" where
  "collect_stream combine items mode previous reducer = collect_loop combine reducer (stream_base mode previous) items"

text \<open>The query function built from a stream factory, which each call runs anew.\<close>

definition streamed_query ::
  "('a \<Rightarrow> 'a \<Rightarrow> 'a) \<Rightarrow> (unit \<Rightarrow> (query_error, 'a) result list) \<Rightarrow> 'a streamed_query_config \<Rightarrow> unit \<Rightarrow> (query_error, 'a) result" where
  "streamed_query combine stream_fn cfg =
     (\<lambda>_. collect_stream combine (stream_fn ()) (sq_refetch_mode cfg) (sq_initial_value cfg) (sq_reducer cfg))"

text \<open>The first error of a stream, and its data.\<close>

definition first_error :: "(query_error, 'a) result list \<Rightarrow> query_error option" where
  "first_error items = (case filter isl items of [] \<Rightarrow> None | x # _ \<Rightarrow> Some (projl x))"

lemma collect_loop_error: "first_error items = Some e \<Longrightarrow> collect_loop combine reducer acc items = Inl e"
proof (induction items arbitrary: acc)
  case (Cons x items)
  then show ?case by (cases x) (auto simp: first_error_def)
qed (simp add: first_error_def)

lemma collect_loop_fold:
  "first_error items = None \<Longrightarrow> collect_loop combine reducer (Some v) items =
     Inr (foldl (case reducer of Some f \<Rightarrow> f | None \<Rightarrow> combine) v (map projr items))"
proof (induction items arbitrary: v)
  case (Cons x items)
  then show ?case by (cases x) (auto simp: first_error_def split: option.splits)
qed simp

text \<open>
  C39. Collecting a stream is folding its chunks from the left: the fold starts from the previous value
  in append mode if there is one, otherwise from the first chunk, with the custom reducer or the
  type's own combination. The first error item is the result, whatever comes before it, and an empty
  stream with nothing to start from is an undefined-data error. So for lists and texts the result is
  the previous data followed by the chunks in order.
\<close>

theorem collect_stream_is_fold:
  "collect_stream combine items mode previous reducer =
     (let f = (case reducer of Some f \<Rightarrow> f | None \<Rightarrow> combine); chunks = map projr items
      in case first_error items of
           Some e \<Rightarrow> Inl e
         | None \<Rightarrow>
             (case (if mode = RM_Append then previous else None) of
                Some p \<Rightarrow> Inr (foldl f p chunks)
              | None \<Rightarrow> (case chunks of [] \<Rightarrow> Inl UndefinedData | d # ds \<Rightarrow> Inr (foldl f d ds))))
   \<and> collect_stream combine_chunks (map Inr parts) RM_Append (Some base) None = Inr (base @ concat parts)"
proof
  have base: "stream_base mode previous = (if mode = RM_Append then previous else None)" by (cases mode) simp_all
  show "collect_stream combine items mode previous reducer =
     (let f = (case reducer of Some f \<Rightarrow> f | None \<Rightarrow> combine); chunks = map projr items
      in case first_error items of
           Some e \<Rightarrow> Inl e
         | None \<Rightarrow>
             (case (if mode = RM_Append then previous else None) of
                Some p \<Rightarrow> Inr (foldl f p chunks)
              | None \<Rightarrow> (case chunks of [] \<Rightarrow> Inl UndefinedData | d # ds \<Rightarrow> Inr (foldl f d ds))))"
  proof (cases "first_error items")
    case (Some e)
    then show ?thesis by (simp add: collect_stream_def collect_loop_error Let_def)
  next
    case None
    show ?thesis
    proof (cases "stream_base mode previous")
      case acc: None
      then show ?thesis
        using None
      proof (cases items)
        case (Cons x xs)
        obtain d where "x = Inr d" "first_error xs = None" using None Cons by (cases x) (auto simp: first_error_def)
        then show ?thesis using None acc base Cons by (simp add: collect_stream_def collect_loop_fold Let_def)
      qed (simp add: collect_stream_def Let_def flip: base)
    next
      case (Some p)
      then show ?thesis using None base by (simp add: collect_stream_def collect_loop_fold Let_def)
    qed
  qed
  have "first_error (map Inr parts :: (query_error, 'b list) result list) = None" for parts :: "'b list list"
    by (induction parts) (simp_all add: first_error_def)
  moreover have "foldl combine_chunks base parts = base @ concat parts"
    by (induction parts arbitrary: base) (simp_all add: combine_chunks_def)
  ultimately show "collect_stream combine_chunks (map Inr parts) RM_Append (Some base) None = Inr (base @ concat parts)"
    by (simp add: collect_stream_def collect_loop_fold comp_def)
qed

end
