(* ===== verification/Public_Ops.thy ===== *)
theory Public_Ops
  imports Query_Client
begin

text \<open>
  What every operation of the client's interface (\<open>client.rs\<close>) leaves alone: the activity counters, and
  the in-flight entries it does not cancel. The theories on interleaved tasks rest on it.
\<close>

text \<open>The operations other code may perform; registration and the activity counters belong to the
  spawned tasks themselves.\<close>

fun public_op :: "'v client_op \<Rightarrow> bool" where
  "public_op (CO_SetInFlight k t) = False"
| "public_op (CO_ClearInFlight k) = False"
| "public_op CO_IncFetching = False"
| "public_op CO_DecFetching = False"
| "public_op CO_IncMutating = False"
| "public_op CO_DecMutating = False"
| "public_op op = True"

text \<open>From \<open>c\<close> to \<open>c'\<close> the activity counters are unchanged, and a fetch leaves the in-flight table only
  cancelled and aborted; nothing else is.\<close>

definition steady :: "'v client \<Rightarrow> 'v client \<Rightarrow> bool" where
  "steady c c' \<longleftrightarrow>
     cl_fetching_count c' = cl_fetching_count c \<and> cl_mutating_count c' = cl_mutating_count c
     \<and> set (cl_in_flight c') \<subseteq> set (cl_in_flight c)
     \<and> set (cl_cancelled c) \<subseteq> set (cl_cancelled c') \<and> set (cl_aborted c) \<subseteq> set (cl_aborted c')
     \<and> set (cl_cancelled c') \<subseteq> set (cl_cancelled c) \<union> (if_cancel_token \<circ> snd) ` set (cl_in_flight c)
     \<and> set (cl_aborted c') \<subseteq> set (cl_aborted c) \<union> (if_abort \<circ> snd) ` set (cl_in_flight c)
     \<and> (\<forall>k t. dm_get (cl_in_flight c) k = Some t \<longrightarrow>
          dm_get (cl_in_flight c') k = Some t
          \<or> (if_cancel_token t \<in> set (cl_cancelled c') \<and> if_abort t \<in> set (cl_aborted c')))"

lemma steady_refl [simp]: "steady c c"
  by (simp add: steady_def)

lemma taken_trans: "A2 \<subseteq> A1 \<union> g ` F1 \<Longrightarrow> A1 \<subseteq> A \<union> g ` F \<Longrightarrow> F1 \<subseteq> F \<Longrightarrow> A2 \<subseteq> A \<union> g ` F"
  by blast

lemma steady_trans [trans]:
  assumes "steady c c1" "steady c1 c2"
  shows "steady c c2"
proof -
  note s1 = assms(1) [unfolded steady_def] and s2 = assms(2) [unfolded steady_def]
  show ?thesis
    unfolding steady_def
  proof (intro conjI allI impI)
    show "cl_fetching_count c2 = cl_fetching_count c" "cl_mutating_count c2 = cl_mutating_count c" using s1 s2 by simp_all
    show "set (cl_in_flight c2) \<subseteq> set (cl_in_flight c)" using s1 s2 by (meson order_trans)
    show "set (cl_cancelled c) \<subseteq> set (cl_cancelled c2)" using s1 s2 by (meson order_trans)
    show "set (cl_aborted c) \<subseteq> set (cl_aborted c2)" using s1 s2 by (meson order_trans)
    show "set (cl_cancelled c2) \<subseteq> set (cl_cancelled c) \<union> (if_cancel_token \<circ> snd) ` set (cl_in_flight c)"
      by (rule taken_trans [of _ "set (cl_cancelled c1)" _ "set (cl_in_flight c1)"]) (use s1 s2 in simp_all)
    show "set (cl_aborted c2) \<subseteq> set (cl_aborted c) \<union> (if_abort \<circ> snd) ` set (cl_in_flight c)"
      by (rule taken_trans [of _ "set (cl_aborted c1)" _ "set (cl_in_flight c1)"]) (use s1 s2 in simp_all)
    fix k t assume "dm_get (cl_in_flight c) k = Some t"
    then show "dm_get (cl_in_flight c2) k = Some t \<or> (if_cancel_token t \<in> set (cl_cancelled c2) \<and> if_abort t \<in> set (cl_aborted c2))"
      using s1 s2 by (meson subsetD)
  qed
qed

lemma steadyI:
  "cl_fetching_count c' = cl_fetching_count c \<Longrightarrow> cl_mutating_count c' = cl_mutating_count c \<Longrightarrow> cl_in_flight c' = cl_in_flight c \<Longrightarrow>
   cl_cancelled c' = cl_cancelled c \<Longrightarrow> cl_aborted c' = cl_aborted c \<Longrightarrow> steady c c'"
  by (simp add: steady_def)

lemma steady_then: "steady c c1 \<Longrightarrow> cl_fetching_count c2 = cl_fetching_count c1 \<Longrightarrow>
   cl_mutating_count c2 = cl_mutating_count c1 \<Longrightarrow> cl_in_flight c2 = cl_in_flight c1 \<Longrightarrow>
   cl_cancelled c2 = cl_cancelled c1 \<Longrightarrow> cl_aborted c2 = cl_aborted c1 \<Longrightarrow> steady c c2"
  by (simp add: steady_def)

lemma steady_fold:
  assumes "\<And>x s. steady (cl s) (cl (f x s))"
  shows "steady (cl s) (cl (fold f xs s))"
proof (induction xs arbitrary: s)
  case (Cons x xs)
  show ?case using steady_trans [OF assms Cons.IH] by simp
qed simp

lemma steady_abort [simp]: "steady c (snd (abort_in_flight k c))"
proof (cases "dm_get (cl_in_flight c) k")
  case (Some t)
  have "(k, t) \<in> set (cl_in_flight c)" using Some by (simp add: dm_get_def map_of_SomeD)
  then have "if_cancel_token t \<in> (if_cancel_token \<circ> snd) ` set (cl_in_flight c)" "if_abort t \<in> (if_abort \<circ> snd) ` set (cl_in_flight c)"
    by force+
  moreover have "set (dm_remove k (cl_in_flight c)) \<subseteq> set (cl_in_flight c)" by (auto simp: dm_remove_def AList.delete_eq)
  ultimately show ?thesis using Some by (auto simp: steady_def abort_in_flight_def simp del: o_apply)
qed (simp add: abort_in_flight_def)

lemma abort_counts [simp]:
  "cl_fetching_count (snd (abort_in_flight k c)) = cl_fetching_count c"
  "cl_mutating_count (snd (abort_in_flight k c)) = cl_mutating_count c"
  by (simp_all add: abort_in_flight_def split: option.splits)

lemma mark_stale_counts [simp]:
  "cl_fetching_count (mark_stale k c) = cl_fetching_count c" "cl_mutating_count (mark_stale k c) = cl_mutating_count c"
  "cl_aborted (mark_stale k c) = cl_aborted c"
  by (simp_all add: mark_stale_def)

lemma steady_bodies:
  "steady c (invalidate_one k c)" "steady c (trigger_refetch k c)" "steady c (refetch_stale_one now k c)"
  "steady c (reconnect_one now k c)"
  by (auto simp: invalidate_one_def trigger_refetch_def refetch_stale_one_def reconnect_one_def Let_def
      intro: steadyI steady_then [OF steady_abort] split: option.splits)

lemma steady_counting_bodies:
  "steady (snd nc) (snd (cancel_one k nc))" "steady (snd nc) (snd (drop_one v k nc))" "steady (snd nc) (snd (refetch_one b ks nc))"
  subgoal
    using steady_abort [of "snd nc" k]
    by (cases "abort_in_flight k (snd nc)") (auto simp: cancel_one_def intro: steady_then split: bool.splits)
  subgoal by (auto simp: drop_one_def Let_def intro: steady_then [OF steady_abort])
  subgoal by (auto simp: refetch_one_def Let_def intro: steadyI steady_then [OF steady_abort] split: option.splits)
  done

lemma steady_clear: "steady c (client_clear c)"
  by (force simp: steady_def client_clear_def dm_get_def dest: map_of_SomeD)

lemma steady_cancel: "steady c (cancel_query key c)"
  using steady_abort [of c "cache_key key"]
  by (cases "abort_in_flight (cache_key key) c") (auto simp: cancel_query_def intro: steady_then split: bool.splits)

lemma steady_bulk:
  "steady c (invalidate_queries key c)" "steady c (refetch_all_stale now c)" "steady c (handle_reconnect now c)"
  "steady c (snd (cancel_queries now f c))" "steady c (snd (reset_queries now f c))" "steady c (snd (remove_queries now f c))"
  "steady c (snd (refetch_queries now f o' c))"
  unfolding invalidate_queries_def refetch_all_stale_def handle_reconnect_def cancel_queries_def reset_queries_def
    remove_queries_def refetch_queries_def Let_def
  using steady_fold [where cl = "\<lambda>c. c", OF steady_bodies(1)] steady_fold [where cl = "\<lambda>c. c", OF steady_bodies(3)]
    steady_fold [where cl = "\<lambda>c. c", OF steady_bodies(4)]
    steady_fold [where cl = snd and s = "(0, c)", OF steady_counting_bodies(1)]
    steady_fold [where cl = snd and s = "(0, c)", OF steady_counting_bodies(2)]
    steady_fold [where cl = snd and s = "(0, c)", OF steady_counting_bodies(3)]
  by simp_all

lemma steady_filtered: "steady c (snd (invalidate_queries_filtered now f c))"
proof -
  have "steady c (fold mark_stale ks c)" for ks
    by (rule steady_fold [where cl = "\<lambda>c. c"]) (simp add: steadyI)
  moreover have "steady c' (fold (\<lambda>(k, s) c. if refetch_selected (iq_refetch_type f) s then trigger_refetch k c else c) ms c')" for ms c'
    by (rule steady_fold [where cl = "\<lambda>c. c"]) (auto simp: steady_bodies)
  ultimately show ?thesis
    by (auto simp: invalidate_queries_filtered_def Let_def intro: steady_trans)
qed

lemma steady_writes:
  "steady c (set_query_data peq now key v opts c)" "steady c (store_pages now k w c)"
  by (simp_all add: set_query_data_def store_pages_def Let_def steadyI)

lemma steady_pages:
  "append_infinite_page now key t p pg pm mx c = Some (r, c') \<Longrightarrow> steady c c'"
  "steady c (snd (prepend_infinite_page now key t p pg pm mx c))"
  by (auto simp: append_infinite_page_def prepend_infinite_page_def Let_def steady_writes split: option.splits dynval.splits)

lemma steady_plumbing:
  "steady c (fst (client_subscribe k c))" "steady c (fst (client_subscribe_all c))" "steady c (fst (subscribe_activity c))"
  "steady c (QueryClient_clone c)" "steady c (QueryClient_drop c)" "steady c (client_gc now c)" "steady c (client_set_online b c)"
  "steady c (client_mount c)" "steady c (client_unmount c)"
  by (auto simp: client_subscribe_def client_subscribe_all_def subscribe_activity_def QueryClient_clone_def QueryClient_drop_def client_gc_def
      client_set_online_def client_mount_def client_unmount_def Let_def case_prod_beta intro!: steadyI split: option.splits)

lemma steady_watcher: "steady c (reconnect_task_step now i c)"
proof -
  have drop: "steady c (QueryClient_drop c1)" if "steady c c1" for c1
    using steady_trans [OF that steady_plumbing(5)] .
  have reconnect: "steady c (handle_reconnect now c1)" if "steady c c1" for c1
    using steady_trans [OF that steady_bulk(3)] .
  show ?thesis
    by (auto simp: reconnect_task_step_def Let_def case_prod_beta intro!: drop reconnect steadyI split: prod.splits change_poll.splits)
qed

lemma client_step_steady: "public_op op \<Longrightarrow> steady c (client_step peq op c)"
  by (cases op) (auto simp: steady_writes steady_pages steady_plumbing steady_bulk steady_filtered steady_clear steady_cancel
      steady_watcher set_default_options_def set_is_restoring_def
      intro: steadyI steady_pages split: option.splits)

text \<open>Counting the live tasks of a list when one of them changes.\<close>

lemma length_filter_update:
  "i < length xs \<Longrightarrow> length (filter P (xs[i := y])) + (if P (xs ! i) then 1 else 0) = length (filter P xs) + (if P y then 1 else 0)"
proof (induction xs arbitrary: i)
  case (Cons x xs)
  show ?case using Cons.IH [of "i - 1"] Cons.prems by (cases i) auto
qed simp

end
