(* ===== verification/Concurrent_Fetches.thy ===== *)
theory Concurrent_Fetches
  imports Spawned_Work Public_Ops
begin

text \<open>
  Any number of spawned fetches on one client, interleaved with each other and with every operation of
  the client's interface. A fetch of \<open>spawn_query\<close> (\<open>executor.rs\<close>) is a state machine whose states are
  the await points of \<open>execute_query_inner\<close>; a poll runs it from one await point to the next, and
  between polls anything may happen to the client. The cancellation token and the abort handle of a
  fetch are the ones its in-flight entry holds, so \<open>cancel_query\<close>, \<open>invalidate_queries\<close> and \<open>clear\<close>
  reach the fetches they are meant for. The theorems relate this system to the scripted executions of
  \<open>Query_Executor\<close> and show what holds of the activity counter and of cancelled fetches.
\<close>

subsection \<open>A fetch as a state machine\<close>

text \<open>
  Where a spawned fetch waits: not yet polled, in the fetch function, for connectivity, in the backoff
  sleep; or it has sent its state, or has been dropped by an abort. The lists are the failures that
  have been retried, so \<open>attempts\<close> is one more than their number while the fetch function runs.
\<close>

datatype 'v fetch_phase =
    FtNew | FtFetching "query_error list" | FtOffline "query_error list" | FtSleeping "query_error list"
  | FtEnded "query_error list" "'v dynval query_state" | FtDropped

fun phase_live :: "'v fetch_phase \<Rightarrow> bool" where
  "phase_live (FtEnded errs st) = False"
| "phase_live FtDropped = False"
| "phase_live ph = True"

text \<open>What a poll finds resolved: the first poll, the timer or a change of connectivity; a closed
  connectivity watch; the answer of the fetch function, with the clock at the write and what other threads
  do between the write and the read back; its panic; or the cancelled token.\<close>

datatype 'v wakeup =
    Resume | WatchClosed | FetchDone "(query_error, 'v dynval) result" instant "'v client_op list"
  | FetchPanics panic_payload | TokenFired

definition token_cancelled :: "nat \<Rightarrow> 'v client \<Rightarrow> bool" where
  "token_cancelled i c = (i \<in> set (cl_cancelled c))"

definition fetch_end ::
  "type_id \<Rightarrow> 'v query \<Rightarrow> query_error list \<Rightarrow> 'v exec_result \<times> 'v client \<Rightarrow> 'v fetch_phase \<times> 'v client" where
  "fetch_end ty q errs rc =
     (FtEnded errs (spawned_state ty q rc), FetchingGuard_drop (clear_in_flight (q_key q) (snd rc)))"

definition loop_head ::
  "type_id \<Rightarrow> 'v query \<Rightarrow> nat \<Rightarrow> query_error list \<Rightarrow> 'v client \<Rightarrow> 'v fetch_phase \<times> 'v client" where
  "loop_head ty q i errs c =
     (if token_cancelled i c then fetch_end ty q errs (cancelled_state ty q c, c) else (FtFetching errs, c))"

definition fetch_stored ::
  "('v dynval \<Rightarrow> 'v dynval \<Rightarrow> bool) \<Rightarrow> type_id \<Rightarrow> 'v query \<Rightarrow> query_error list \<Rightarrow> 'v dynval \<Rightarrow> instant
   \<Rightarrow> 'v client_op list \<Rightarrow> 'v client \<Rightarrow> 'v fetch_phase \<times> 'v client" where
  "fetch_stored peq ty q errs d now ops c =
     (let c2 = fold (client_step peq) (filter public_op ops)
                 (set_query_data peq now (q_key q) (apply_select q d) (q_options q) c)
      in fetch_end ty q errs
           (case get_query_data ty (q_key q) c2 of
              Some v \<Rightarrow> Returned (Success v)
            | None \<Rightarrow> Panicked (PayloadText ''data should be set''), c2))"

definition fetch_failed ::
  "type_id \<Rightarrow> 'v query \<Rightarrow> nat \<Rightarrow> query_error list \<Rightarrow> query_error \<Rightarrow> 'v client \<Rightarrow> 'v fetch_phase \<times> 'v client" where
  "fetch_failed ty q i errs e c =
     (if is_cancelled e then fetch_end ty q errs (cancelled_state ty q c, c)
      else if RetryDecision_should_retry (Count (max_retries (retry (q_options q)))) e (length errs) \<and> retryable_error e
      then if can_retry (net_mode (q_options q)) (OnlineManager_is_online (cl_online c)) then (FtSleeping (errs @ [e]), c)
           else if token_cancelled i c then fetch_end ty q errs (cancelled_state ty q c, c)
           else (FtOffline (errs @ [e]), c)
      else let c2 = notify_subscribers (cache_key (q_key q)) V_Error c
           in fetch_end ty q errs (Returned (Error e (get_query_data ty (q_key q) c2)), c2))"

fun fetch_poll ::
  "('v dynval \<Rightarrow> 'v dynval \<Rightarrow> bool) \<Rightarrow> type_id \<Rightarrow> 'v query \<Rightarrow> nat \<Rightarrow> 'v wakeup \<Rightarrow> 'v fetch_phase \<Rightarrow> 'v client
   \<Rightarrow> 'v fetch_phase \<times> 'v client" where
  "fetch_poll peq ty q i Resume FtNew c =
     (if client_is_restoring c then fetch_end ty q [] (Returned Idle, c)
      else let c1 = notify_subscribers (cache_key (q_key q)) V_Loading c in
        if \<not> can_fetch (net_mode (q_options q)) (OnlineManager_is_online (cl_online c1))
        then fetch_end ty q [] (Returned (Error PausedErr (get_query_data ty (q_key q) c1)), c1)
        else loop_head ty q i [] c1)"
| "fetch_poll peq ty q i (FetchDone (Inr d) now ops) (FtFetching errs) c = fetch_stored peq ty q errs d now ops c"
| "fetch_poll peq ty q i (FetchDone (Inl e) now ops) (FtFetching errs) c = fetch_failed ty q i errs e c"
| "fetch_poll peq ty q i (FetchPanics m) (FtFetching errs) c = fetch_end ty q errs (Panicked m, c)"
| "fetch_poll peq ty q i TokenFired (FtFetching errs) c =
     (if token_cancelled i c then fetch_end ty q errs (cancelled_state ty q c, c) else (FtFetching errs, c))"
| "fetch_poll peq ty q i Resume (FtOffline errs) c =
     (if token_cancelled i c then fetch_end ty q (butlast errs) (cancelled_state ty q c, c)
      else if can_retry (net_mode (q_options q)) (OnlineManager_is_online (cl_online c)) then (FtSleeping errs, c)
      else (FtOffline errs, c))"
| "fetch_poll peq ty q i WatchClosed (FtOffline errs) c =
     (if token_cancelled i c then fetch_end ty q (butlast errs) (cancelled_state ty q c, c) else (FtSleeping errs, c))"
| "fetch_poll peq ty q i Resume (FtSleeping errs) c = loop_head ty q i errs c"
| "fetch_poll peq ty q i w ph c = (ph, c)"

subsection \<open>The system\<close>

text \<open>A task of \<open>spawn_query\<close>; task number \<open>i\<close> has the token and the abort handle \<open>i\<close>. The spawning
  thread registers it after the runtime has it, so it may be polled before.\<close>

record 'v fetch_task =
  ft_ty :: type_id
  ft_query :: "'v query"
  ft_registered :: bool
  ft_phase :: "'v fetch_phase"

record 'v fetch_system =
  fs_client :: "'v client"
  fs_tasks :: "'v fetch_task list"

datatype 'v fetch_event =
    SpawnQuery type_id "'v query" | RegisterFetch nat | PollFetch nat "'v wakeup" | AbortFetch nat | PublicOp "'v client_op"

definition task_key :: "'v fetch_task \<Rightarrow> string" where
  "task_key t = cache_key (q_key (ft_query t))"

definition task_live :: "'v fetch_task \<Rightarrow> bool" where
  "task_live t = phase_live (ft_phase t)"

definition spawn_fetch :: "type_id \<Rightarrow> 'v query \<Rightarrow> 'v fetch_system \<Rightarrow> 'v fetch_system" where
  "spawn_fetch ty q s =
     (let st = spawn_query_init (fs_client s);
          t = \<lparr>ft_ty = ty, ft_query = q, ft_registered = sp_registered st,
               ft_phase = (case sp_sent st of None \<Rightarrow> FtNew | Some r \<Rightarrow> FtEnded [] r)\<rparr>
      in s\<lparr>fs_client := sp_client st, fs_tasks := fs_tasks s @ [t]\<rparr>)"

definition register_fetch :: "nat \<Rightarrow> 'v fetch_system \<Rightarrow> 'v fetch_system" where
  "register_fetch i s =
     (let t = fs_tasks s ! i in
      if i < length (fs_tasks s) \<and> \<not> ft_registered t
      then s\<lparr>fs_client := set_in_flight (q_key (ft_query t)) \<lparr>if_abort = i, if_cancel_token = i\<rparr> (fs_client s),
             fs_tasks := (fs_tasks s)[i := t\<lparr>ft_registered := True\<rparr>]\<rparr>
      else s)"

text \<open>A worker polls a task. The \<open>Abortable\<close> wrapper looks at the abort flag first and then drops the future,
  of which only the guard runs.\<close>

definition poll_fetch ::
  "('v dynval \<Rightarrow> 'v dynval \<Rightarrow> bool) \<Rightarrow> nat \<Rightarrow> 'v wakeup \<Rightarrow> 'v fetch_system \<Rightarrow> 'v fetch_system" where
  "poll_fetch peq i w s =
     (let t = fs_tasks s ! i in
      if \<not> (i < length (fs_tasks s) \<and> task_live t) then s
      else let (ph, c) = (if i \<in> set (cl_aborted (fs_client s)) then (FtDropped, FetchingGuard_drop (fs_client s))
                          else fetch_poll peq (ft_ty t) (ft_query t) i w (ft_phase t) (fs_client s))
           in s\<lparr>fs_client := c, fs_tasks := (fs_tasks s)[i := t\<lparr>ft_phase := ph\<rparr>]\<rparr>)"

definition abort_fetch :: "nat \<Rightarrow> 'v fetch_system \<Rightarrow> 'v fetch_system" where
  "abort_fetch i s =
     (if i < length (fs_tasks s)
      then s\<lparr>fs_client := (fs_client s)\<lparr>cl_aborted := cl_aborted (fs_client s) @ [i]\<rparr>\<rparr> else s)"

fun fs_step ::
  "('v dynval \<Rightarrow> 'v dynval \<Rightarrow> bool) \<Rightarrow> 'v fetch_event \<Rightarrow> 'v fetch_system \<Rightarrow> 'v fetch_system" where
  "fs_step peq (SpawnQuery ty q) s = spawn_fetch ty q s"
| "fs_step peq (RegisterFetch i) s = register_fetch i s"
| "fs_step peq (PollFetch i w) s = poll_fetch peq i w s"
| "fs_step peq (AbortFetch i) s = abort_fetch i s"
| "fs_step peq (PublicOp op) s = (if public_op op then s\<lparr>fs_client := client_step peq op (fs_client s)\<rparr> else s)"

definition fs_run ::
  "('v dynval \<Rightarrow> 'v dynval \<Rightarrow> bool) \<Rightarrow> 'v fetch_event list \<Rightarrow> 'v fetch_system \<Rightarrow> 'v fetch_system" where
  "fs_run peq es s = fold (fs_step peq) es s"

definition fs_start :: "'v client \<Rightarrow> 'v fetch_system" where
  "fs_start c = \<lparr>fs_client = c, fs_tasks = []\<rparr>"

subsection \<open>The fetching counter\<close>

text \<open>Every in-flight entry names a registered task that was spawned for its key, and only tokens and abort
  handles of tasks have ever been used.\<close>

definition entry_of :: "'v fetch_task list \<Rightarrow> string \<times> in_flight_task \<Rightarrow> bool" where
  "entry_of ts x \<longleftrightarrow> (\<exists>i<length ts. snd x = \<lparr>if_abort = i, if_cancel_token = i\<rparr> \<and> ft_registered (ts ! i)
      \<and> task_key (ts ! i) = fst x)"

definition entries_ok :: "'v fetch_task list \<Rightarrow> 'v client \<Rightarrow> bool" where
  "entries_ok ts c \<longleftrightarrow>
     (\<forall>x\<in>set (cl_in_flight c). entry_of ts x)
     \<and> set (cl_cancelled c) \<subseteq> {..<length ts} \<and> set (cl_aborted c) \<subseteq> {..<length ts}"

definition live_tasks :: "'v fetch_system \<Rightarrow> nat" where
  "live_tasks s = length (filter task_live (fs_tasks s))"

definition fs_inv :: "u64w \<Rightarrow> 'v fetch_system \<Rightarrow> bool" where
  "fs_inv n s \<longleftrightarrow>
     cl_fetching_count (fs_client s) = n + of_nat (live_tasks s) \<and> entries_ok (fs_tasks s) (fs_client s)"

lemma guard_frame [simp]:
  "cl_fetching_count (FetchingGuard_drop c) = cl_fetching_count c - 1" "cl_in_flight (FetchingGuard_drop c) = cl_in_flight c"
  "cl_cancelled (FetchingGuard_drop c) = cl_cancelled c" "cl_aborted (FetchingGuard_drop c) = cl_aborted c"
  "cl_cache (FetchingGuard_drop c) = cl_cache c" "cl_subscribers (FetchingGuard_drop c) = cl_subscribers c"
  "cl_all_subscribers (FetchingGuard_drop c) = cl_all_subscribers c"
  by (simp_all add: FetchingGuard_drop_def dec_fetching_def send_activity_def Let_def)

lemma clear_frame [simp]:
  "cl_fetching_count (clear_in_flight key c) = cl_fetching_count c" "cl_cancelled (clear_in_flight key c) = cl_cancelled c"
  "cl_aborted (clear_in_flight key c) = cl_aborted c" "cl_in_flight (clear_in_flight key c) = dm_remove (cache_key key) (cl_in_flight c)"
  by (simp_all add: clear_in_flight_def)

lemma set_remove: "set (dm_remove k m) \<subseteq> set m" "set (dm_insert k v m) \<subseteq> insert (k, v) (set m)"
  subgoal by (auto simp: dm_remove_def AList.delete_eq)
  subgoal by (induction m) (auto simp: dm_insert_def)
  done

text \<open>A poll either leaves the fetch live, or ends it with the guard and the removal of its key.\<close>

definition poll_effect :: "'v query \<Rightarrow> 'v client \<Rightarrow> 'v fetch_phase \<times> 'v client \<Rightarrow> bool" where
  "poll_effect q c r \<longleftrightarrow>
     (if phase_live (fst r) then steady c (snd r)
      else \<exists>c1. steady c c1 \<and> snd r = FetchingGuard_drop (clear_in_flight (q_key q) c1))"

lemma poll_ends: "steady c c1 \<Longrightarrow> poll_effect q c (fetch_end ty q errs (r, c1))"
  by (auto simp: poll_effect_def fetch_end_def)

lemma poll_goes_on: "phase_live ph \<Longrightarrow> steady c c1 \<Longrightarrow> poll_effect q c (ph, c1)"
  by (simp add: poll_effect_def)

lemma steady_notify: "steady c (notify_subscribers k v c)"
  by (rule steadyI) simp_all

lemma steady_ops: "steady c (fold (client_step peq) (filter public_op ops) c)"
proof (induction ops arbitrary: c)
  case (Cons op ops)
  show ?case using steady_trans [OF client_step_steady Cons.IH, of op c] Cons.IH by simp
qed simp

lemma fetch_poll_effect: "phase_live ph \<Longrightarrow> poll_effect q c (fetch_poll peq ty q i w ph c)"
  by (cases "(peq, ty, q, i, w, ph, c)" rule: fetch_poll.cases)
    (auto simp: loop_head_def fetch_stored_def fetch_failed_def Let_def
      intro!: poll_ends poll_goes_on steady_notify steady_trans [OF steady_writes(1) steady_ops])

lemma fetch_poll_not_dropped: "phase_live ph \<Longrightarrow> fst (fetch_poll peq ty q i w ph c) \<noteq> FtDropped"
  by (cases "(peq, ty, q, i, w, ph, c)" rule: fetch_poll.cases) (auto simp: loop_head_def fetch_stored_def fetch_failed_def fetch_end_def Let_def)

lemma entries_steady:
  assumes "entries_ok ts c" "steady c c'"
  shows "entries_ok ts c'"
proof -
  have sub: "set (cl_in_flight c') \<subseteq> set (cl_in_flight c)"
    and can: "set (cl_cancelled c') \<subseteq> set (cl_cancelled c) \<union> (if_cancel_token \<circ> snd) ` set (cl_in_flight c)"
    and ab: "set (cl_aborted c') \<subseteq> set (cl_aborted c) \<union> (if_abort \<circ> snd) ` set (cl_in_flight c)"
    using assms(2) by (simp_all add: steady_def)
  have "(if_cancel_token \<circ> snd) ` set (cl_in_flight c) \<subseteq> {..<length ts}" "(if_abort \<circ> snd) ` set (cl_in_flight c) \<subseteq> {..<length ts}"
    using assms(1) by (force simp: entries_ok_def entry_of_def)+
  then have "set (cl_cancelled c') \<subseteq> {..<length ts}" "set (cl_aborted c') \<subseteq> {..<length ts}"
    using assms(1) by (auto simp: entries_ok_def intro!: order_trans [OF can] order_trans [OF ab] simp del: o_apply)
  then show ?thesis using sub assms(1) unfolding entries_ok_def by blast
qed

lemma entries_shrink:
  "entries_ok ts c1 \<Longrightarrow> set (cl_in_flight c) \<subseteq> set (cl_in_flight c1) \<Longrightarrow> cl_cancelled c = cl_cancelled c1 \<Longrightarrow>
   cl_aborted c = cl_aborted c1 \<Longrightarrow> entries_ok ts c"
  unfolding entries_ok_def by auto

lemma entries_extend:
  assumes "entries_ok ts c" "length ts \<le> length ts'"
    "\<And>i. i < length ts \<Longrightarrow> task_key (ts' ! i) = task_key (ts ! i) \<and> (ft_registered (ts ! i) \<longrightarrow> ft_registered (ts' ! i))"
    "cl_in_flight c' = cl_in_flight c" "cl_cancelled c' = cl_cancelled c" "cl_aborted c' = cl_aborted c"
  shows "entries_ok ts' c'"
proof -
  have "entry_of ts' x" if "entry_of ts x" for x
    using that assms(2,3) unfolding entry_of_def by (metis order_less_le_trans)
  then show ?thesis using assms unfolding entries_ok_def by auto
qed

lemma entries_insert:
  assumes "entries_ok ts c" "i < length ts" "task_key (ts ! i) = cache_key key" "ft_registered (ts ! i)"
  shows "entries_ok ts (set_in_flight key \<lparr>if_abort = i, if_cancel_token = i\<rparr> c)"
proof -
  let ?t = "\<lparr>if_abort = i, if_cancel_token = i\<rparr>"
  have "entry_of ts (cache_key key, ?t)" using assms(2-4) by (auto simp: entry_of_def)
  then have "entry_of ts x" if "x \<in> set (dm_insert (cache_key key) ?t (cl_in_flight c))" for x
    using subsetD [OF set_remove(2) that] assms(1) by (auto simp: entries_ok_def)
  then show ?thesis using assms(1) by (simp add: entries_ok_def set_in_flight_def)
qed

lemma fs_inv_spawn: "fs_inv n s \<Longrightarrow> fs_inv n (spawn_fetch ty q s)"
  by (auto simp: fs_inv_def spawn_fetch_def spawn_query_init_def live_tasks_def task_live_def inc_fetching_def send_activity_def Let_def
      nth_append elim!: entries_extend)

lemma fs_inv_register:
  assumes "fs_inv n s"
  shows "fs_inv n (register_fetch i s)"
proof (cases "i < length (fs_tasks s) \<and> \<not> ft_registered (fs_tasks s ! i)")
  case True
  let ?t = "fs_tasks s ! i" and ?ts = "(fs_tasks s)[i := (fs_tasks s ! i)\<lparr>ft_registered := True\<rparr>]"
  have s': "register_fetch i s = s\<lparr>fs_client := set_in_flight (q_key (ft_query ?t)) \<lparr>if_abort = i, if_cancel_token = i\<rparr> (fs_client s),
      fs_tasks := ?ts\<rparr>" using True by (simp add: register_fetch_def Let_def)
  have "entries_ok ?ts (fs_client s)"
    using assms True by (auto simp: fs_inv_def nth_list_update task_key_def elim!: entries_extend)
  moreover have "task_key (?ts ! i) = cache_key (q_key (ft_query ?t))" "ft_registered (?ts ! i)" using True by (simp_all add: task_key_def)
  ultimately have "entries_ok ?ts (set_in_flight (q_key (ft_query ?t)) \<lparr>if_abort = i, if_cancel_token = i\<rparr> (fs_client s))"
    using True by (intro entries_insert) simp_all
  then have "entries_ok (fs_tasks (register_fetch i s)) (fs_client (register_fetch i s))" by (simp add: s')
  moreover have "live_tasks (register_fetch i s) = live_tasks s"
    using length_filter_update [of i "fs_tasks s" task_live "?t\<lparr>ft_registered := True\<rparr>"] True
    by (simp add: live_tasks_def s' task_live_def)
  ultimately show ?thesis using assms by (simp add: fs_inv_def s' set_in_flight_def)
qed (use assms in \<open>auto simp: register_fetch_def Let_def\<close>)

lemma entries_phase:
  "i < length ts \<Longrightarrow> entries_ok ts c \<Longrightarrow> entries_ok (ts[i := (ts ! i)\<lparr>ft_phase := ph\<rparr>]) c"
  by (rule entries_extend) (auto simp: nth_list_update task_key_def)

lemma fs_inv_poll:
  assumes "fs_inv n s"
  shows "fs_inv n (poll_fetch peq i w s)"
proof (cases "i < length (fs_tasks s) \<and> task_live (fs_tasks s ! i)")
  case True
  let ?t = "fs_tasks s ! i" and ?c = "fs_client s"
  obtain ph c where r: "(if i \<in> set (cl_aborted ?c) then (FtDropped, FetchingGuard_drop ?c)
      else fetch_poll peq (ft_ty ?t) (ft_query ?t) i w (ft_phase ?t) ?c) = (ph, c)" by fastforce
  then have s': "poll_fetch peq i w s = s\<lparr>fs_client := c, fs_tasks := (fs_tasks s)[i := ?t\<lparr>ft_phase := ph\<rparr>]\<rparr>"
    using True by (simp add: poll_fetch_def Let_def)
  have eff: "(phase_live ph \<and> steady ?c c) \<or> (\<not> phase_live ph \<and> (\<exists>c1. steady ?c c1 \<and> cl_fetching_count c = cl_fetching_count c1 - 1
      \<and> cl_cancelled c = cl_cancelled c1 \<and> cl_aborted c = cl_aborted c1 \<and> set (cl_in_flight c) \<subseteq> set (cl_in_flight c1)))"
  proof (cases "i \<in> set (cl_aborted ?c)")
    case dropped: True
    then show ?thesis using r by (auto intro!: exI [of _ ?c])
  next
    case False
    then show ?thesis
      using r True fetch_poll_effect [of "ft_phase ?t" "ft_query ?t" ?c peq "ft_ty ?t" i w] set_remove(1)
      by (fastforce simp: poll_effect_def task_live_def split: if_splits)
  qed
  have "live_tasks s = live_tasks (poll_fetch peq i w s) + (if phase_live ph then 0 else 1)"
    using length_filter_update [of i "fs_tasks s" task_live "?t\<lparr>ft_phase := ph\<rparr>"] True
    by (auto simp: live_tasks_def s' task_live_def)
  then have "cl_fetching_count c = n + of_nat (live_tasks (poll_fetch peq i w s))"
    using eff assms by (auto simp: fs_inv_def steady_def)
  moreover have "entries_ok (fs_tasks s) c"
    using eff assms unfolding fs_inv_def by (elim disjE conjE exE) (blast intro: entries_steady entries_shrink)+
  ultimately show ?thesis using True entries_phase [of i "fs_tasks s" c ph] by (simp add: fs_inv_def s')
qed (use assms in \<open>auto simp: poll_fetch_def Let_def\<close>)

lemma fs_inv_step: "fs_inv n s \<Longrightarrow> fs_inv n (fs_step peq e s)"
proof (cases e)
  case (AbortFetch i)
  then show "fs_inv n s \<Longrightarrow> ?thesis" by (auto simp: abort_fetch_def fs_inv_def entries_ok_def live_tasks_def)
next
  case (PublicOp op)
  then show "fs_inv n s \<Longrightarrow> ?thesis"
    using client_step_steady [of op "fs_client s" peq] entries_steady [of "fs_tasks s" "fs_client s"]
    by (auto simp: fs_inv_def live_tasks_def steady_def)
qed (simp_all add: fs_inv_spawn fs_inv_register fs_inv_poll)

lemma fs_inv_start:
  "cl_in_flight c = [] \<Longrightarrow> cl_cancelled c = [] \<Longrightarrow> cl_aborted c = [] \<Longrightarrow> fs_inv (cl_fetching_count c) (fs_start c)"
  by (simp add: fs_inv_def fs_start_def live_tasks_def entries_ok_def)

interpretation fs_m: inv_machine "fs_start (QueryClient_new\<lparr>cl_fetching_count := n\<rparr>)" "fs_step peq" "fs_inv n" for n peq
proof unfold_locales
  show "fs_inv n (fs_start (QueryClient_new\<lparr>cl_fetching_count := n\<rparr>))"
    using fs_inv_start [of "QueryClient_new\<lparr>cl_fetching_count := n\<rparr>"] by (simp add: QueryClient_new_def)
qed (rule fs_inv_step)

lemma fs_inv_run: "fs_inv n s \<Longrightarrow> fs_inv n (fs_run peq es s)"
  unfolding fs_run_def by (rule fs_m.inv_fold)

text \<open>
  C11. The activity counter of any number of spawned fetches, for every interleaving of spawns,
  registrations, polls and aborts with all operations of the client's interface, on a client that starts
  without fetches. The counter exceeds its start by exactly the number of fetches that have neither
  ended nor been dropped, so \<open>is_fetching\<close> tells whether there is one; and every in-flight entry is the
  token and the abort handle of a registered fetch of that key, so that cancelling a key reaches no
  other.
\<close>

theorem fetching_count_exact:
  assumes "cl_in_flight c = []" and "cl_cancelled c = []" and "cl_aborted c = []"
    and "s = fs_run peq es (fs_start c)"
  shows "cl_fetching_count (fs_client s) = cl_fetching_count c + of_nat (live_tasks s)
   \<and> (cl_fetching_count c = 0 \<longrightarrow> length (fs_tasks s) < 2 ^ 64 \<longrightarrow>
        (is_fetching (fs_client s) \<longleftrightarrow> (\<exists>t\<in>set (fs_tasks s). task_live t)))
   \<and> (\<forall>k t. dm_get (cl_in_flight (fs_client s)) k = Some t \<longrightarrow> (\<exists>i<length (fs_tasks s).
        t = \<lparr>if_abort = i, if_cancel_token = i\<rparr> \<and> ft_registered (fs_tasks s ! i) \<and> task_key (fs_tasks s ! i) = k))"
proof (intro conjI impI allI)
  have inv: "fs_inv (cl_fetching_count c) s" unfolding assms(4) by (intro fs_inv_run fs_inv_start assms(1-3))
  show count: "cl_fetching_count (fs_client s) = cl_fetching_count c + of_nat (live_tasks s)" using inv by (simp add: fs_inv_def)
  show "is_fetching (fs_client s) \<longleftrightarrow> (\<exists>t\<in>set (fs_tasks s). task_live t)"
    if "cl_fetching_count c = 0" "length (fs_tasks s) < 2 ^ 64"
  proof -
    have small: "live_tasks s < 2 ^ 64" unfolding live_tasks_def by (rule le_less_trans [OF length_filter_le that(2)])
    have "is_fetching (fs_client s) \<longleftrightarrow> live_tasks s \<noteq> 0"
      using count that(1) small by (simp add: is_fetching_def word_greater_zero_iff flip: unat_eq_0) (simp add: unat_of_nat)
    then show ?thesis by (auto simp: live_tasks_def filter_empty_conv)
  qed
  fix k t assume "dm_get (cl_in_flight (fs_client s)) k = Some t"
  then have "(k, t) \<in> set (cl_in_flight (fs_client s))" by (simp add: dm_get_def map_of_SomeD)
  then show "\<exists>i<length (fs_tasks s). t = \<lparr>if_abort = i, if_cancel_token = i\<rparr> \<and> ft_registered (fs_tasks s ! i) \<and> task_key (fs_tasks s ! i) = k"
    using inv by (auto simp: fs_inv_def entries_ok_def entry_of_def)
qed

subsection \<open>Cancelled fetches\<close>

lemma aborted_mono: "set (cl_aborted (fs_client s)) \<subseteq> set (cl_aborted (fs_client (fs_step peq e s)))"
proof (cases e)
  case (PollFetch i w)
  let ?t = "fs_tasks s ! i" and ?c = "fs_client s"
  have "set (cl_aborted ?c) \<subseteq> set (cl_aborted (snd (fetch_poll peq (ft_ty ?t) (ft_query ?t) i w (ft_phase ?t) ?c)))"
    if "phase_live (ft_phase ?t)"
    using fetch_poll_effect [OF that, of "ft_query ?t" ?c peq "ft_ty ?t" i w] by (auto simp: poll_effect_def steady_def split: if_splits)
  then show ?thesis
    using PollFetch by (auto simp: poll_fetch_def task_live_def Let_def split: prod.splits)
next
  case (PublicOp op)
  then show ?thesis using client_step_steady [of op "fs_client s" peq] by (simp add: steady_def)
qed (auto simp: spawn_fetch_def spawn_query_init_def inc_fetching_def send_activity_def register_fetch_def set_in_flight_def abort_fetch_def Let_def)

lemma aborted_run: "i \<in> set (cl_aborted (fs_client s)) \<Longrightarrow> i \<in> set (cl_aborted (fs_client (fs_run peq es s)))"
  unfolding fs_run_def using aborted_mono by (induction es arbitrary: s) (fastforce simp: subset_eq)+

lemma tasks_grow: "length (fs_tasks s) \<le> length (fs_tasks (fs_run peq es s))"
proof -
  have "length (fs_tasks s) \<le> length (fs_tasks (fs_step peq e s))" for e and s :: "'a fetch_system"
    by (cases e) (auto simp: spawn_fetch_def register_fetch_def poll_fetch_def abort_fetch_def Let_def split: prod.splits)
  then show ?thesis unfolding fs_run_def by (induction es arbitrary: s) (auto intro: order_trans)
qed

lemma poll_aborted:
  assumes "i \<in> set (cl_aborted (fs_client s))" "i < length (fs_tasks s)"
  shows "cl_cache (fs_client (poll_fetch peq i w s)) = cl_cache (fs_client s)"
    "cl_in_flight (fs_client (poll_fetch peq i w s)) = cl_in_flight (fs_client s)"
    "cl_subscribers (fs_client (poll_fetch peq i w s)) = cl_subscribers (fs_client s)"
    "\<not> task_live (fs_tasks (poll_fetch peq i w s) ! i)"
  using assms by (simp_all add: poll_fetch_def task_live_def Let_def)

text \<open>
  C10. Cancellation is final. Whenever an operation of the interface takes a fetch out of the in-flight
  table (\<open>cancel_query\<close>, any form of invalidation, reset, removal or refetch that cancels, \<open>clear\<close>),
  then whatever happens afterwards, no poll of that fetch changes the cache, the in-flight table or what
  subscribers receive, and the first one ends it: a cancelled fetch never overwrites newer data.
\<close>

theorem cancelled_fetch_inert:
  assumes "cl_in_flight c = []" and "cl_cancelled c = []" and "cl_aborted c = []"
    and "s = fs_run peq es (fs_start c)" and "dm_get (cl_in_flight (fs_client s)) k = Some t"
    and "public_op op" and "dm_get (cl_in_flight (client_step peq op (fs_client s))) k \<noteq> Some t"
    and "s' = fs_run peq es' (fs_step peq (PublicOp op) s)" and "s'' = fs_step peq (PollFetch (if_abort t) w) s'"
  shows "cl_cache (fs_client s'') = cl_cache (fs_client s') \<and> cl_in_flight (fs_client s'') = cl_in_flight (fs_client s')
   \<and> cl_subscribers (fs_client s'') = cl_subscribers (fs_client s') \<and> \<not> task_live (fs_tasks s'' ! if_abort t)"
proof -
  have "(k, t) \<in> set (cl_in_flight (fs_client s))" using assms(5) by (simp add: dm_get_def map_of_SomeD)
  moreover have "fs_inv (cl_fetching_count c) s" unfolding assms(4) by (intro fs_inv_run fs_inv_start assms(1-3))
  ultimately have "if_abort t < length (fs_tasks s)" by (auto simp: fs_inv_def entries_ok_def entry_of_def)
  then have "if_abort t < length (fs_tasks s')"
    using tasks_grow [of "fs_step peq (PublicOp op) s" peq es'] assms(6) by (simp add: assms(8))
  moreover have "if_abort t \<in> set (cl_aborted (fs_client s'))"
    unfolding assms(8) using client_step_steady [OF assms(6), of "fs_client s" peq] assms(5-7)
    by (intro aborted_run) (auto simp: steady_def)
  ultimately show ?thesis using poll_aborted [of "if_abort t" s' peq w] by (simp add: assms(9))
qed

text \<open>
  Two fetches of one key. \<open>spawn_query\<close> does not look whether the key is already in flight, so both
  run; the entry is the later registration, but the end of either removes it. After that the other
  fetch runs on unregistered: cancelling the key does nothing, and its result will be stored.
\<close>

theorem second_fetch_escapes:
  assumes "i < length (fs_tasks s)" and "j < length (fs_tasks s)" and "i \<noteq> j"
    and "task_live (fs_tasks s ! i)" and "task_live (fs_tasks s ! j)"
    and "q_key (ft_query (fs_tasks s ! j)) = q_key (ft_query (fs_tasks s ! i))" and "i \<notin> set (cl_aborted (fs_client s))"
    and "s' = poll_fetch peq i w s" and "\<not> task_live (fs_tasks s' ! i)"
  shows "task_live (fs_tasks s' ! j) \<and> dm_get (cl_in_flight (fs_client s')) (task_key (fs_tasks s' ! j)) = None
   \<and> cancel_query (q_key (ft_query (fs_tasks s' ! j))) (fs_client s') = fs_client s'"
proof -
  let ?t = "fs_tasks s ! i"
  obtain ph c where r: "fetch_poll peq (ft_ty ?t) (ft_query ?t) i w (ft_phase ?t) (fs_client s) = (ph, c)" by fastforce
  then have s': "s' = s\<lparr>fs_client := c, fs_tasks := (fs_tasks s)[i := ?t\<lparr>ft_phase := ph\<rparr>]\<rparr>"
    using assms(1,4,7) by (simp add: assms(8) poll_fetch_def Let_def)
  then have "\<not> phase_live ph" using assms(1,9) by (simp add: task_live_def)
  then obtain c1 where "c = FetchingGuard_drop (clear_in_flight (q_key (ft_query ?t)) c1)"
    using fetch_poll_effect [of "ft_phase ?t" "ft_query ?t" "fs_client s" peq "ft_ty ?t" i w] r assms(4)
    by (auto simp: poll_effect_def task_live_def)
  then have "dm_get (cl_in_flight c) (cache_key (q_key (ft_query ?t))) = None" by simp
  then show ?thesis using assms(3,5,6) s' by (simp add: task_key_def cancel_query_def abort_in_flight_def)
qed

subsection \<open>The script a run writes\<close>

text \<open>
  The script of one fetch, written down while the system runs. It says nothing about what the fetch does
  with what happens to it: it records, at each poll, what the poll finds resolved, the client it
  finds, and whether the token is cancelled then. A pass that nothing has happened in is \<open>calm_pass\<close>.
\<close>

definition calm_pass :: "'v attempt_env" where
  "calm_pass =
     \<lparr>ae_cancelled = False, ae_during = (\<lambda>c. c), ae_panic = None, ae_cancelled_before = False, ae_race = None, ae_now = 0,
      ae_between = (\<lambda>c. c), ae_wait = [], ae_cancelled_after = False, ae_post = (\<lambda>c. c)\<rparr>"

definition on_last :: "('b \<Rightarrow> 'b) \<Rightarrow> 'b list \<Rightarrow> 'b list" where
  "on_last f xs = (if xs = [] then [] else butlast xs @ [f (last xs)])"

text \<open>A check of \<open>wait_for_online\<close>, after which it parks until connectivity changes.\<close>

definition seen_round :: "nat \<Rightarrow> 'v client \<Rightarrow> wait_round" where
  "seen_round i c =
     \<lparr>wr_cancelled = token_cancelled i c, wr_online = OnlineManager_is_online (cl_online c), wr_parked = ParkChanged\<rparr>"

definition note_wait :: "nat \<Rightarrow> 'v client \<Rightarrow> 'v attempt_env \<Rightarrow> 'v attempt_env" where
  "note_wait i c e = e\<lparr>ae_cancelled_after := token_cancelled i c, ae_post := (\<lambda>_. c)\<rparr>"

definition note_head :: "nat \<Rightarrow> 'v client \<Rightarrow> 'v attempt_env list \<Rightarrow> 'v attempt_env list" where
  "note_head i c envs = (if token_cancelled i c then envs @ [calm_pass\<lparr>ae_cancelled := True\<rparr>] else envs)"

fun note_poll ::
  "('v dynval \<Rightarrow> 'v dynval \<Rightarrow> bool) \<Rightarrow> nat \<Rightarrow> 'v fetch_phase \<Rightarrow> 'v wakeup \<Rightarrow> 'v client
   \<Rightarrow> 'v attempt_env list \<Rightarrow> 'v attempt_env list" where
  "note_poll peq i FtNew Resume c envs = note_head i c envs"
| "note_poll peq i (FtSleeping errs) Resume c envs = note_head i c (on_last (\<lambda>e. e\<lparr>ae_post := (\<lambda>_. c)\<rparr>) envs)"
| "note_poll peq i (FtFetching errs) (FetchDone r now ops) c envs =
     envs @ [note_wait i c (calm_pass\<lparr>ae_during := (\<lambda>_. c), ae_race := Some r, ae_now := now,
                              ae_between := fold (client_step peq) (filter public_op ops), ae_wait := [seen_round i c]\<rparr>)]"
| "note_poll peq i (FtFetching errs) (FetchPanics m) c envs =
     envs @ [calm_pass\<lparr>ae_during := (\<lambda>_. c), ae_panic := Some m\<rparr>]"
| "note_poll peq i (FtFetching errs) TokenFired c envs =
     (if token_cancelled i c then envs @ [calm_pass\<lparr>ae_during := (\<lambda>_. c)\<rparr>] else envs)"
| "note_poll peq i (FtOffline errs) Resume c envs =
     on_last (\<lambda>e. note_wait i c (e\<lparr>ae_wait := ae_wait e @ [seen_round i c]\<rparr>)) envs"
| "note_poll peq i (FtOffline errs) WatchClosed c envs =
     on_last (\<lambda>e. note_wait i c (e\<lparr>ae_wait := on_last (\<lambda>r. r\<lparr>wr_parked := ParkClosed\<rparr>) (ae_wait e)\<rparr>)) envs"
| "note_poll peq i ph w c envs = envs"

text \<open>The client of the first poll of task \<open>i\<close>, once there is one, and its script so far.\<close>

type_synonym 'v observation = "'v client option \<times> 'v attempt_env list"

definition note_event ::
  "('v dynval \<Rightarrow> 'v dynval \<Rightarrow> bool) \<Rightarrow> nat \<Rightarrow> 'v fetch_event \<Rightarrow> 'v fetch_system \<Rightarrow> 'v observation \<Rightarrow> 'v observation" where
  "note_event peq i e s obs =
     (case e of
        PollFetch j w \<Rightarrow>
          (let ph = ft_phase (fs_tasks s ! i) in
           if j = i \<and> i < length (fs_tasks s) \<and> phase_live ph \<and> i \<notin> set (cl_aborted (fs_client s))
           then (if ph = FtNew \<and> w = Resume then Some (fs_client s) else fst obs, note_poll peq i ph w (fs_client s) (snd obs))
           else obs)
      | _ \<Rightarrow> obs)"

fun observed ::
  "('v dynval \<Rightarrow> 'v dynval \<Rightarrow> bool) \<Rightarrow> nat \<Rightarrow> 'v fetch_event list \<Rightarrow> 'v fetch_system \<Rightarrow> 'v observation \<Rightarrow> 'v observation" where
  "observed peq i [] s obs = obs"
| "observed peq i (e # es) s obs = observed peq i es (fs_step peq e s) (note_event peq i e s obs)"

lemma on_last_snoc [simp]: "on_last f (xs @ [x]) = xs @ [f x]"
  by (simp add: on_last_def)

lemma observed_snoc: "observed peq i (es @ [e]) s obs = note_event peq i e (fs_run peq es s) (observed peq i es s obs)"
  by (induction es arbitrary: s obs) (simp_all add: fs_run_def)

subsection \<open>Every interleaved fetch follows its script\<close>

text \<open>The script \<open>envs\<close> leads from the client \<open>c0\<close> to the head of pass \<open>n\<close> with the client \<open>c\<close>.\<close>

definition replays ::
  "('v dynval \<Rightarrow> 'v dynval \<Rightarrow> bool) \<Rightarrow> type_id \<Rightarrow> 'v query \<Rightarrow> 'v client \<Rightarrow> 'v attempt_env list \<Rightarrow> nat \<Rightarrow> 'v client \<Rightarrow> bool" where
  "replays peq ty q c0 envs n c \<longleftrightarrow> (\<exists>ds. \<forall>now rest.
     execute_query_inner peq ty False now [] (envs @ rest) q c0
     = map_option (\<lambda>(r, c', ds'). (r, c', ds @ ds')) (fetch_loop peq ty q n rest c))"

text \<open>A pass that failed with a retryable error and has not got over its pause.\<close>

definition retryable_pass :: "'v query \<Rightarrow> nat \<Rightarrow> 'v attempt_env \<Rightarrow> bool" where
  "retryable_pass q n env \<longleftrightarrow> \<not> ae_cancelled env \<and> \<not> ae_cancelled_before env \<and> ae_panic env = None
     \<and> (\<exists>e. ae_race env = Some (Inl e) \<and> \<not> is_cancelled e
          \<and> RetryDecision_should_retry (Count (max_retries (retry (q_options q)))) e n \<and> retryable_error e)"

definition stalled :: "'v query \<Rightarrow> 'v attempt_env \<Rightarrow> bool" where
  "stalled q env \<longleftrightarrow> (\<forall>ch. \<not> can_retry (net_mode (q_options q)) (OnlineManager_is_online (cl_online (ae_during env ch))))
     \<and> ae_wait env \<noteq> [] \<and> (\<forall>r\<in>set (ae_wait env). \<not> wr_cancelled r \<and> \<not> can_retry (net_mode (q_options q)) (wr_online r)
          \<and> wr_parked r = ParkChanged)"

fun phase_ok ::
  "('v dynval \<Rightarrow> 'v dynval \<Rightarrow> bool) \<Rightarrow> type_id \<Rightarrow> 'v query \<Rightarrow> 'v observation \<Rightarrow> 'v fetch_phase \<Rightarrow> bool" where
  "phase_ok peq ty q obs FtNew = (obs = (None, []))"
| "phase_ok peq ty q obs (FtFetching errs) = (\<exists>c0 c. fst obs = Some c0 \<and> replays peq ty q c0 (snd obs) (length errs) c)"
| "phase_ok peq ty q obs (FtSleeping errs) = (\<exists>c0 envs env c1. obs = (Some c0, envs @ [env\<lparr>ae_post := (\<lambda>_. c1)\<rparr>])
     \<and> (\<forall>c. replays peq ty q c0 (envs @ [env\<lparr>ae_post := (\<lambda>_. c)\<rparr>]) (length errs) c))"
| "phase_ok peq ty q obs (FtOffline errs) = (\<exists>c0 envs env c n. obs = (Some c0, envs @ [env]) \<and> length errs = Suc n
     \<and> replays peq ty q c0 envs n c \<and> retryable_pass q n env \<and> stalled q env)"
| "phase_ok peq ty q obs ph = True"

definition poll_ok ::
  "('v dynval \<Rightarrow> 'v dynval \<Rightarrow> bool) \<Rightarrow> type_id \<Rightarrow> 'v query \<Rightarrow> 'v observation \<Rightarrow> 'v fetch_phase \<times> 'v client \<Rightarrow> bool" where
  "poll_ok peq ty q obs r =
     (case fst r of
        FtEnded errs st \<Rightarrow> \<exists>c0. fst obs = Some c0 \<and> (\<forall>now. spawned_task peq ty now (snd obs) q c0 = Some (st, snd r))
      | ph \<Rightarrow> phase_ok peq ty q obs ph)"

text \<open>The last pass of a script ends the task.\<close>

lemma replays_end:
  assumes "replays peq ty q c0 envs n c" "fetch_loop peq ty q n [env] c = Some (r, c1, ds)"
  shows "poll_ok peq ty q (Some c0, envs @ [env]) (fetch_end ty q errs (r, c1))"
proof -
  have "spawned_task peq ty now (envs @ [env]) q c0 = Some (spawned_state ty q (r, c1), dec_fetching (clear_in_flight (q_key q) c1))" for now
    using assms by (auto simp: replays_def spawned_task_def simp del: fetch_loop.simps)
  then show ?thesis by (simp add: poll_ok_def fetch_end_def FetchingGuard_drop_def)
qed

lemma replays_waits:
  assumes "replays peq ty q c0 envs n c" "fetch_loop peq ty q n rest c = None"
  shows "spawned_task peq ty now (envs @ rest) q c0 = None"
  using assms by (auto simp: replays_def spawned_task_def simp del: fetch_loop.simps)

text \<open>A retried failure leads to the next head.\<close>

lemma retry_pass:
  assumes "retryable_pass q n env" "retry_pause q env (ae_during env ch) = Some b"
  shows "fetch_loop peq ty q n (env # rest) ch =
     (let c = ae_post env (ae_during env ch)
      in if b then Some (cancelled_state ty q c, c, [])
         else map_option (\<lambda>(r, c1, ds). (r, c1, delay_for (retry (q_options q)) n # ds)) (fetch_loop peq ty q (n + 1) rest c))"
  using assms by (auto simp: retryable_pass_def cancellable_fetch_def Let_def)

lemma next_replays:
  assumes "replays peq ty q c0 envs n ch" "retryable_pass q n env" "retry_pause q env (ae_during env ch) = Some False"
    "ae_post env = (\<lambda>_. c)"
  shows "replays peq ty q c0 (envs @ [env]) (Suc n) c"
proof -
  obtain ds where ds: "\<forall>now rest. execute_query_inner peq ty False now [] (envs @ rest) q c0
     = map_option (\<lambda>(r, c', ds'). (r, c', ds @ ds')) (fetch_loop peq ty q n rest ch)"
    using assms(1) by (auto simp: replays_def)
  have "execute_query_inner peq ty False now [] ((envs @ [env]) @ rest) q c0
     = map_option (\<lambda>(r, c', ds'). (r, c', (ds @ [delay_for (retry (q_options q)) n]) @ ds')) (fetch_loop peq ty q (Suc n) rest c)" for now rest
    using ds [rule_format, of now "env # rest"] assms(4) unfolding retry_pass [OF assms(2,3)]
    by (cases "fetch_loop peq ty q (Suc n) rest c") (auto simp del: fetch_loop.simps)
  then show ?thesis unfolding replays_def by blast
qed

lemma wait_stalled:
  "\<forall>r\<in>set ws. \<not> wr_cancelled r \<and> \<not> can_retry mode (wr_online r) \<and> wr_parked r = ParkChanged \<Longrightarrow>
   wait_for_online mode (ws @ rs) = wait_for_online mode rs"
  by (induction ws) simp_all

lemma stalled_pause:
  assumes "stalled q env"
  shows "retry_pause q (note_wait i c (env\<lparr>ae_wait := ws\<rparr>)) (ae_during env ch)
     = map_option (\<lambda>_. token_cancelled i c) (wait_for_online (net_mode (q_options q)) ws)"
  using assms by (simp add: retry_pause_def stalled_def note_wait_def)

lemma stalled_waits:
  assumes "stalled q env" "retryable_pass q n env"
  shows "fetch_loop peq ty q n [env] ch = None"
proof -
  have "retry_pause q env (ae_during env ch) = None"
    using assms(1) wait_stalled [of "ae_wait env" "net_mode (q_options q)" "[]"] by (simp add: retry_pause_def stalled_def)
  then show ?thesis using assms(2) by (auto simp: retryable_pass_def cancellable_fetch_def)
qed

lemma phase_waits:
  assumes "phase_ok peq ty q obs ph" "phase_live ph" "ph \<noteq> FtNew"
  shows "\<exists>c0. fst obs = Some c0 \<and> (\<forall>now. spawned_task peq ty now (snd obs) q c0 = None)"
proof (cases ph)
  case (FtFetching errs)
  then show ?thesis using assms(1) replays_waits [of peq ty q _ "snd obs" "length errs" _ "[]"] by auto
next
  case (FtOffline errs)
  then obtain c0 envs env c n where "obs = (Some c0, envs @ [env])" "replays peq ty q c0 envs n c" "retryable_pass q n env" "stalled q env"
    using assms(1) by auto
  then show ?thesis using replays_waits [of peq ty q c0 envs n c "[env]"] stalled_waits [of q env n] by simp
next
  case (FtSleeping errs)
  then obtain c0 envs env c1 where "obs = (Some c0, envs @ [env\<lparr>ae_post := (\<lambda>_. c1)\<rparr>])"
    "replays peq ty q c0 (envs @ [env\<lparr>ae_post := (\<lambda>_. c1)\<rparr>]) (length errs) c1" using assms(1) by auto
  then show ?thesis using replays_waits [of peq ty q c0 _ "length errs" c1 "[]"] by simp
qed (use assms in simp_all)

text \<open>The polls, one await point after the other.\<close>

lemma head_ok:
  assumes "replays peq ty q c0 envs (length errs) c" "token_cancelled i c' = token_cancelled i c"
  shows "poll_ok peq ty q (Some c0, note_head i c' envs) (loop_head ty q i errs c)"
  using replays_end [OF assms(1), of "calm_pass\<lparr>ae_cancelled := True\<rparr>"] assms
  by (auto simp: loop_head_def note_head_def poll_ok_def)

lemma start_ok: "poll_ok peq ty q (Some c, note_head i c []) (fetch_poll peq ty q i Resume FtNew c)"
proof (cases "client_is_restoring c \<or> \<not> can_fetch (net_mode (q_options q)) (OnlineManager_is_online (cl_online c))")
  case True
  then show ?thesis
    by (auto simp: poll_ok_def fetch_end_def spawned_task_def execute_query_inner_def FetchingGuard_drop_def Let_def OnlineManager_is_online_def)
next
  case False
  let ?c = "notify_subscribers (cache_key (q_key q)) V_Loading c"
  have "replays peq ty q c [] 0 ?c"
    using False by (auto simp: replays_def execute_query_inner_def Let_def OnlineManager_is_online_def option.map_id intro!: exI [of _ "[]"])
  moreover have "token_cancelled i c = token_cancelled i ?c" by (simp add: token_cancelled_def)
  ultimately show ?thesis using False head_ok [of peq ty q c "[]" "[]" ?c i c] by (simp add: OnlineManager_is_online_def Let_def)
qed

lemma failed_ok:
  assumes h: "replays peq ty q c0 envs (length errs) ch"
  shows "poll_ok peq ty q (Some c0, note_poll peq i (FtFetching errs) (FetchDone (Inl e) now ops) c envs) (fetch_failed ty q i errs e c)"
proof -
  let ?env = "note_wait i c (calm_pass\<lparr>ae_during := (\<lambda>_. c), ae_race := Some (Inl e), ae_now := now,
     ae_between := fold (client_step peq) (filter public_op ops), ae_wait := [seen_round i c]\<rparr>)"
  let ?mode = "net_mode (q_options q)" and ?on = "OnlineManager_is_online (cl_online c)"
  note env_defs = note_wait_def calm_pass_def seen_round_def
  show ?thesis
  proof (cases "\<not> is_cancelled e \<and> RetryDecision_should_retry (Count (max_retries (retry (q_options q)))) e (length errs) \<and> retryable_error e")
    case True
    then have r: "retryable_pass q (length errs) (?env\<lparr>ae_post := p\<rparr>)" for p by (simp add: retryable_pass_def env_defs)
    have r0: "retryable_pass q (length errs) ?env" using True by (simp add: retryable_pass_def env_defs)
    consider "can_retry ?mode ?on" | "\<not> can_retry ?mode ?on" "token_cancelled i c" | "\<not> can_retry ?mode ?on" "\<not> token_cancelled i c" by blast
    then show ?thesis
    proof cases
      case 1
      then have pause: "retry_pause q (?env\<lparr>ae_post := p\<rparr>) (ae_during (?env\<lparr>ae_post := p\<rparr>) ch) = Some False" for p
        by (simp add: retry_pause_def env_defs)
      have "replays peq ty q c0 (envs @ [?env\<lparr>ae_post := (\<lambda>_. c')\<rparr>]) (Suc (length errs)) c'" for c'
        by (rule next_replays [OF h r pause]) simp
      moreover have "?env = ?env\<lparr>ae_post := (\<lambda>_. c)\<rparr>" by (simp add: note_wait_def)
      ultimately have "phase_ok peq ty q (Some c0, envs @ [?env]) (FtSleeping (errs @ [e]))" by force
      then show ?thesis using 1 True by (simp add: fetch_failed_def poll_ok_def)
    next
      case 2
      then have "retry_pause q ?env (ae_during ?env ch) = Some True" by (simp add: retry_pause_def env_defs)
      from retry_pass [OF r0 this, of peq ty "[]"] have "fetch_loop peq ty q (length errs) [?env] ch = Some (cancelled_state ty q c, c, [])"
        by (simp add: note_wait_def calm_pass_def Let_def del: fetch_loop.simps)
      from replays_end [OF h this, of errs] show ?thesis using 2 True by (simp add: fetch_failed_def)
    next
      case 3
      then have "stalled q ?env" by (simp add: stalled_def env_defs)
      then have "phase_ok peq ty q (Some c0, envs @ [?env]) (FtOffline (errs @ [e]))" using h r0 by auto
      then show ?thesis using 3 True by (simp add: fetch_failed_def poll_ok_def)
    qed
  next
    case False
    then show ?thesis
      using replays_end [OF h, of ?env] by (auto simp: fetch_failed_def env_defs cancellable_fetch_def Let_def)
  qed
qed

lemma fetching_ok:
  assumes h: "replays peq ty q c0 envs (length errs) ch"
  shows "poll_ok peq ty q (Some c0, note_poll peq i (FtFetching errs) w c envs) (fetch_poll peq ty q i w (FtFetching errs) c)"
proof (cases w)
  case (FetchDone r now ops)
  show ?thesis
  proof (cases r)
    case (Inl e)
    then show ?thesis using FetchDone failed_ok [OF h] by simp
  next
    case (Inr d)
    then show ?thesis
      using FetchDone replays_end [OF h]
      by (auto simp: fetch_stored_def calm_pass_def note_wait_def cancellable_fetch_def store_result_def Let_def split: option.splits)
  qed
next
  case (FetchPanics m)
  then show ?thesis using replays_end [OF h] by (simp add: calm_pass_def)
next
  case TokenFired
  have "fetch_loop peq ty q (length errs) [calm_pass\<lparr>ae_during := (\<lambda>_. c)\<rparr>] ch = Some (cancelled_state ty q c, c, [])"
    by (simp add: calm_pass_def cancellable_fetch_def QueryError_cancelled_def)
  from replays_end [OF h this, of errs] show ?thesis using TokenFired h by (auto simp: poll_ok_def [of _ _ _ "(_, envs)"])
qed (use h in \<open>auto simp: poll_ok_def\<close>)

text \<open>A wait for connectivity that is over: the token decides.\<close>

lemma waited_ok:
  assumes h: "replays peq ty q c0 envs n ch" "retryable_pass q n env" "stalled q env" "length errs = Suc n"
    and over: "wait_for_online (net_mode (q_options q)) ws = Some ()"
  shows "poll_ok peq ty q (Some c0, envs @ [note_wait i c (env\<lparr>ae_wait := ws\<rparr>)])
     (if token_cancelled i c then fetch_end ty q (butlast errs) (cancelled_state ty q c, c) else (FtSleeping errs, c))"
proof -
  let ?env = "note_wait i c (env\<lparr>ae_wait := ws\<rparr>)"
  have r: "retryable_pass q n (?env\<lparr>ae_post := p\<rparr>)" for p using h(2) by (simp add: retryable_pass_def note_wait_def)
  have pause: "retry_pause q (?env\<lparr>ae_post := p\<rparr>) (ae_during (?env\<lparr>ae_post := p\<rparr>) ch) = Some (token_cancelled i c)" for p
    using stalled_pause [OF h(3), of i c ws ch] over by (simp add: retry_pause_def note_wait_def split: if_splits)
  have same: "?env = ?env\<lparr>ae_post := (\<lambda>_. c)\<rparr>" by (simp add: note_wait_def)
  show ?thesis
  proof (cases "token_cancelled i c")
    case True
    then have "fetch_loop peq ty q n [?env\<lparr>ae_post := (\<lambda>_. c)\<rparr>] ch = Some (cancelled_state ty q c, c, [])"
      using retry_pass [OF r [of "\<lambda>_. c"] pause, where rest = "[]"] by (simp add: Let_def del: fetch_loop.simps)
    from replays_end [OF h(1) this, of "butlast errs"] show ?thesis using True same by simp
  next
    case False
    have "replays peq ty q c0 (envs @ [?env\<lparr>ae_post := (\<lambda>_. c')\<rparr>]) (length errs) c'" for c'
      unfolding h(4) by (rule next_replays [OF h(1) r]) (use pause [of "\<lambda>_. c'"] False in simp_all)
    then have "phase_ok peq ty q (Some c0, envs @ [?env]) (FtSleeping errs)" using same by force
    then show ?thesis using False by (simp add: poll_ok_def)
  qed
qed

lemma offline_ok:
  assumes "phase_ok peq ty q obs (FtOffline errs)"
  shows "poll_ok peq ty q (fst obs, note_poll peq i (FtOffline errs) w c (snd obs)) (fetch_poll peq ty q i w (FtOffline errs) c)"
proof -
  obtain c0 envs env ch n where o: "obs = (Some c0, envs @ [env])" "length errs = Suc n"
    "replays peq ty q c0 envs n ch" "retryable_pass q n env" "stalled q env" using assms by auto
  let ?mode = "net_mode (q_options q)"
  have ws: "\<forall>r\<in>set (ae_wait env). \<not> wr_cancelled r \<and> \<not> can_retry ?mode (wr_online r) \<and> wr_parked r = ParkChanged" "ae_wait env \<noteq> []"
    using o(5) by (simp_all add: stalled_def)
  note over = waited_ok [OF o(3,4,5,2)]
  show ?thesis
  proof (cases w)
    case Resume
    let ?ws = "ae_wait env @ [seen_round i c]"
    show ?thesis
    proof (cases "token_cancelled i c \<or> can_retry ?mode (OnlineManager_is_online (cl_online c))")
      case True
      then have "wait_for_online ?mode ?ws = Some ()" unfolding wait_stalled [OF ws(1)] by (auto simp: seen_round_def)
      from over [OF this, of i c] show ?thesis using True Resume o(1) by (auto split: if_splits)
    next
      case False
      then have "stalled q (note_wait i c (env\<lparr>ae_wait := ?ws\<rparr>))" "retryable_pass q n (note_wait i c (env\<lparr>ae_wait := ?ws\<rparr>))"
        using o(4,5) by (auto simp: stalled_def retryable_pass_def note_wait_def seen_round_def)
      then have "phase_ok peq ty q (Some c0, envs @ [note_wait i c (env\<lparr>ae_wait := ?ws\<rparr>)]) (FtOffline errs)" using o(2,3) by auto
      then show ?thesis using False Resume o(1) by (simp add: poll_ok_def)
    qed
  next
    case WatchClosed
    obtain rs r where rs: "ae_wait env = rs @ [r]" using ws(2) by (metis rev_exhaust)
    have "wait_for_online ?mode (on_last (\<lambda>r. r\<lparr>wr_parked := ParkClosed\<rparr>) (ae_wait env)) = Some ()"
      using ws(1) wait_stalled [of rs ?mode "[r\<lparr>wr_parked := ParkClosed\<rparr>]"] by (simp add: rs)
    from over [OF this, of i c] show ?thesis using WatchClosed o(1) by simp
  qed (use assms o(1) in \<open>simp_all add: poll_ok_def\<close>)
qed

lemma sleeping_ok:
  assumes "phase_ok peq ty q obs (FtSleeping errs)"
  shows "poll_ok peq ty q (fst obs, note_poll peq i (FtSleeping errs) w c (snd obs)) (fetch_poll peq ty q i w (FtSleeping errs) c)"
proof (cases "w = Resume")
  case True
  then show ?thesis using assms head_ok [of peq ty q _ _ errs c i c] by auto
next
  case False
  then show ?thesis using assms by (cases w) (simp_all add: poll_ok_def)
qed

lemma next_poll_ok:
  assumes "phase_ok peq ty q obs ph" "phase_live ph"
  shows "poll_ok peq ty q (if ph = FtNew \<and> w = Resume then Some c else fst obs, note_poll peq i ph w c (snd obs))
     (fetch_poll peq ty q i w ph c)"
proof (cases ph)
  case FtNew
  then show ?thesis using assms(1) start_ok [of peq ty q c i] by (cases w) (auto simp: poll_ok_def)
next
  case (FtFetching errs)
  then show ?thesis using assms(1) fetching_ok [of peq ty q _ "snd obs" errs] by auto
next
  case (FtOffline errs)
  then show ?thesis using assms(1) offline_ok [of peq ty q obs errs i w c] by simp
next
  case (FtSleeping errs)
  then show ?thesis using assms(1) sleeping_ok [of peq ty q obs errs i w c] by simp
qed (use assms in simp_all)

text \<open>One event of the system, seen from task \<open>i\<close>.\<close>

lemma fs_run_snoc: "fs_run peq (es @ [e]) s = fs_step peq e (fs_run peq es s)"
  by (simp add: fs_run_def)

definition task_at :: "nat \<Rightarrow> type_id \<Rightarrow> 'v query \<Rightarrow> 'v fetch_system \<Rightarrow> bool" where
  "task_at i ty q s \<longleftrightarrow> i < length (fs_tasks s) \<and> ft_ty (fs_tasks s ! i) = ty \<and> ft_query (fs_tasks s ! i) = q"

lemma task_at_step: "task_at i ty q s \<Longrightarrow> task_at i ty q (fs_step peq e s)"
  by (cases e) (auto simp: task_at_def spawn_fetch_def register_fetch_def poll_fetch_def abort_fetch_def Let_def nth_append nth_list_update
      split: prod.splits)

lemma event_ok:
  fixes e :: "'v fetch_event" and s :: "'v fetch_system"
  assumes "task_at i ty q s" "phase_ok peq ty q obs (ft_phase (fs_tasks s ! i))" "task_live (fs_tasks s ! i)"
  defines "s' \<equiv> fs_step peq e s"
  shows "poll_ok peq ty q (note_event peq i e s obs) (ft_phase (fs_tasks s' ! i), fs_client s')"
    "ft_phase (fs_tasks s' ! i) = FtDropped \<longrightarrow> (\<exists>w. e = PollFetch i w) \<and> i \<in> set (cl_aborted (fs_client s))"
proof -
  let ?ph = "ft_phase (fs_tasks s ! i)"
  have i: "i < length (fs_tasks s)" "ft_ty (fs_tasks s ! i) = ty" "ft_query (fs_tasks s ! i) = q" "phase_live ?ph"
    using assms(1,3) by (simp_all add: task_at_def task_live_def)
  have same: "poll_ok peq ty q obs (?ph, c)" for c using assms(2) i(4) by (cases ?ph) (simp_all add: poll_ok_def)
  have "poll_ok peq ty q (note_event peq i e s obs) (ft_phase (fs_tasks s' ! i), fs_client s')
    \<and> (ft_phase (fs_tasks s' ! i) = FtDropped \<longrightarrow> (\<exists>w. e = PollFetch i w) \<and> i \<in> set (cl_aborted (fs_client s)))"
  proof (cases "\<exists>w. e = PollFetch i w")
    case True
    then obtain w where w: "e = PollFetch i w" by blast
    show ?thesis
    proof (cases "i \<in> set (cl_aborted (fs_client s))")
      case True
      then have "ft_phase (fs_tasks s' ! i) = FtDropped" using i w assms(3) by (simp add: s'_def poll_fetch_def Let_def)
      then show ?thesis using w True by (simp add: poll_ok_def)
    next
      case False
      obtain ph c where r: "fetch_poll peq ty q i w ?ph (fs_client s) = (ph, c)" by fastforce
      then have "ft_phase (fs_tasks s' ! i) = ph" "fs_client s' = c"
        using i w False assms(3) by (simp_all add: s'_def poll_fetch_def Let_def)
      moreover have "poll_ok peq ty q (note_event peq i e s obs) (ph, c)"
        using next_poll_ok [OF assms(2) i(4), of w "fs_client s" i] i w False r by (simp add: note_event_def Let_def)
      moreover have "ph \<noteq> FtDropped" using fetch_poll_not_dropped [OF i(4)] r by (metis fst_conv)
      ultimately show ?thesis by simp
    qed
  next
    case False
    then have "ft_phase (fs_tasks s' ! i) = ?ph"
      using i by (cases e) (auto simp: s'_def spawn_fetch_def register_fetch_def poll_fetch_def abort_fetch_def Let_def nth_append nth_list_update
          split: prod.splits)
    moreover have "note_event peq i e s obs = obs" using False by (auto simp: note_event_def split: fetch_event.split)
    ultimately show ?thesis using same i(4) by auto
  qed
  then show "poll_ok peq ty q (note_event peq i e s obs) (ft_phase (fs_tasks s' ! i), fs_client s')"
    "ft_phase (fs_tasks s' ! i) = FtDropped \<longrightarrow> (\<exists>w. e = PollFetch i w) \<and> i \<in> set (cl_aborted (fs_client s))" by simp_all
qed

lemma run_phase_ok:
  assumes "task_at i ty q s" "ft_phase (fs_tasks s ! i) = FtNew"
  shows "task_at i ty q (fs_run peq es s)
     \<and> (task_live (fs_tasks (fs_run peq es s) ! i) \<longrightarrow>
          phase_ok peq ty q (observed peq i es s (None, [])) (ft_phase (fs_tasks (fs_run peq es s) ! i)))"
proof (induction es rule: rev_induct)
  case Nil
  then show ?case using assms by (simp add: fs_run_def)
next
  case (snoc e es)
  let ?s = "fs_run peq es s"
  show ?case
  proof (cases "task_live (fs_tasks ?s ! i)")
    case True
    from event_ok(1) [of i ty q ?s peq "observed peq i es s (None, [])", OF _ _ True, of e] snoc.IH True
    have "poll_ok peq ty q (observed peq i (es @ [e]) s (None, [])) (ft_phase (fs_tasks (fs_run peq (es @ [e]) s) ! i), fs_client (fs_run peq (es @ [e]) s))"
      by (simp add: observed_snoc fs_run_snoc)
    then show ?thesis
      using snoc.IH task_at_step [of i ty q ?s peq e]
      by (cases "ft_phase (fs_tasks (fs_run peq (es @ [e]) s) ! i)") (simp_all add: poll_ok_def fs_run_snoc task_live_def)
  next
    case False
    then have "\<not> task_live (fs_tasks (fs_run peq (es @ [e]) s) ! i)"
      using snoc.IH by (cases e) (auto simp: fs_run_snoc task_at_def spawn_fetch_def register_fetch_def poll_fetch_def abort_fetch_def Let_def
          nth_append nth_list_update task_live_def split: prod.splits)
    then show ?thesis using snoc.IH task_at_step [of i ty q ?s peq e] by (simp add: fs_run_snoc)
  qed
qed

text \<open>
  C9. The interleaved fetches implement the executions on which the other theories build. Every run of
  the system writes, for each of its fetches, the script of what that fetch met at its polls: the
  answers of the fetch function, the clients found, the connectivity and the token at each check. The
  fetch follows its script, poll by poll: it still waits exactly as long as the task of
  \<open>spawn_query\<close>, started on the client of its first poll, still waits on the script so far; the
  poll that ends it is the one whose entry ends that task, with the same state sent and the same
  client left; and only a poll after an abort drops it.
\<close>

theorem interleaved_fetch_executes:
  assumes "i < length (fs_tasks s)" and "ft_phase (fs_tasks s ! i) = FtNew"
    and "task_live (fs_tasks (fs_run peq es s) ! i)"
    and "observed peq i (es @ [e]) s (None, []) = (start, envs)" and "s' = fs_run peq (es @ [e]) s"
    and "ty = ft_ty (fs_tasks s ! i)" and "q = ft_query (fs_tasks s ! i)"
  shows "case ft_phase (fs_tasks s' ! i) of
      FtNew \<Rightarrow> start = None
    | FtEnded errs st \<Rightarrow> \<exists>c0. start = Some c0 \<and> (\<forall>now. spawned_task peq ty now envs q c0 = Some (st, fs_client s'))
    | FtDropped \<Rightarrow> (\<exists>w. e = PollFetch i w) \<and> i \<in> set (cl_aborted (fs_client (fs_run peq es s)))
    | _ \<Rightarrow> \<exists>c0. start = Some c0 \<and> (\<forall>now. spawned_task peq ty now envs q c0 = None)"
proof -
  have t: "task_at i ty q s" using assms(1,6,7) by (simp add: task_at_def)
  note run = run_phase_ok [OF t assms(2), of peq es]
  have ev: "poll_ok peq ty q (start, envs) (ft_phase (fs_tasks s' ! i), fs_client s')"
    "ft_phase (fs_tasks s' ! i) = FtDropped \<longrightarrow> (\<exists>w. e = PollFetch i w) \<and> i \<in> set (cl_aborted (fs_client (fs_run peq es s)))"
    using event_ok [of i ty q "fs_run peq es s" peq "observed peq i es s (None, [])" e] run assms(3-5)
    by (simp_all add: observed_snoc fs_run_snoc)
  then show ?thesis
    using phase_waits [of peq ty q "(start, envs)" "ft_phase (fs_tasks s' ! i)"]
    by (cases "ft_phase (fs_tasks s' ! i)") (simp_all add: poll_ok_def)
qed

subsection \<open>Witnesses\<close>

lemma counter_frame:
  "cl_online (inc_fetching c) = cl_online c" "cl_cancelled (inc_fetching c) = cl_cancelled c" "cl_aborted (inc_fetching c) = cl_aborted c"
  "cl_is_restoring (inc_fetching c) = cl_is_restoring c" "cl_in_flight (inc_fetching c) = cl_in_flight c"
  by (simp_all add: inc_fetching_def send_activity_def Let_def)

lemma register_frame:
  "cl_online (set_in_flight key t c) = cl_online c" "cl_cancelled (set_in_flight key t c) = cl_cancelled c"
  "cl_aborted (set_in_flight key t c) = cl_aborted c" "cl_is_restoring (set_in_flight key t c) = cl_is_restoring c"
  "cl_in_flight (set_in_flight key t c) = dm_insert (cache_key key) t (cl_in_flight c)"
  by (simp_all add: set_in_flight_def)

definition demo_query :: "nat query" where
  "demo_query = Query_new (QueryKey_new ''k'')"

definition demo_fetches :: "nat fetch_event list" where
  "demo_fetches = [SpawnQuery (T_Other 0) demo_query, RegisterFetch 0, PollFetch 0 Resume]"

definition demo_loading :: "nat client \<Rightarrow> nat client" where
  "demo_loading c = notify_subscribers ''k'' V_Loading c"

lemma demo_query_key: "cache_key (QueryKey_new ''k'') = ''k''" "q_key demo_query = QueryKey_new ''k''"
  by (simp_all add: demo_query_def Query_new_def QueryKey_new_def)

lemma demo_client_start:
  "cl_in_flight QueryClient_new = []" "cl_cancelled QueryClient_new = []" "cl_aborted QueryClient_new = []"
  "cl_fetching_count QueryClient_new = 0" "cl_is_restoring QueryClient_new = False" "om_online (cl_online QueryClient_new)"
  by (simp_all add: QueryClient_new_def OnlineManager_new_def)

lemma demo_mode: "net_mode (q_options demo_query) = Online"
  by (simp add: demo_query_def Query_new_def QueryOptions_default_def)

lemmas demo_steps = fs_run_def fs_start_def spawn_fetch_def register_fetch_def poll_fetch_def spawn_query_init_def client_is_restoring_def
  loop_head_def token_cancelled_def task_live_def demo_client_start counter_frame register_frame demo_query_key demo_mode
  OnlineManager_is_online_def Let_def

lemma demo_fetches_run:
  "fs_run (=) demo_fetches (fs_start QueryClient_new) =
     \<lparr>fs_client = demo_loading (set_in_flight (QueryKey_new ''k'') \<lparr>if_abort = 0, if_cancel_token = 0\<rparr> (inc_fetching QueryClient_new)),
      fs_tasks = [\<lparr>ft_ty = T_Other 0, ft_query = demo_query, ft_registered = True, ft_phase = FtFetching []\<rparr>]\<rparr>"
  by (simp add: demo_fetches_def demo_steps demo_loading_def can_fetch.simps)

theorem fetching_count_exact_witness:
  "cl_fetching_count (fs_client (fs_run (=) demo_fetches (fs_start QueryClient_new))) = of_nat 1
   \<and> is_fetching (fs_client (fs_run (=) demo_fetches (fs_start QueryClient_new)))"
  using fetching_count_exact [of "QueryClient_new :: nat client" _ "(=)" demo_fetches, OF demo_client_start(1-3) refl]
  by (simp add: demo_fetches_run live_tasks_def task_live_def demo_client_start)

definition demo_spawned :: "nat fetch_system" where
  "demo_spawned = fs_run (=) [SpawnQuery (T_Other 0) demo_query] (fs_start QueryClient_new)"

lemma demo_spawned_run:
  "demo_spawned = \<lparr>fs_client = inc_fetching QueryClient_new,
      fs_tasks = [\<lparr>ft_ty = T_Other 0, ft_query = demo_query, ft_registered = False, ft_phase = FtNew\<rparr>]\<rparr>"
  by (simp add: demo_spawned_def demo_steps)

definition demo_retry :: "nat fetch_event list" where
  "demo_retry = [RegisterFetch 0, PollFetch 0 Resume, PollFetch 0 (FetchDone (Inl (Network ''x'')) 0 []), PollFetch 0 Resume]"

theorem interleaved_fetch_executes_witness:
  "\<exists>c0 envs. observed (=) 0 (demo_retry @ [PollFetch 0 (FetchPanics PayloadOther)]) demo_spawned (None, []) = (Some c0, envs)
     \<and> map ae_race envs = [Some (Inl (Network ''x'')), None]
     \<and> spawned_task (=) (T_Other 0) 0 envs demo_query c0
       = Some (Error (QueryError_custom ''fetch panicked'') None,
               fs_client (fs_run (=) (demo_retry @ [PollFetch 0 (FetchPanics PayloadOther)]) demo_spawned))"
proof -
  let ?e = "PollFetch 0 (FetchPanics PayloadOther) :: nat fetch_event"
  have cache: "cl_cache (set_in_flight key t (inc_fetching QueryClient_new)) = []" for key t
    by (simp add: set_in_flight_def inc_fetching_def send_activity_def QueryClient_new_def Let_def)
  have task: "0 < length (fs_tasks demo_spawned)" "ft_phase (fs_tasks demo_spawned ! 0) = FtNew"
    "T_Other 0 = ft_ty (fs_tasks demo_spawned ! 0)" "demo_query = ft_query (fs_tasks demo_spawned ! 0)"
    by (simp_all add: demo_spawned_run)
  have budget: "max_retries (retry (q_options demo_query)) = 3"
    by (simp add: demo_query_def Query_new_def QueryOptions_default_def RetryConfig_default_def)
  have live: "task_live (fs_tasks (fs_run (=) demo_retry demo_spawned) ! 0)"
    and ended: "ft_phase (fs_tasks (fs_run (=) (demo_retry @ [?e]) demo_spawned) ! 0)
      = FtEnded [Network ''x''] (Error (QueryError_custom ''fetch panicked'') None)"
    using budget
    by (simp_all add: demo_spawned_run demo_retry_def demo_steps fetch_end_def fetch_failed_def spawned_state_def get_query_data_def cache)
  obtain start envs where o: "observed (=) 0 (demo_retry @ [?e]) demo_spawned (None, []) = (start, envs)" by fastforce
  have "map ae_race envs = [Some (Inl (Network ''x'')), None]"
    using o budget
    by (simp add: demo_spawned_run demo_retry_def demo_steps fetch_end_def fetch_failed_def note_event_def note_head_def on_last_def
        note_wait_def calm_pass_def) auto
  moreover note interleaved_fetch_executes [OF task(1,2) live o refl task(3,4), unfolded ended]
  ultimately show ?thesis using o by auto
qed

theorem cancelled_fetch_inert_witness:
  "\<exists>s s' s''. s = fs_run (=) demo_fetches (fs_start QueryClient_new)
     \<and> s' = fs_run (=) [SpawnQuery (T_Other 0) demo_query] (fs_step (=) (PublicOp (CO_Cancel (QueryKey_new ''k''))) s)
     \<and> s'' = fs_step (=) (PollFetch 0 (FetchDone (Inr (OtherV 0 1)) 0 [])) s'
     \<and> cl_cache (fs_client s'') = cl_cache (fs_client s') \<and> \<not> task_live (fs_tasks s'' ! 0)"
proof -
  let ?s = "fs_run (=) demo_fetches (fs_start (QueryClient_new :: nat client))" and ?t = "\<lparr>if_abort = 0, if_cancel_token = 0\<rparr>"
  have "dm_get (cl_in_flight (fs_client ?s)) ''k'' = Some ?t"
    by (simp add: demo_fetches_run demo_loading_def register_frame demo_query_key)
  moreover have "dm_get (cl_in_flight (client_step (=) (CO_Cancel (QueryKey_new ''k'')) (fs_client ?s))) ''k'' \<noteq> Some ?t"
    by (auto simp: cancel_query_def abort_in_flight_def demo_query_key split: option.splits)
  ultimately show ?thesis
    using cancelled_fetch_inert [OF demo_client_start(1-3) refl, where peq = "(=)" and es = demo_fetches and k = "''k''" and t = ?t
        and op = "CO_Cancel (QueryKey_new ''k'')" and es' = "[SpawnQuery (T_Other 0) demo_query]", OF _ _ _ refl refl]
    by simp
qed

theorem second_fetch_escapes_witness:
  "\<exists>s. s = fs_run (=) (demo_fetches @ [SpawnQuery (T_Other 0) demo_query, PollFetch 0 (FetchPanics PayloadOther)]) (fs_start QueryClient_new)
     \<and> task_live (fs_tasks s ! 1) \<and> dm_get (cl_in_flight (fs_client s)) (task_key (fs_tasks s ! 1)) = None"
proof -
  let ?s = "spawn_fetch (T_Other 0) demo_query (fs_run (=) demo_fetches (fs_start QueryClient_new))"
  have "0 < length (fs_tasks ?s)" "1 < length (fs_tasks ?s)" "task_live (fs_tasks ?s ! 0)" "task_live (fs_tasks ?s ! 1)"
    "0 \<notin> set (cl_aborted (fs_client ?s))" "q_key (ft_query (fs_tasks ?s ! 1)) = q_key (ft_query (fs_tasks ?s ! 0))"
    "\<not> task_live (fs_tasks (poll_fetch (=) 0 (FetchPanics PayloadOther) ?s) ! 0)"
    unfolding demo_fetches_run by (simp_all add: demo_steps demo_loading_def fetch_end_def)
  then show ?thesis
    using second_fetch_escapes [of 0 ?s 1 _ "(=)" "FetchPanics PayloadOther"] by (simp add: fs_run_def)
qed

end
