(* ===== verification/Fetch_Delivery.thy ===== *)
theory Fetch_Delivery
  imports Concurrent_Fetches
begin

text \<open>
  A fetch of \<open>spawn_query\<close> from its spawning to everybody who sees its result: the worker polls the async
  block from one await point to the next (\<open>Concurrent_Fetches\<close>) inside the wrapper of the runtime
  (\<open>Task_Runtime\<close>), the spawning thread registers the task at some moment, before, between or after those
  polls, the owner of the handle polls it (\<open>runtime.rs\<close>), and the pump of a binding (\<open>hooks.rs\<close>) shows
  what the cache holds.
\<close>

subsection \<open>The task, its spawner and its owner\<close>

text \<open>One poll of the async block that finds \<open>w\<close> resolved, and dropping it unfinished.\<close>

definition fetch_turn ::
  "('v dynval \<Rightarrow> 'v dynval \<Rightarrow> bool) \<Rightarrow> type_id \<Rightarrow> 'v query \<Rightarrow> nat \<Rightarrow> 'v wakeup
   \<Rightarrow> ('v fetch_phase \<times> 'v client, 'v dynval query_state) future" where
  "fetch_turn peq ty q i w =
     \<lparr>fu_poll = (\<lambda>(ph, c).
        let r = fetch_poll peq ty q i w ph c
        in (case fst r of FtEnded errs st \<Rightarrow> Some st | _ \<Rightarrow> None, r)),
      fu_drop = (\<lambda>(ph, c). (FtDropped, FetchingGuard_drop c))\<rparr>"

datatype 'v delivery_event = Register | Worker "'v wakeup" | Owner run_event

fun delivery_step ::
  "'h abort_lib \<Rightarrow> ('c, unit) oneshot_lib \<Rightarrow> ('d, 'v dynval query_state) oneshot_lib \<Rightarrow> ('v dynval \<Rightarrow> 'v dynval \<Rightarrow> bool)
   \<Rightarrow> type_id \<Rightarrow> 'v query \<Rightarrow> nat \<Rightarrow> 'v dynval query_state \<Rightarrow> 'v delivery_event
   \<Rightarrow> ('h, 'c) pool_task \<times> ('v fetch_phase \<times> 'v client) \<times> 'd option
   \<Rightarrow> 'v dynval query_state option list \<times> ('h, 'c) pool_task \<times> ('v fetch_phase \<times> 'v client) \<times> 'd option" where
  "delivery_step A L M peq ty q i fallback Register (p, (ph, c), d) =
     ([], p, (ph, set_in_flight (q_key q) \<lparr>if_abort = i, if_cancel_token = i\<rparr> c), d)"
| "delivery_step A L M peq ty q i fallback (Worker w) x = run_step A L M (fetch_turn peq ty q i w) fallback RunTask x"
| "delivery_step A L M peq ty q i fallback (Owner e) x = run_step A L M (fetch_turn peq ty q i Resume) fallback e x"

text \<open>\<open>spawn_query\<close> up to the call of the runtime, on a client that is not restoring.\<close>

definition spawned_fetch ::
  "'h abort_lib \<Rightarrow> ('c, unit) oneshot_lib \<Rightarrow> ('d, 'v dynval query_state) oneshot_lib \<Rightarrow> 'v client
   \<Rightarrow> ('h, 'c) pool_task \<times> ('v fetch_phase \<times> 'v client) \<times> 'd option" where
  "spawned_fetch A L M c = spawned A L M (FtNew, inc_fetching c)"

text \<open>What the polls find when the fetch function fails with \<open>es\<close> and then succeeds with \<open>d\<close>: each failure
  is followed by the end of a backoff sleep.\<close>

fun failing_turns :: "query_error list \<Rightarrow> 'v wakeup list" where
  "failing_turns [] = []"
| "failing_turns (e # es) = FetchDone (Inl e) 0 [] # Resume # failing_turns es"

definition fetch_turns :: "query_error list \<Rightarrow> 'v dynval \<Rightarrow> instant \<Rightarrow> 'v wakeup list" where
  "fetch_turns es d now = Resume # failing_turns es @ [FetchDone (Inr d) now []]"

subsection \<open>The polls of an undisturbed fetch\<close>

text \<open>A client on which the fetch can start, retry, and is not cancelled.\<close>

definition lets_fetch :: "'v query \<Rightarrow> nat \<Rightarrow> query_error list \<Rightarrow> 'v client \<Rightarrow> bool" where
  "lets_fetch q i es c \<longleftrightarrow> \<not> client_is_restoring c \<and> can_fetch (net_mode (q_options q)) (om_online (cl_online c))
     \<and> (es \<noteq> [] \<longrightarrow> can_retry (net_mode (q_options q)) (om_online (cl_online c))) \<and> i \<notin> set (cl_cancelled c)
     \<and> length es \<le> max_retries (retry (q_options q)) \<and> (\<forall>e\<in>set es. retryable_error e)"

text \<open>The phase of a fetch that still has to find \<open>rest\<close>.\<close>

definition awaits :: "query_error list \<Rightarrow> 'v dynval \<Rightarrow> instant \<Rightarrow> 'v wakeup list \<Rightarrow> 'v fetch_phase \<Rightarrow> bool" where
  "awaits es d now rest ph \<longleftrightarrow>
     (ph = FtNew \<and> rest = fetch_turns es d now)
     \<or> (\<exists>errs es'. ph = FtFetching errs \<and> es = errs @ es' \<and> rest = failing_turns es' @ [FetchDone (Inr d) now []])
     \<or> (\<exists>errs es'. ph = FtSleeping errs \<and> es = errs @ es' \<and> rest = Resume # failing_turns es' @ [FetchDone (Inr d) now []])"

definition loading_client :: "'v query \<Rightarrow> 'v fetch_phase \<Rightarrow> 'v client \<Rightarrow> 'v client" where
  "loading_client q ph c = (if ph = FtNew then notify_subscribers (cache_key (q_key q)) V_Loading c else c)"

lemma awaits_turn:
  assumes "awaits es d now (w # rest) ph" "rest \<noteq> []" "lets_fetch q i es c"
  shows "\<exists>ph'. fetch_poll peq ty q i w ph c = (ph', loading_client q ph c) \<and> phase_live ph' \<and> ph' \<noteq> FtNew \<and> awaits es d now rest ph'"
proof -
  note fetch = assms(3) [unfolded lets_fetch_def OnlineManager_is_online_def]
  consider "ph = FtNew" "w # rest = fetch_turns es d now"
    | errs es' where "ph = FtFetching errs" "es = errs @ es'" "w # rest = failing_turns es' @ [FetchDone (Inr d) now []]"
    | errs es' where "ph = FtSleeping errs" "es = errs @ es'" "w # rest = Resume # failing_turns es' @ [FetchDone (Inr d) now []]"
    using assms(1) unfolding awaits_def by blast
  then show ?thesis
  proof cases
    case 1
    then show ?thesis
      using fetch by (auto simp: fetch_turns_def loop_head_def token_cancelled_def awaits_def loading_client_def OnlineManager_is_online_def Let_def)
  next
    case (2 errs es')
    then obtain e es'' where es': "es' = e # es''" using assms(2) by (cases es') auto
    then have "retryable_error e" "length errs < max_retries (retry (q_options q))" "es \<noteq> []" using fetch 2(2) by auto
    then have "fetch_poll peq ty q i w ph c = (FtSleeping (errs @ [e]), c)"
      using 2 es' fetch retryable_not_cancelled [of e]
      by (simp add: fetch_failed_def OnlineManager_is_online_def)
    then show ?thesis using 2 es' by (simp add: awaits_def loading_client_def)
  next
    case (3 errs es')
    then show ?thesis using fetch by (auto simp: loop_head_def token_cancelled_def awaits_def loading_client_def)
  qed
qed

lemma awaits_last:
  assumes "awaits es d now [w] ph"
  shows "\<exists>errs. ph = FtFetching errs \<and> w = FetchDone (Inr d) now []"
proof -
  have "failing_turns es' @ [FetchDone (Inr d) now []] = [w] \<Longrightarrow> w = FetchDone (Inr d) now []" for es'
    by (cases es') auto
  then show ?thesis using assms by (auto simp: awaits_def fetch_turns_def)
qed

text \<open>What a success leaves of the client \<open>c\<close> of its last poll.\<close>

definition stored_client ::
  "('v dynval \<Rightarrow> 'v dynval \<Rightarrow> bool) \<Rightarrow> 'v query \<Rightarrow> 'v dynval \<Rightarrow> instant \<Rightarrow> 'v client \<Rightarrow> 'v client" where
  "stored_client peq q d now c =
     FetchingGuard_drop (clear_in_flight (q_key q) (set_query_data peq now (q_key q) (apply_select q d) (q_options q) c))"

lemma last_turn:
  assumes "value_type (apply_select q d) = ty"
  shows "\<exists>v. fetch_poll peq ty q i (FetchDone (Inr d) now []) (FtFetching errs) c = (FtEnded errs (Success v), stored_client peq q d now c)
     \<and> get_query_data ty (q_key q) (set_query_data peq now (q_key q) (apply_select q d) (q_options q) c) = Some v
     \<and> (v = apply_select q d \<or> peq v (apply_select q d))"
proof -
  obtain v where "get_query_data ty (q_key q) (set_query_data peq now (q_key q) (apply_select q d) (q_options q) c) = Some v"
    "v = apply_select q d \<or> peq v (apply_select q d)"
    using set_query_data_read [of "apply_select q d" "q_key q" peq now "q_options q" c] assms by auto
  then show ?thesis by (simp add: fetch_stored_def fetch_end_def spawned_state_def stored_client_def Let_def)
qed

text \<open>The worker's polls inside the wrapper of the runtime.\<close>

lemma worker_turn:
  assumes "pt_live p" "\<not> al_aborted A (pt_abort p)" "fetch_poll peq ty q i w ph c = (ph', c')"
  shows "phase_live ph' \<Longrightarrow> delivery_step A L M peq ty q i fallback (Worker w) (p, (ph, c), d) = ([], p, (ph', c'), d)"
    "ph' = FtEnded errs st \<Longrightarrow> delivery_step A L M peq ty q i fallback (Worker w) (p, (ph, c), d)
       = ([], p\<lparr>pt_live := False, pt_handle := on_rx (ol_send L ()) (pt_handle p)\<rparr>, (ph', c'), map_option (ol_send M st) d)"
  using assms by (auto simp: pool_poll_def result_future_def fetch_turn_def Let_def split: fetch_phase.splits)

lemma workers_run:
  assumes "pt_live p" "\<not> al_aborted A (pt_abort p)"
  shows "awaits es d now (pre @ post) ph \<Longrightarrow> post \<noteq> [] \<Longrightarrow> lets_fetch q i es c \<Longrightarrow>
    \<exists>ph'. trace (delivery_step A L M peq ty q i fallback) (map Worker pre) (p, (ph, c), ch)
       = ([], p, (ph', if pre = [] then c else loading_client q ph c), ch)
     \<and> awaits es d now post ph' \<and> (ph' = FtNew \<longleftrightarrow> pre = [] \<and> ph = FtNew)"
proof (induction pre arbitrary: ph c)
  case (Cons w pre)
  obtain ph1 where ph1: "fetch_poll peq ty q i w ph c = (ph1, loading_client q ph c)" "phase_live ph1" "ph1 \<noteq> FtNew"
    "awaits es d now (pre @ post) ph1"
    using awaits_turn [of es d now w "pre @ post" ph q i c peq ty] Cons.prems by auto
  have step: "delivery_step A L M peq ty q i fallback (Worker w) (p, (ph, c), ch) = ([], p, (ph1, loading_client q ph c), ch)"
    by (rule worker_turn(1) [OF assms ph1(1,2)])
  have "lets_fetch q i es (loading_client q ph c)"
    using Cons.prems(3) by (simp add: lets_fetch_def loading_client_def client_is_restoring_def notify_subscribers_def Let_def)
  from Cons.IH [OF ph1(4) Cons.prems(2) this] obtain ph2 where
    "trace (delivery_step A L M peq ty q i fallback) (map Worker pre) (p, (ph1, loading_client q ph c), ch)
       = ([], p, (ph2, loading_client q ph c), ch)" "awaits es d now post ph2" "ph2 \<noteq> FtNew"
    using ph1(3) by (auto simp: loading_client_def [of q ph1])
  then show ?case using step by (auto simp del: delivery_step.simps)
qed (use assms in auto)

lemma fetch_runs:
  assumes p: "pt_live p" "\<not> al_aborted A (pt_abort p)"
    and "awaits es d now rest ph" "rest \<noteq> []" "lets_fetch q i es c" "value_type (apply_select q d) = ty"
  shows "\<exists>p' errs v. trace (delivery_step A L M peq ty q i fallback) (map Worker rest) (p, (ph, c), Some ch)
       = ([], p', (FtEnded errs (Success v), stored_client peq q d now (loading_client q ph c)), Some (ol_send M (Success v) ch))
     \<and> get_query_data ty (q_key q) (set_query_data peq now (q_key q) (apply_select q d) (q_options q) (loading_client q ph c)) = Some v
     \<and> (v = apply_select q d \<or> peq v (apply_select q d))"
proof -
  obtain pre w where rest: "rest = pre @ [w]" using assms(4) by (metis rev_exhaust)
  obtain ph' where run: "trace (delivery_step A L M peq ty q i fallback) (map Worker pre) (p, (ph, c), Some ch)
       = ([], p, (ph', if pre = [] then c else loading_client q ph c), Some ch)"
    and ph': "awaits es d now [w] ph'" "ph' = FtNew \<longleftrightarrow> pre = [] \<and> ph = FtNew"
    using workers_run [OF p assms(3) [unfolded rest] _ assms(5), of L M peq ty fallback "Some ch"] by blast
  obtain errs where errs: "ph' = FtFetching errs" "w = FetchDone (Inr d) now []" using awaits_last [OF ph'(1)] by blast
  then have loading: "(if pre = [] then c else loading_client q ph c) = loading_client q ph c"
    using ph'(2) by (simp add: loading_client_def)
  obtain v where v: "fetch_poll peq ty q i w ph' (loading_client q ph c) = (FtEnded errs (Success v), stored_client peq q d now (loading_client q ph c))"
    "get_query_data ty (q_key q) (set_query_data peq now (q_key q) (apply_select q d) (q_options q) (loading_client q ph c)) = Some v"
    "v = apply_select q d \<or> peq v (apply_select q d)"
    using last_turn [OF assms(6)] unfolding errs by blast
  show ?thesis
    using run v worker_turn(2) [OF p v(1) refl, of L M fallback "Some ch"] unfolding loading rest
    by (auto simp: trace_append simp del: delivery_step.simps)
qed

lemma owner_receives:
  assumes "channel_ok view M" "view ch = Waiting"
  shows "\<exists>p' d'. trace (delivery_step A L M peq ty q i fallback) [Owner OwnPoll] (p, w, Some (ol_send M st ch)) = ([Some st], p', w, d')"
proof -
  have "task_view view (owned_task fallback p (Some (ol_send M st ch))) = Holds st"
    using assms channel_okD(3) [OF assms(1)] by (simp add: task_view_def owned_task_def)
  from SpawnedTask_poll_view(2) [OF channel_okD(1) [OF assms(1)] this]
  show ?thesis by (cases w) (auto simp: own_def Let_def split: prod.splits)
qed

lemma register_turn:
  "trace (delivery_step A L M peq ty q i fallback) (Register # evs) (p, (ph, c), d)
   = trace (delivery_step A L M peq ty q i fallback) evs (p, (ph, set_in_flight (q_key q) \<lparr>if_abort = i, if_cancel_token = i\<rparr> c), d)"
  by simp

text \<open>Registration only touches the in-flight table.\<close>

lemma register_loading:
  "notify_subscribers k v (set_in_flight key t c) = set_in_flight key t (notify_subscribers k v c)"
  by (simp add: notify_subscribers_def set_in_flight_def Let_def)

lemma register_lets_fetch: "lets_fetch q i es (set_in_flight key t c) = lets_fetch q i es c"
  by (simp add: lets_fetch_def client_is_restoring_def set_in_flight_def)

lemma stored_facts:
  assumes "cl_subscribers c1 = cl_subscribers (notify_subscribers (cache_key (q_key q)) V_Loading c)"
    "dm_get (cl_subscribers c) (cache_key (q_key q)) = Some b" "attached i b"
  shows "get_query_data ty (q_key q) (stored_client peq q d now c1)
       = get_query_data ty (q_key q) (set_query_data peq now (q_key q) (apply_select q d) (q_options q) c1)"
    "\<not> client_is_stale now (q_key q) (stored_client peq q d now c1)" "\<not> is_in_flight (q_key q) (stored_client peq q d now c1)"
    "cl_fetching_count (stored_client peq q d now c1) = cl_fetching_count c1 - 1"
    "\<exists>b'. dm_get (cl_subscribers (stored_client peq q d now c1)) (cache_key (q_key q)) = Some b' \<and> has_news i b'"
proof -
  show "\<not> client_is_stale now (q_key q) (stored_client peq q d now c1)"
    using set_query_data_fresh [of now "q_key q"]
    by (simp add: stored_client_def client_is_stale_def FetchingGuard_drop_def dec_fetching_def clear_in_flight_def send_activity_def Let_def)
  show "\<exists>b'. dm_get (cl_subscribers (stored_client peq q d now c1)) (cache_key (q_key q)) = Some b' \<and> has_news i b'"
    using assms(2) send_news [OF news_attached [OF send_news [OF assms(3)]]]
    by (simp add: stored_client_def FetchingGuard_drop_def dec_fetching_def clear_in_flight_def send_activity_def set_query_data_def
        notify_subscribers_def assms(1) Let_def)
qed (simp_all add: stored_client_def FetchingGuard_drop_def dec_fetching_def clear_in_flight_def send_activity_def get_query_data_def
    is_in_flight_def dm_contains_def set_query_data_def Let_def)

subsection \<open>From the spawning to the screen\<close>

text \<open>The whole run up to the owner's poll, for each moment of the registration.\<close>

lemma delivery_run:
  fixes q :: "'v query"
  assumes "abort_ok A" "channel_ok view M" "lets_fetch q i es c" "value_type (apply_select q d) = ty"
    and "ws = fetch_turns es d now" "j \<le> length ws"
    and "trace (delivery_step A L M peq ty q i fallback) (map Worker (take j ws) @ Register # map Worker (drop j ws) @ [Owner OwnPoll])
       (spawned_fetch A L M c) = (outs, p, (ph, c'), ch)"
  defines "register \<equiv> set_in_flight (q_key q) \<lparr>if_abort = i, if_cancel_token = i\<rparr>"
    and "loading \<equiv> notify_subscribers (cache_key (q_key q)) V_Loading (inc_fetching c)"
  shows "\<exists>v c1. outs = [Some (Success v)] \<and> (v = apply_select q d \<or> peq v (apply_select q d))
     \<and> get_query_data ty (q_key q) (set_query_data peq now (q_key q) (apply_select q d) (q_options q) c1) = Some v
     \<and> (c1 = loading \<or> c1 = register loading)
     \<and> c' = (if j = length ws then register (stored_client peq q d now c1) else stored_client peq q d now c1)"
proof -
  let ?p = "PoolRuntime_spawn A L" and ?ch = "ol_channel M" and ?c = "inc_fetching c"
  let ?run = "trace (delivery_step A L M peq ty q i fallback)"
  have p: "pt_live ?p" "\<not> al_aborted A (pt_abort ?p)" using assms(1) by (simp_all add: PoolRuntime_spawn_def abort_ok_def)
  have start: "spawned_fetch A L M c = (?p, (FtNew, ?c), Some ?ch)" by (simp add: spawned_fetch_def spawned_def)
  have lets: "lets_fetch q i es ?c"
    using assms(3) by (simp add: lets_fetch_def client_is_restoring_def inc_fetching_def send_activity_def Let_def)
  have aw: "awaits es d now ws FtNew" using assms(5) by (simp add: awaits_def)
  have ws: "ws \<noteq> []" using assms(5) by (simp add: fetch_turns_def)
  have load0: "loading_client q FtNew ?c = loading" by (simp add: loading_client_def loading_def)
  note poll = owner_receives [OF assms(2) channel_okD(2) [OF assms(2)]]
  show ?thesis
  proof (cases "j = length ws")
    case True
    obtain p' errs v where v: "?run (map Worker ws) (?p, (FtNew, ?c), Some ?ch)
         = ([], p', (FtEnded errs (Success v), stored_client peq q d now loading), Some (ol_send M (Success v) ?ch))"
      "get_query_data ty (q_key q) (set_query_data peq now (q_key q) (apply_select q d) (q_options q) loading) = Some v"
      "v = apply_select q d \<or> peq v (apply_select q d)"
      using fetch_runs [OF p aw ws lets assms(4), of L M peq fallback ?ch] unfolding load0 by blast
    obtain p2 d2 where last: "?run [Owner OwnPoll] (p', (FtEnded errs (Success v), register (stored_client peq q d now loading)),
        Some (ol_send M (Success v) ?ch)) = ([Some (Success v)], p2, (FtEnded errs (Success v), register (stored_client peq q d now loading)), d2)"
      using poll by blast
    have "?run (map Worker ws @ [Register, Owner OwnPoll]) (spawned_fetch A L M c) = (outs, p, (ph, c'), ch)"
      using assms(7) True by (simp del: trace.simps)
    then have "outs = [Some (Success v)]" "c' = register (stored_client peq q d now loading)"
      unfolding start trace_silent(1) [OF v(1)] register_turn last [unfolded register_def] by (simp_all add: register_def)
    then show ?thesis using True v(2,3) by (intro exI [of _ v] exI [of _ loading]) simp
  next
    case False
    then have post: "drop j ws \<noteq> []" using assms(6) by simp
    obtain ph1 where pre: "?run (map Worker (take j ws)) (?p, (FtNew, ?c), Some ?ch)
         = ([], ?p, (ph1, if take j ws = [] then ?c else loading), Some ?ch)"
      "awaits es d now (drop j ws) ph1" "ph1 = FtNew \<longleftrightarrow> take j ws = []"
      using workers_run [OF p, of es d now "take j ws" "drop j ws" FtNew q i ?c L M peq ty fallback "Some ?ch"] aw post lets
      unfolding load0 append_take_drop_id by blast
    let ?c1 = "register (if take j ws = [] then ?c else loading)"
    have lets1: "lets_fetch q i es ?c1"
      using lets by (simp add: register_def register_lets_fetch) (simp add: lets_fetch_def loading_def client_is_restoring_def notify_subscribers_def Let_def)
    have load: "loading_client q ph1 ?c1 = register loading"
      using pre(3) by (simp add: loading_client_def register_def loading_def register_loading)
    obtain p' errs v where v: "?run (map Worker (drop j ws)) (?p, (ph1, ?c1), Some ?ch)
         = ([], p', (FtEnded errs (Success v), stored_client peq q d now (register loading)), Some (ol_send M (Success v) ?ch))"
      "get_query_data ty (q_key q) (set_query_data peq now (q_key q) (apply_select q d) (q_options q) (register loading)) = Some v"
      "v = apply_select q d \<or> peq v (apply_select q d)"
      using fetch_runs [OF p pre(2) post lets1 assms(4), of L M peq fallback ?ch] unfolding load by blast
    obtain p2 d2 where last: "?run [Owner OwnPoll] (p', (FtEnded errs (Success v), stored_client peq q d now (register loading)),
        Some (ol_send M (Success v) ?ch)) = ([Some (Success v)], p2, (FtEnded errs (Success v), stored_client peq q d now (register loading)), d2)"
      using poll by blast
    have "outs = [Some (Success v)] \<and> c' = stored_client peq q d now (register loading)"
      using assms(7) unfolding start trace_silent(1) [OF pre(1)] register_turn register_def [symmetric] trace_silent(1) [OF v(1)] last by simp
    then have "outs = [Some (Success v)]" "c' = stored_client peq q d now (register loading)" by simp_all
    then show ?thesis using False v(2,3) by (intro exI [of _ v] exI [of _ "register loading"]) simp
  qed
qed

text \<open>
  C1. A fetch from end to end. A query is spawned on a client that is not restoring and whose
  connectivity lets the query fetch, and retry if it has to; its fetch function fails any number of
  times within the retry budget and then succeeds; nobody else works on the client, cancels or aborts.
  The spawning thread registers the task after \<open>j\<close> of the worker's polls, for any \<open>j\<close> up to all of them.
  Then the owner of the handle receives the success, the cache holds the selected value (or the equal
  one it already had), the fetching counter is back, and the pump of a query binding on the key shows
  the same success. The key is out of flight afterwards, unless the worker was done before the
  registration came: then the key stays in flight.
\<close>

theorem fetched_data_shown:
  assumes "abort_ok A" and "channel_ok view M" and "\<not> client_is_restoring c"
    and "can_fetch (net_mode (q_options q)) (om_online (cl_online c))"
    and "es \<noteq> [] \<longrightarrow> can_retry (net_mode (q_options q)) (om_online (cl_online c))"
    and "length es \<le> max_retries (retry (q_options q))" and "\<forall>e\<in>set es. retryable_error e"
    and "i \<notin> set (cl_cancelled c)" and "value_type (apply_select q d) = ty"
    and "ws = fetch_turns es d now" and "j \<le> length ws"
    and "trace (delivery_step A L M peq ty q i fallback) (map Worker (take j ws) @ Register # map Worker (drop j ws) @ [Owner OwnPoll])
       (spawned_fetch A L M c) = (outs, p, (ph, c'), ch)"
    and "gated_write set_if_eq" and "\<not> uq_pump_done u" and "\<not> uq_stop u" and "q_key (uq_query u) = q_key q"
    and "dm_get (cl_subscribers c) (cache_key (q_key q)) = Some b" and "attached (uq_rx u) b"
    and "use_query_poll set_if_eq ty now w (u, c') = (u', c'')"
  shows "\<exists>v. (v = apply_select q d \<or> peq v (apply_select q d)) \<and> outs = [Some (Success v)]
     \<and> get_query_data ty (q_key q) c' = Some v \<and> (is_in_flight (q_key q) c' \<longleftrightarrow> j = length ws)
     \<and> cl_fetching_count c' = cl_fetching_count c \<and> uq_state u' = Success v"
proof -
  let ?k = "cache_key (q_key q)" and ?t = "\<lparr>if_abort = i, if_cancel_token = i\<rparr>"
  let ?loading = "notify_subscribers ?k V_Loading (inc_fetching c)"
  have lets: "lets_fetch q i es c" using assms(3-8) by (simp add: lets_fetch_def)
  obtain v c1 where v: "outs = [Some (Success v)]" "v = apply_select q d \<or> peq v (apply_select q d)"
    "get_query_data ty (q_key q) (set_query_data peq now (q_key q) (apply_select q d) (q_options q) c1) = Some v"
    and c1: "c1 = ?loading \<or> c1 = set_in_flight (q_key q) ?t ?loading"
    and c': "c' = (if j = length ws then set_in_flight (q_key q) ?t (stored_client peq q d now c1) else stored_client peq q d now c1)"
    using delivery_run [OF assms(1,2) lets assms(9-12)] by blast
  have subs: "cl_subscribers c1 = cl_subscribers (notify_subscribers ?k V_Loading c)" "cl_fetching_count c1 = cl_fetching_count c + 1"
    using c1 by (auto simp: set_in_flight_def notify_subscribers_def inc_fetching_def send_activity_def Let_def)
  note stored = stored_facts [OF subs(1) assms(17,18)]
  have read: "get_query_data ty (q_key q) c' = Some v" "\<not> client_is_stale now (q_key q) c'" "cl_fetching_count c' = cl_fetching_count c"
    "is_in_flight (q_key q) c' \<longleftrightarrow> j = length ws"
    using stored(1) [of ty peq d now] stored(2) [of now peq d] stored(3,4) [of peq d now] v(3) subs(2)
    by (simp_all add: c' set_in_flight_def get_query_data_def client_is_stale_def is_in_flight_def dm_contains_def)
  obtain b' where b': "dm_get (cl_subscribers c') ?k = Some b'" "has_news (uq_rx u) b'"
    using stored(5) [of peq d now] by (auto simp: c' set_in_flight_def)
  have "uq_state u' = read_query_state ty now (q_key q) (placeholder_value (uq_query u)) c'"
    using copy_pump_news [OF assms(13) b'(2), of "read_query_state ty now (q_key q) (placeholder_value (uq_query u)) c'" w "uq_state u"]
      b'(1) assms(14-16,19)
    by (auto simp: use_query_poll_def key_bus_def Let_def)
  then show ?thesis using v(1,2) read by (auto simp: read_query_state_def)
qed

lemma subscribed_cancelled: "cl_cancelled (fst (client_subscribe k c)) = cl_cancelled c"
  by (simp add: client_subscribe_def Let_def case_prod_beta)

text \<open>One retried failure, and a registration that comes when the worker is done.\<close>

theorem fetched_data_shown_witness:
  "\<exists>outs p ph c' ch. trace (delivery_step demo_abort demo_lib demo_lib (=) (T_Other 0) (Query_new (QueryKey_new ''k'')) 0 Idle)
       (map Worker (fetch_turns [Network ''x''] (OtherV 0 5) 0) @ [Register, Owner OwnPoll])
       (spawned_fetch demo_abort demo_lib demo_lib (fst (client_subscribe ''k'' (QueryClient_new :: nat client)))) = (outs, p, (ph, c'), ch)
     \<and> outs = [Some (Success (OtherV 0 5))] \<and> is_in_flight (QueryKey_new ''k'') c'
     \<and> uq_state (fst (use_query_poll (\<lambda>new old. new) (T_Other 0) 0 0
         (\<lparr>uq_state = Idle, uq_query = Query_new (QueryKey_new ''k''), uq_rx = snd (client_subscribe ''k'' (QueryClient_new :: nat client)),
           uq_stop = False, uq_pump_done = False\<rparr>, c'))) = Success (OtherV 0 5)"
proof -
  let ?q = "Query_new (QueryKey_new ''k'') :: nat query" and ?ws = "fetch_turns [Network ''x''] (OtherV 0 5) 0 :: nat wakeup list"
  let ?c = "fst (client_subscribe ''k'' (QueryClient_new :: nat client))"
  let ?u = "\<lparr>uq_state = Idle, uq_query = ?q, uq_rx = snd (client_subscribe ''k'' (QueryClient_new :: nat client)),
    uq_stop = False, uq_pump_done = False\<rparr> :: nat use_query_handle"
  obtain outs p ph c' ch where run: "trace (delivery_step demo_abort demo_lib demo_lib (=) (T_Other 0) ?q 0 Idle)
      (map Worker ?ws @ [Register, Owner OwnPoll]) (spawned_fetch demo_abort demo_lib demo_lib ?c) = (outs, p, (ph, c'), ch)"
    by (metis prod.collapse)
  then have run': "trace (delivery_step demo_abort demo_lib demo_lib (=) (T_Other 0) ?q 0 Idle)
      (map Worker (take (length ?ws) ?ws) @ Register # map Worker (drop (length ?ws) ?ws) @ [Owner OwnPoll])
      (spawned_fetch demo_abort demo_lib demo_lib ?c) = (outs, p, (ph, c'), ch)" by (simp del: trace.simps)
  obtain u' c'' where poll: "use_query_poll (\<lambda>new old. new) (T_Other 0) 0 0 (?u, c') = (u', c'')" by fastforce
  obtain b where b: "dm_get (cl_subscribers ?c) (cache_key (q_key ?q)) = Some b" "attached (uq_rx ?u) b"
    by (auto simp: client_subscribe_def Sender_subscribe_def QueryClient_new_def QueryKey_new_def Query_new_def attached_def fresh_recv_def
        new_sender_def Receiver_drop_def Sender_channel_def Let_def)
  have c: "\<not> client_is_restoring ?c" "om_online (cl_online ?c)" "can_fetch (net_mode (q_options ?q)) (om_online (cl_online ?c))" "0 \<notin> set (cl_cancelled ?c)"
    "can_retry (net_mode (q_options ?q)) (om_online (cl_online ?c))"
    by (simp_all add: client_is_restoring_def QueryClient_new_def OnlineManager_new_def Query_new_def QueryOptions_default_def subscribed_cancelled)
  have budget: "length [Network ''x''] \<le> max_retries (retry (q_options ?q))" "\<forall>e\<in>set [Network ''x'']. retryable_error e"
    by (simp_all add: Query_new_def QueryOptions_default_def RetryConfig_default_def)
  have sel: "apply_select ?q (OtherV 0 5) = OtherV 0 5" "value_type (apply_select ?q (OtherV 0 5)) = T_Other 0"
    by (simp_all add: apply_select_def Query_new_def)
  show ?thesis
    using fetched_data_shown [OF demo_libs_ok(2,1) c(1,3) _ budget c(4) sel(2) refl order_refl run' _ _ _ _ b, of "\<lambda>new old. new" 0 u' c'']
      poll run sel(1) c(5)
    by (auto simp: gated_write_def Query_new_def simp del: trace.simps)
qed

end
