(* ===== verification/Concurrent_Mutations.thy ===== *)
theory Concurrent_Mutations
  imports Spawned_Work Public_Ops
begin

text \<open>
  Any number of mutations of \<open>spawn_mutation\<close> (\<open>executor.rs\<close>) on one client, interleaved with each other
  and with every operation of the client's interface. A task has one await point, the mutate function;
  the optimistic update runs before it and the invalidation or the rollback after it. The abort handle
  drops the task where it waits, of which only the guard of the mutating counter runs; a panic of the
  mutate function does the same, since nothing catches it.
\<close>

subsection \<open>A mutation as a state machine\<close>

definition MutatingGuard_drop :: "'v client \<Rightarrow> 'v client" where
  "MutatingGuard_drop c = dec_mutating c"

datatype ('v, 'a) mutation_phase =
    MtNew | MtRunning "'v rollback option" | MtEnded "'a mutation_state" | MtDropped

fun mphase_live :: "('v, 'a) mutation_phase \<Rightarrow> bool" where
  "mphase_live MtNew = True"
| "mphase_live (MtRunning rb) = True"
| "mphase_live ph = False"

datatype 'a mutate_wakeup = MutateStart | MutateDone "(query_error, 'a) result" | MutatePanics

definition mutation_end ::
  "(query_error, 'a) result \<Rightarrow> 'v client \<Rightarrow> ('v, 'a) mutation_phase \<times> 'v client" where
  "mutation_end r c = (MtEnded (case r of Inr d \<Rightarrow> MSuccess d | Inl e \<Rightarrow> MError e), MutatingGuard_drop c)"

fun mutation_poll ::
  "'v mutation \<Rightarrow> 'a mutate_wakeup \<Rightarrow> ('v, 'a) mutation_phase \<Rightarrow> 'v client \<Rightarrow> ('v, 'a) mutation_phase \<times> 'v client" where
  "mutation_poll mu MutateStart MtNew c =
     (case mu_on_mutate mu of
        None \<Rightarrow> (MtRunning None, c)
      | Some f \<Rightarrow> (case f c of
                    (c0, Inr rb) \<Rightarrow> (MtRunning (Some rb), c0)
                  | (c0, Inl e) \<Rightarrow> mutation_end (Inl e) c0))"
| "mutation_poll mu (MutateDone (Inr d)) (MtRunning rb) c =
     mutation_end (Inr d) (fold invalidate_queries (mu_invalidates_keys mu) c)"
| "mutation_poll mu (MutateDone (Inl e)) (MtRunning rb) c =
     mutation_end (Inl e) (case rb of None \<Rightarrow> c | Some undo \<Rightarrow> undo c)"
| "mutation_poll mu MutatePanics (MtRunning rb) c = (MtDropped, MutatingGuard_drop c)"
| "mutation_poll mu w ph c = (ph, c)"

subsection \<open>The system\<close>

record ('v, 'a) mutation_task =
  mt_mutation :: "'v mutation"
  mt_aborted :: bool
  mt_phase :: "('v, 'a) mutation_phase"

record ('v, 'a) mutation_system =
  ms_client :: "'v client"
  ms_tasks :: "('v, 'a) mutation_task list"

datatype ('v, 'a) mutation_event =
    SpawnMutation "'v mutation" | PollMutation nat "'a mutate_wakeup" | AbortMutation nat | MutationOp "'v client_op"

definition mutation_live :: "('v, 'a) mutation_task \<Rightarrow> bool" where
  "mutation_live t = mphase_live (mt_phase t)"

definition spawn_mutation_task :: "'v mutation \<Rightarrow> ('v, 'a) mutation_system \<Rightarrow> ('v, 'a) mutation_system" where
  "spawn_mutation_task mu s =
     (if client_is_restoring (ms_client s)
      then s\<lparr>ms_tasks := ms_tasks s @ [\<lparr>mt_mutation = mu, mt_aborted = False, mt_phase = MtEnded MIdle\<rparr>]\<rparr>
      else s\<lparr>ms_client := inc_mutating (ms_client s),
             ms_tasks := ms_tasks s @ [\<lparr>mt_mutation = mu, mt_aborted = False, mt_phase = MtNew\<rparr>]\<rparr>)"

definition poll_mutation :: "nat \<Rightarrow> 'a mutate_wakeup \<Rightarrow> ('v, 'a) mutation_system \<Rightarrow> ('v, 'a) mutation_system" where
  "poll_mutation i w s =
     (let t = ms_tasks s ! i in
      if \<not> (i < length (ms_tasks s) \<and> mutation_live t) then s
      else let (ph, c) = (if mt_aborted t then (MtDropped, MutatingGuard_drop (ms_client s))
                          else mutation_poll (mt_mutation t) w (mt_phase t) (ms_client s))
           in s\<lparr>ms_client := c, ms_tasks := (ms_tasks s)[i := t\<lparr>mt_phase := ph\<rparr>]\<rparr>)"

definition abort_mutation :: "nat \<Rightarrow> ('v, 'a) mutation_system \<Rightarrow> ('v, 'a) mutation_system" where
  "abort_mutation i s =
     (if i < length (ms_tasks s) then s\<lparr>ms_tasks := (ms_tasks s)[i := (ms_tasks s ! i)\<lparr>mt_aborted := True\<rparr>]\<rparr> else s)"

fun ms_step ::
  "('v dynval \<Rightarrow> 'v dynval \<Rightarrow> bool) \<Rightarrow> ('v, 'a) mutation_event \<Rightarrow> ('v, 'a) mutation_system \<Rightarrow> ('v, 'a) mutation_system" where
  "ms_step peq (SpawnMutation mu) s = spawn_mutation_task mu s"
| "ms_step peq (PollMutation i w) s = poll_mutation i w s"
| "ms_step peq (AbortMutation i) s = abort_mutation i s"
| "ms_step peq (MutationOp op) s = (if public_op op then s\<lparr>ms_client := client_step peq op (ms_client s)\<rparr> else s)"

definition ms_run ::
  "('v dynval \<Rightarrow> 'v dynval \<Rightarrow> bool) \<Rightarrow> ('v, 'a) mutation_event list \<Rightarrow> ('v, 'a) mutation_system \<Rightarrow> ('v, 'a) mutation_system" where
  "ms_run peq es s = fold (ms_step peq) es s"

definition ms_start :: "'v client \<Rightarrow> ('v, 'a) mutation_system" where
  "ms_start c = \<lparr>ms_client = c, ms_tasks = []\<rparr>"

subsection \<open>The mutating counter\<close>

text \<open>Optimistic updates and rollbacks are code of the user; this is all that is asked of them.\<close>

definition counts_kept :: "('v client \<Rightarrow> 'v client) \<Rightarrow> bool" where
  "counts_kept f \<longleftrightarrow> (\<forall>c. cl_mutating_count (f c) = cl_mutating_count c)"

definition neutral :: "'v mutation \<Rightarrow> bool" where
  "neutral mu \<longleftrightarrow> (\<forall>f. mu_on_mutate mu = Some f \<longrightarrow>
     counts_kept (\<lambda>c. fst (f c)) \<and> (\<forall>c rb. snd (f c) = Inr rb \<longrightarrow> counts_kept rb))"

definition task_neutral :: "('v, 'a) mutation_task \<Rightarrow> bool" where
  "task_neutral t \<longleftrightarrow> neutral (mt_mutation t) \<and> (\<forall>rb. mt_phase t = MtRunning (Some rb) \<longrightarrow> counts_kept rb)"

definition live_mutations :: "('v, 'a) mutation_system \<Rightarrow> nat" where
  "live_mutations s = length (filter mutation_live (ms_tasks s))"

definition ms_inv :: "u64w \<Rightarrow> ('v, 'a) mutation_system \<Rightarrow> bool" where
  "ms_inv n s \<longleftrightarrow> cl_mutating_count (ms_client s) = n + of_nat (live_mutations s) \<and> (\<forall>t\<in>set (ms_tasks s). task_neutral t)"

lemma mguard_count [simp]: "cl_mutating_count (MutatingGuard_drop c) = cl_mutating_count c - 1"
  by (simp add: MutatingGuard_drop_def dec_mutating_def send_activity_def Let_def)

lemma invalidations_count [simp]: "cl_mutating_count (fold invalidate_queries ks c) = cl_mutating_count c"
  using steady_fold [where cl = "\<lambda>c. c" and f = invalidate_queries and xs = ks and s = c, OF steady_bulk(1)] by (simp add: steady_def)

lemma mutation_poll_effect:
  assumes "mutation_poll mu w ph c = (ph', c')" "mphase_live ph" "neutral mu" "\<forall>rb. ph = MtRunning (Some rb) \<longrightarrow> counts_kept rb"
  shows "cl_mutating_count c' = (if mphase_live ph' then cl_mutating_count c else cl_mutating_count c - 1)
     \<and> (\<forall>rb. ph' = MtRunning (Some rb) \<longrightarrow> counts_kept rb)"
proof (cases "(mu, w, ph, c)" rule: mutation_poll.cases)
  case (1 mu c)
  then show ?thesis
  proof (cases "mu_on_mutate mu")
    case (Some f)
    then have "counts_kept (\<lambda>c. fst (f c))" "\<forall>c rb. snd (f c) = Inr rb \<longrightarrow> counts_kept rb" using assms(3) 1 by (auto simp: neutral_def)
    moreover obtain c0 r where "f c = (c0, r)" by fastforce
    ultimately show ?thesis
      using 1 Some assms(1) by (cases r) (auto simp: mutation_end_def counts_kept_def dest: spec [of _ c])
  qed (use 1 assms(1) in auto)
qed (use assms in \<open>auto simp: mutation_end_def counts_kept_def split: option.splits\<close>)

lemma neutral_update:
  "\<forall>t\<in>set ts. task_neutral t \<Longrightarrow> task_neutral t' \<Longrightarrow> \<forall>t\<in>set (ts[i := t']). task_neutral t"
  using set_update_subset_insert [of ts i t'] by blast

lemma ms_inv_poll:
  assumes "ms_inv n s"
  shows "ms_inv n (poll_mutation i w s)"
proof (cases "i < length (ms_tasks s) \<and> mutation_live (ms_tasks s ! i)")
  case True
  let ?t = "ms_tasks s ! i" and ?c = "ms_client s"
  obtain ph c where r: "(if mt_aborted ?t then (MtDropped, MutatingGuard_drop ?c)
      else mutation_poll (mt_mutation ?t) w (mt_phase ?t) ?c) = (ph, c)" by fastforce
  then have s': "poll_mutation i w s = s\<lparr>ms_client := c, ms_tasks := (ms_tasks s)[i := ?t\<lparr>mt_phase := ph\<rparr>]\<rparr>"
    using True by (simp add: poll_mutation_def Let_def)
  have t: "task_neutral ?t" using assms True by (simp add: ms_inv_def)
  then have eff: "cl_mutating_count c = (if mphase_live ph then cl_mutating_count ?c else cl_mutating_count ?c - 1)
     \<and> (\<forall>rb. ph = MtRunning (Some rb) \<longrightarrow> counts_kept rb)"
    using r True mutation_poll_effect [of "mt_mutation ?t" w "mt_phase ?t" ?c ph c]
    by (auto simp: task_neutral_def mutation_live_def split: if_splits)
  have "live_mutations s = live_mutations (poll_mutation i w s) + (if mphase_live ph then 0 else 1)"
    using length_filter_update [of i "ms_tasks s" mutation_live "?t\<lparr>mt_phase := ph\<rparr>"] True
    by (auto simp: live_mutations_def s' mutation_live_def)
  then have "cl_mutating_count c = n + of_nat (live_mutations (poll_mutation i w s))"
    using eff assms by (auto simp: ms_inv_def)
  moreover have "task_neutral (?t\<lparr>mt_phase := ph\<rparr>)" using t eff by (simp add: task_neutral_def)
  ultimately show ?thesis using assms neutral_update [of "ms_tasks s"] by (simp add: ms_inv_def s')
qed (use assms in \<open>auto simp: poll_mutation_def Let_def\<close>)

lemma ms_inv_step:
  assumes "ms_inv n s" "\<And>mu. e = SpawnMutation mu \<Longrightarrow> neutral mu"
  shows "ms_inv n (ms_step peq e s)"
proof (cases e)
  case (SpawnMutation mu)
  then show ?thesis
    using assms by (auto simp: ms_inv_def spawn_mutation_task_def live_mutations_def mutation_live_def task_neutral_def inc_mutating_def
        send_activity_def Let_def)
next
  case (AbortMutation i)
  show ?thesis
  proof (cases "i < length (ms_tasks s)")
    case True
    let ?t = "(ms_tasks s ! i)\<lparr>mt_aborted := True\<rparr>"
    have "live_mutations (abort_mutation i s) = live_mutations s"
      using length_filter_update [of i "ms_tasks s" mutation_live ?t] True by (simp add: live_mutations_def abort_mutation_def mutation_live_def)
    moreover have "task_neutral (ms_tasks s ! i)" using assms(1) True by (simp add: ms_inv_def)
    then have "task_neutral ?t" by (simp add: task_neutral_def)
    ultimately show ?thesis
      using AbortMutation True assms(1) neutral_update [of "ms_tasks s" ?t i] by (simp add: ms_inv_def abort_mutation_def)
  qed (use AbortMutation assms in \<open>simp add: abort_mutation_def\<close>)
next
  case (MutationOp op)
  then show ?thesis using assms client_step_steady [of op "ms_client s" peq] by (simp add: ms_inv_def live_mutations_def steady_def)
qed (use assms in \<open>simp add: ms_inv_poll\<close>)

lemma ms_inv_run: "ms_inv n s \<Longrightarrow> (\<And>mu. SpawnMutation mu \<in> set es \<Longrightarrow> neutral mu) \<Longrightarrow> ms_inv n (ms_run peq es s)"
  unfolding ms_run_def by (induction es arbitrary: s) (simp_all add: ms_inv_step)

text \<open>
  The mutating counter exceeds its start by exactly the number of spawned mutations that have neither
  settled nor been dropped nor panicked, for every interleaving with each other, with aborts and with
  the client's interface, as long as the user's optimistic updates and rollbacks leave it alone.
\<close>

theorem mutating_count_exact:
  assumes "\<forall>mu. SpawnMutation mu \<in> set es \<longrightarrow> neutral mu" and "s = ms_run peq es (ms_start c)"
  shows "cl_mutating_count (ms_client s) = cl_mutating_count c + of_nat (live_mutations s)
   \<and> (cl_mutating_count c = 0 \<longrightarrow> length (ms_tasks s) < 2 ^ 64 \<longrightarrow>
        (is_mutating (ms_client s) \<longleftrightarrow> (\<exists>t\<in>set (ms_tasks s). mutation_live t)))"
proof -
  have "ms_inv (cl_mutating_count c) (ms_start c :: ('a, 'b) mutation_system)" by (simp add: ms_inv_def ms_start_def live_mutations_def)
  then have count: "cl_mutating_count (ms_client s) = cl_mutating_count c + of_nat (live_mutations s)"
    using ms_inv_run [of _ "ms_start c" es peq] assms by (simp add: ms_inv_def)
  moreover have "is_mutating (ms_client s) \<longleftrightarrow> (\<exists>t\<in>set (ms_tasks s). mutation_live t)"
    if "cl_mutating_count c = 0" "length (ms_tasks s) < 2 ^ 64"
  proof -
    have small: "live_mutations s < 2 ^ 64" unfolding live_mutations_def by (rule le_less_trans [OF length_filter_le that(2)])
    have "is_mutating (ms_client s) \<longleftrightarrow> live_mutations s \<noteq> 0"
      using count that(1) small by (simp add: is_mutating_def word_greater_zero_iff flip: unat_eq_0) (simp add: unat_of_nat)
    then show ?thesis by (auto simp: live_mutations_def filter_empty_conv)
  qed
  ultimately show ?thesis by blast
qed

subsection \<open>Every interleaved mutation is an execution\<close>

text \<open>The optimistic update ran on \<open>c0\<close> and left the rollback \<open>rb\<close>.\<close>

definition mutation_started :: "'v mutation \<Rightarrow> 'v client \<Rightarrow> 'v rollback option \<Rightarrow> bool" where
  "mutation_started mu c0 rb \<longleftrightarrow>
     (case mu_on_mutate mu of None \<Rightarrow> rb = None | Some f \<Rightarrow> (\<exists>undo. rb = Some undo \<and> snd (f c0) = Inr undo))"

definition mutation_executed :: "'v mutation \<Rightarrow> 'v client \<Rightarrow> 'a mutation_state \<Rightarrow> 'v client \<Rightarrow> bool" where
  "mutation_executed mu c0 st c \<longleftrightarrow> (\<exists>others res r c1 cbs.
     execute_mutation mu others (res :: (query_error, 'a) result) c0 = (r, c1, cbs)
     \<and> st = (case r of Inr d \<Rightarrow> MSuccess d | Inl e \<Rightarrow> MError e) \<and> c = MutatingGuard_drop c1)"

definition mstarted_at ::
  "('v dynval \<Rightarrow> 'v dynval \<Rightarrow> bool) \<Rightarrow> ('v, 'a) mutation_system \<Rightarrow> ('v, 'a) mutation_event list \<Rightarrow> 'v mutation
   \<Rightarrow> 'v rollback option \<Rightarrow> bool" where
  "mstarted_at peq s es mu rb \<longleftrightarrow> (\<exists>es0. prefix es0 es \<and> mutation_started mu (ms_client (ms_run peq es0 s)) rb)"

definition mended_at ::
  "('v dynval \<Rightarrow> 'v dynval \<Rightarrow> bool) \<Rightarrow> nat \<Rightarrow> ('v, 'a) mutation_system \<Rightarrow> ('v, 'a) mutation_event list \<Rightarrow> 'v mutation
   \<Rightarrow> 'a mutation_state \<Rightarrow> bool" where
  "mended_at peq i s es mu st \<longleftrightarrow> (\<exists>es0 es1 w. prefix es0 es1 \<and> prefix (es1 @ [PollMutation i w]) es
     \<and> mutation_executed mu (ms_client (ms_run peq es0 s)) st (ms_client (ms_run peq (es1 @ [PollMutation i w]) s)))"

fun maccounted ::
  "('v dynval \<Rightarrow> 'v dynval \<Rightarrow> bool) \<Rightarrow> nat \<Rightarrow> ('v, 'a) mutation_system \<Rightarrow> ('v, 'a) mutation_event list \<Rightarrow> 'v mutation
   \<Rightarrow> ('v, 'a) mutation_phase \<Rightarrow> bool" where
  "maccounted peq i s es mu MtNew = True"
| "maccounted peq i s es mu MtDropped = True"
| "maccounted peq i s es mu (MtRunning rb) = mstarted_at peq s es mu rb"
| "maccounted peq i s es mu (MtEnded st) = mended_at peq i s es mu st"

lemma maccounted_later: "maccounted peq i s es mu ph \<Longrightarrow> maccounted peq i s (es @ es') mu ph"
  by (cases ph; simp add: mstarted_at_def mended_at_def; meson prefix_prefix)

lemma executed_success:
  fixes d :: 'a
  assumes "mutation_started mu c0 rb"
  shows "mutation_executed mu c0 (MSuccess d) (MutatingGuard_drop (fold invalidate_queries (mu_invalidates_keys mu) c))"
  using assms unfolding mutation_executed_def
  by (intro exI [of _ "\<lambda>_. c"] exI [of _ "Inr d :: (query_error, 'a) result"])
    (auto simp: mutation_started_def execute_mutation_def Let_def split: option.splits prod.splits sum.splits)

lemma executed_failure:
  assumes "mutation_started mu c0 rb"
  shows "mutation_executed mu c0 (MError e :: 'a mutation_state) (MutatingGuard_drop (case rb of None \<Rightarrow> c | Some undo \<Rightarrow> undo c))"
  using assms unfolding mutation_executed_def
  by (intro exI [of _ "\<lambda>_. c"] exI [of _ "Inl e :: (query_error, 'a) result"])
    (auto simp: mutation_started_def execute_mutation_def Let_def split: option.splits prod.splits sum.splits)

lemma executed_refused:
  assumes "mu_on_mutate mu = Some f" "f c0 = (c, Inl e)"
  shows "mutation_executed mu c0 (MError e :: 'a mutation_state) (MutatingGuard_drop c)"
  using assms unfolding mutation_executed_def
  by (intro exI [of _ "\<lambda>c. c"] exI [of _ "Inl e :: (query_error, 'a) result"]) (simp add: execute_mutation_def Let_def)

lemma ms_run_snoc: "ms_run peq (es @ [e]) s = ms_step peq e (ms_run peq es s)"
  by (simp add: ms_run_def)

lemma mended_now:
  "prefix es0 es \<Longrightarrow> mutation_executed mu (ms_client (ms_run peq es0 s)) st c' \<Longrightarrow>
   ms_client (ms_run peq (es @ [PollMutation i w]) s) = c' \<Longrightarrow> mended_at peq i s (es @ [PollMutation i w]) mu st"
  unfolding mended_at_def by (intro exI [of _ es0] exI [of _ es] exI [of _ w]) simp

lemma maccounted_poll:
  assumes "maccounted peq i s es mu ph" "mphase_live ph" "mutation_poll mu w ph (ms_client (ms_run peq es s)) = (ph', c')"
    "ms_client (ms_run peq (es @ [PollMutation i w]) s) = c'"
  shows "maccounted peq i s (es @ [PollMutation i w]) mu ph'"
proof (cases "(mu, w, ph, ms_client (ms_run peq es s))" rule: mutation_poll.cases)
  case (1 mu' c)
  show ?thesis
  proof (cases "mu_on_mutate mu")
    case None
    then have "mutation_started mu (ms_client (ms_run peq es s)) None" by (simp add: mutation_started_def)
    then show ?thesis using 1 None assms(3) by (auto simp: mstarted_at_def)
  next
    case (Some f)
    obtain c0 r where f: "f (ms_client (ms_run peq es s)) = (c0, r)" by fastforce
    show ?thesis
    proof (cases r)
      case (Inl e)
      then have "mended_at peq i s (es @ [PollMutation i w]) mu (MError e)"
        using executed_refused [OF Some, of "ms_client (ms_run peq es s)" c0 e] f 1 Some assms(3,4)
        by (intro mended_now [of es]) (auto simp: mutation_end_def)
      then show ?thesis using 1 Some f Inl assms(3) by (auto simp: mutation_end_def)
    next
      case (Inr undo)
      then have "mutation_started mu (ms_client (ms_run peq es s)) (Some undo)" using Some f by (simp add: mutation_started_def)
      then show ?thesis using 1 Some f Inr assms(3) by (auto simp: mstarted_at_def)
    qed
  qed
next
  case (2 mu' d rb c)
  then obtain es0 where es0: "prefix es0 es" "mutation_started mu (ms_client (ms_run peq es0 s)) rb"
    using assms(1) by (auto simp: mstarted_at_def)
  then show ?thesis
    using executed_success [OF es0(2), of d "ms_client (ms_run peq es s)"] 2 assms(3,4) by (auto simp: mutation_end_def intro: mended_now [OF es0(1)])
next
  case (3 mu' e rb c)
  then obtain es0 where es0: "prefix es0 es" "mutation_started mu (ms_client (ms_run peq es0 s)) rb"
    using assms(1) by (auto simp: mstarted_at_def)
  then show ?thesis
    using executed_failure [OF es0(2), of e "ms_client (ms_run peq es s)"] 3 assms(3,4) by (auto simp: mutation_end_def intro: mended_now [OF es0(1)])
qed (use assms in \<open>auto intro: maccounted_later simp: mended_at_def mstarted_at_def\<close>)

lemma mutation_accounted:
  assumes "i < length (ms_tasks s)" "mt_phase (ms_tasks s ! i) = MtNew"
  shows "let t = ms_tasks (ms_run peq es s) ! i in i < length (ms_tasks (ms_run peq es s))
     \<and> mt_mutation t = mt_mutation (ms_tasks s ! i) \<and> maccounted peq i s es (mt_mutation (ms_tasks s ! i)) (mt_phase t)"
proof (induction es rule: rev_induct)
  case Nil
  then show ?case using assms by (simp add: ms_run_def)
next
  case (snoc e es)
  let ?s = "ms_run peq es s" and ?mu = "mt_mutation (ms_tasks s ! i)"
  let ?t = "ms_tasks ?s ! i"
  have IH: "i < length (ms_tasks ?s)" "mt_mutation ?t = ?mu" "maccounted peq i s es ?mu (mt_phase ?t)"
    using snoc.IH by (simp_all add: Let_def)
  show ?case
  proof (cases "\<exists>w. e = PollMutation i w \<and> mutation_live ?t \<and> \<not> mt_aborted ?t")
    case True
    then obtain w where w: "e = PollMutation i w" "mutation_live ?t" "\<not> mt_aborted ?t" by blast
    obtain ph c' where r: "mutation_poll ?mu w (mt_phase ?t) (ms_client ?s) = (ph, c')" by fastforce
    then have "ms_run peq (es @ [e]) s = ?s\<lparr>ms_client := c', ms_tasks := (ms_tasks ?s)[i := ?t\<lparr>mt_phase := ph\<rparr>]\<rparr>"
      using IH w by (simp add: ms_run_snoc poll_mutation_def Let_def)
    then show ?thesis using IH maccounted_poll [OF IH(3) _ r] w by (simp add: mutation_live_def)
  next
    case False
    then have "mt_phase (ms_tasks (ms_step peq e ?s) ! i) \<in> {mt_phase ?t, MtDropped} \<and> i < length (ms_tasks (ms_step peq e ?s))
        \<and> mt_mutation (ms_tasks (ms_step peq e ?s) ! i) = ?mu"
      using IH by (cases e) (auto simp: spawn_mutation_task_def poll_mutation_def abort_mutation_def Let_def nth_append nth_list_update
          split: prod.splits)
    then show ?thesis using maccounted_later [OF IH(3), of "[e]"] by (auto simp: ms_run_snoc Let_def)
  qed
qed

text \<open>
  The interleaved mutations implement \<open>execute_mutation\<close>: a mutation that has settled did, between its
  first poll and the poll that settled it, what one call of \<open>execute_mutation\<close> does on the client of its
  first poll, and then dropped its guard. What the others did meanwhile is the call's environment.
\<close>

theorem interleaved_mutation_executes:
  assumes "i < length (ms_tasks s)" and "mt_phase (ms_tasks s ! i) = MtNew"
    and "mt_phase (ms_tasks (ms_run peq es s) ! i) = MtEnded st"
  shows "\<exists>es0 es1 w others res r c1 cbs. prefix es0 es1 \<and> prefix (es1 @ [PollMutation i w]) es
     \<and> execute_mutation (mt_mutation (ms_tasks s ! i)) others res (ms_client (ms_run peq es0 s)) = (r, c1, cbs)
     \<and> st = (case r of Inr d \<Rightarrow> MSuccess d | Inl e \<Rightarrow> MError e)
     \<and> ms_client (ms_run peq (es1 @ [PollMutation i w]) s) = MutatingGuard_drop c1"
  using mutation_accounted [OF assms(1,2), of peq es] assms(3)
  by (auto simp: mended_at_def mutation_executed_def Let_def)

subsection \<open>Aborted mutations\<close>

text \<open>
  An aborted mutation is dropped where it waits. Its first poll after the abort only gives back its
  count: whatever its optimistic update did to the client stays, without the rollback of the error path
  and without the invalidations of the success path, and no later poll does anything.
\<close>

lemma mt_aborted_step:
  "i < length (ms_tasks s) \<Longrightarrow> mt_aborted (ms_tasks s ! i) \<Longrightarrow>
   i < length (ms_tasks (ms_step peq e s)) \<and> mt_aborted (ms_tasks (ms_step peq e s) ! i)"
  by (cases e) (auto simp: spawn_mutation_task_def poll_mutation_def abort_mutation_def Let_def nth_append nth_list_update split: prod.splits)

lemma mt_aborted_run:
  "i < length (ms_tasks s) \<and> mt_aborted (ms_tasks s ! i) \<Longrightarrow> i < length (ms_tasks (ms_run peq es s)) \<and> mt_aborted (ms_tasks (ms_run peq es s) ! i)"
proof (induction es rule: rev_induct)
  case (snoc e es)
  then show ?case using mt_aborted_step [of i "ms_run peq es s" peq e] unfolding ms_run_snoc by blast
qed (simp add: ms_run_def)

theorem aborted_mutation_inert:
  assumes "i < length (ms_tasks s)" and "s' = ms_run peq es (abort_mutation i s)"
  shows "ms_client (poll_mutation i w s') = (if mutation_live (ms_tasks s' ! i) then MutatingGuard_drop (ms_client s') else ms_client s')
   \<and> \<not> mutation_live (ms_tasks (poll_mutation i w s') ! i)"
proof -
  have "i < length (ms_tasks (abort_mutation i s)) \<and> mt_aborted (ms_tasks (abort_mutation i s) ! i)"
    using assms(1) by (simp add: abort_mutation_def)
  then have "i < length (ms_tasks s') \<and> mt_aborted (ms_tasks s' ! i)" unfolding assms(2) by (rule mt_aborted_run)
  then show ?thesis by (auto simp: poll_mutation_def mutation_live_def Let_def)
qed

subsection \<open>Witnesses\<close>

definition demo_mutations :: "(nat, nat) mutation_event list" where
  "demo_mutations = [SpawnMutation Mutation_new, PollMutation 0 MutateStart, SpawnMutation Mutation_new]"

lemma demo_idle: "\<not> client_is_restoring QueryClient_new" "\<not> client_is_restoring (inc_mutating QueryClient_new)"
  by (simp_all add: client_is_restoring_def inc_mutating_def send_activity_def QueryClient_new_def Let_def)

lemma demo_mutations_run:
  "ms_run (=) demo_mutations (ms_start QueryClient_new) = \<lparr>ms_client = inc_mutating (inc_mutating QueryClient_new),
     ms_tasks = [\<lparr>mt_mutation = Mutation_new, mt_aborted = False, mt_phase = MtRunning None\<rparr>,
                 \<lparr>mt_mutation = Mutation_new, mt_aborted = False, mt_phase = MtNew\<rparr>]\<rparr>"
  by (simp add: demo_mutations_def ms_run_def ms_start_def spawn_mutation_task_def poll_mutation_def mutation_live_def demo_idle
      Mutation_new_def Let_def)

theorem mutating_count_exact_witness:
  "cl_mutating_count (ms_client (ms_run (=) demo_mutations (ms_start QueryClient_new))) = of_nat 2"
proof -
  have neutral: "\<forall>mu. SpawnMutation mu \<in> set demo_mutations \<longrightarrow> neutral mu"
    by (auto simp: demo_mutations_def neutral_def Mutation_new_def)
  have "cl_mutating_count (ms_client (ms_run (=) demo_mutations (ms_start QueryClient_new))) =
      cl_mutating_count (QueryClient_new :: nat client) + of_nat 2"
    using conjunct1 [OF mutating_count_exact [OF neutral refl, where peq = "(=)" and c = QueryClient_new]]
    unfolding demo_mutations_run by (simp add: live_mutations_def mutation_live_def)
  then show ?thesis by (simp add: QueryClient_new_def)
qed

theorem interleaved_mutation_executes_witness:
  "\<exists>es0 es1 w others res r c1 cbs. prefix es0 es1
     \<and> prefix (es1 @ [PollMutation 1 w]) [PollMutation 0 (MutateDone (Inr 5)), PollMutation 1 MutateStart, PollMutation 1 (MutateDone (Inr 7))]
     \<and> execute_mutation Mutation_new others res (ms_client (ms_run (=) es0 (ms_run (=) demo_mutations (ms_start QueryClient_new)))) = (r, c1, cbs)
     \<and> MSuccess (7 :: nat) = (case r of Inr d \<Rightarrow> MSuccess d | Inl e \<Rightarrow> MError e)
     \<and> ms_client (ms_run (=) (es1 @ [PollMutation 1 w]) (ms_run (=) demo_mutations (ms_start QueryClient_new))) = MutatingGuard_drop c1"
proof -
  let ?s = "ms_run (=) demo_mutations (ms_start QueryClient_new)"
  let ?es = "[PollMutation 0 (MutateDone (Inr 5)), PollMutation 1 MutateStart, PollMutation 1 (MutateDone (Inr 7))]"
  have task: "1 < length (ms_tasks ?s)" "mt_phase (ms_tasks ?s ! 1) = MtNew" "mt_mutation (ms_tasks ?s ! 1) = Mutation_new"
    by (simp_all add: demo_mutations_run)
  have "mt_phase (ms_tasks (ms_run (=) ?es ?s) ! 1) = MtEnded (MSuccess 7)"
    unfolding demo_mutations_run by (simp add: ms_run_def poll_mutation_def mutation_live_def mutation_end_def Mutation_new_def Let_def)
  note result = interleaved_mutation_executes [OF task(1,2) this]
  show ?thesis using result unfolding task(3) .
qed

theorem aborted_mutation_inert_witness:
  "\<exists>s'. s' = ms_run (=) [SpawnMutation Mutation_new] (abort_mutation 0 (ms_run (=) demo_mutations (ms_start QueryClient_new)))
     \<and> \<not> mutation_live (ms_tasks (poll_mutation 0 (MutateDone (Inr 5)) s') ! 0)"
  using aborted_mutation_inert [OF _ refl, of 0 "ms_run (=) demo_mutations (ms_start QueryClient_new)" "MutateDone (Inr 5)" "(=)" "[SpawnMutation Mutation_new]"]
  by (simp add: demo_mutations_run)

end
