(* ===== verification/Spec2Isabelle.thy ===== *)
theory Spec2Isabelle
  imports Client_Refinement Gc_Loop Spawned_Work Infinite_Binding Tab_Broadcast Managers
    Fetch_Delivery Concurrent_Mutations
begin

text \<open>
  A verification development of \<open>rs-query\<close>, a Rust port of TanStack Query: a client-side cache of
  asynchronous query results, with deduplicated fetching, retries, invalidation, mutations, infinite
  queries, persistence and UI bindings. The sources are the files of \<open>src/src/\<close>.

  \<^bold>\<open>Parts and theories.\<close>

  \<^item> \<open>Prelude\<close>: what the sources use of the standard library. Durations and instants (nanoseconds,
    saturating like \<open>std::time\<close>), \<open>dashmap\<close> (an association list with distinct keys standing for the
    concurrent map \<open>DashMap\<close>), list operations, and the locales \<open>keyed_store\<close> (what a map promises) and
    \<open>inv_machine\<close> (invariants of operation sequences).
  \<^item> \<open>Query_Key\<close> (\<open>key.rs\<close>), \<open>Query_Error\<close> (\<open>error.rs\<close>, \<open>updater.rs\<close>, \<open>cancellation.rs\<close>),
    \<open>Query_State\<close> (\<open>state.rs\<close>), \<open>Query_Options\<close> (\<open>options.rs\<close>), \<open>Query_Filters\<close> (\<open>filters.rs\<close>),
    \<open>Infinite_Data\<close> (\<open>infinite.rs\<close>, \<open>sharing.rs\<close>): the data of the program with its accessors and
    builders. A cached value of any Rust type is a \<open>dynval\<close> that carries its type identifier, which is
    what \<open>TypeId\<close> and \<open>downcast_ref\<close> see.
  \<^item> \<open>Network\<close> (\<open>watch.rs\<close>, \<open>network.rs\<close>, \<open>focus_manager.rs\<close>): the versioned watch cell, connectivity
    and focus managers.
  \<^item> \<open>Broadcast_Bus\<close> (\<open>bus.rs\<close>): the bounded broadcast channel with per-receiver queues, lag counters,
    wakers and sender counting.
  \<^item> \<open>Retryer\<close> (\<open>retryer.rs\<close>): retry decisions, the backoff curve and the attempt loop.
  \<^item> \<open>Query_Client\<close> and \<open>Client_Laws\<close> (\<open>client.rs\<close>): the client as one record (cache, in-flight table,
    subscriber channels, defaults, mount counter, activity counters, reconnect watchers), every
    operation on it, and what each bulk operation does. \<open>Gc_Loop\<close>: the collector thread.
    \<open>Client_Refinement\<close>: an abstract cache (a map of entries and the keys in flight) on which a bulk
    operation is one update of the selected keys, and the proof that the client implements it.
  \<^item> \<open>Query_Executor\<close> and \<open>Executor_Laws\<close> (\<open>query.rs\<close>, \<open>executor.rs\<close>): query execution, imperative
    fetches, spawned fetches.
  \<^item> \<open>Mutation_Cache\<close> (\<open>mutation_cache.rs\<close>), \<open>Mutation_Run\<close> (\<open>mutation.rs\<close> and the mutation half of
    \<open>executor.rs\<close>), \<open>Scope_Gate\<close>: mutations, their cache, lifecycle and scopes.
  \<^item> \<open>Query_Observer\<close> (\<open>observer.rs\<close>), \<open>Mutation_Observer\<close> (\<open>mutation_observer.rs\<close>),
    \<open>Queries_Observer\<close> (\<open>queries_observer.rs\<close>): what a consumer sees of one query, of its mutations and of
    a changing list of queries. The completion buffers that the tasks of a queries observer share with it
    live in an explicit heap, because replacing a buffer while a task still holds the old one matters.
  \<^item> \<open>Page_Slot\<close> and \<open>Infinite_Executor\<close> (\<open>infinite_executor.rs\<close>): the one-place request slot between an
    infinite query and its loop, with every interleaving of its two sides, and the page loop.
    \<open>Infinite_Binding\<close> (\<open>hooks.rs\<close>): the methods of the infinite query binding, and the way of a page
    request through binding, slot, loop, cache and signal.
  \<^item> \<open>Hydration\<close> (\<open>hydration.rs\<close>), \<open>Query_Persister\<close> (\<open>persister.rs\<close>), \<open>Persist_Client\<close>
    (\<open>persist_client.rs\<close>), \<open>Tab_Broadcast\<close> (\<open>broadcast.rs\<close>): serialised snapshots of the client, their
    storage, restoration and exchange between clients.
  \<^item> \<open>Managers\<close> (\<open>notify_manager.rs\<close>, \<open>timeout_manager.rs\<close>, \<open>streamed_query.rs\<close>): batched notifications,
    the timer switch, stream collection.
  \<^item> \<open>Devtools\<close> (\<open>devtools.rs\<close>) and \<open>Hooks\<close> (\<open>hooks.rs\<close>): the inspection panel's state and the bindings to
    UI signals, with their background tasks.
  \<^item> \<open>Runtime\<close> and \<open>Task_Runtime\<close> (\<open>runtime.rs\<close>): handles of spawned tasks, the two runtimes, and a task
    with its owner as a system of polls, aborts, detaches and drops. \<open>Spawned_Work\<close>: the fetches and
    mutations of the crate (\<open>executor.rs\<close>, \<open>mutation_observer.rs\<close>, \<open>hooks.rs\<close>) as such tasks,
    and what an owner is answered when such a task is aborted.
  \<^item> \<open>Public_Ops\<close>, \<open>Concurrent_Fetches\<close>, \<open>Concurrent_Mutations\<close> (\<open>executor.rs\<close>, \<open>mutation.rs\<close>,
    \<open>runtime.rs\<close>): any number of spawned fetches, or of spawned mutations, of one client as state
    machines whose states are the await points of the code, interleaved with each other, with aborts and
    with every operation of the client's interface. \<open>Public_Ops\<close> says which operations those are and
    that none of them touches the activity counters. \<open>Fetch_Delivery\<close>: one such fetch with the runtime
    around it, the spawning thread that registers it at any moment, the owner of its handle and a binding.

  \<^bold>\<open>How the code is modelled.\<close> A struct is a record, an enum a datatype, shared state is passed
  explicitly, errors are values of a sum type. Counters whose overflow is reachable (the mount counter)
  are machine words; other \<open>u64\<close> identifiers are naturals. Time is an argument. An asynchronous function
  takes a script: at each await point, what the awaited future resolved to and which transformation of
  the shared state the other tasks performed meanwhile. Its result \<open>None\<close> means that it is still waiting
  when the script ends; termination theorems say which scripts are long enough and that a result is
  then produced (for the executor, one entry more than \<open>max_retries\<close>; for a mutation, one more than
  \<open>retry\<close>). A background task that loops on a channel is a total function from one poll to the next,
  which ends because a poll consumes the channel's backlog. For the operations whose correctness depends
  on it, the critical sections of one function that another thread can separate are separate steps: the
  registration of a spawned fetch, the scope gate, the request slot, the settlement and the reset of a
  mutation observer, the write and the read back of a fetched value. Their interleavings are inductive step
  relations or sequences of events; the claims say when they need a cooperative scheduler, and what several
  threads can do instead is a theorem of its own. The other operations are one step each: those of the
  mutation cache that take several of its locks in turn (adding an entry, clearing), and the bulk
  operations of the client, which lock one map entry at a time. Tasks that run beside each other are a
  list of phases and a client, advanced by a sequence of events. The saves of the background loop of the
  persisted client take any number of polls; storages and persisters that are awaited elsewhere answer at
  once. Code of other crates is a parameter with named hypotheses:
  \<open>serde_json\<close> (\<open>codec_ok\<close>, \<open>serde_ok\<close>), one-shot channels (\<open>oneshot_ok\<close>, \<open>channel_ok\<close>) and abort pairs
  (\<open>abort_ok\<close>) of \<open>futures\<close>, the signals of the UI framework (\<open>gated_write\<close>), custom storages and persisters.

  \<^bold>\<open>What is shown.\<close> The channel delivers exactly the sent stream up to counted lags, loses no wakeup
  and closes with its last sender; the client keeps its cache well typed under every sequence of
  operations and implements the abstract cache, and its collector thread removes what has expired; the
  executor returns the
  first success or the decisive failure and always ends within its budget; the retryer likewise; a
  mutation settles in the right status with every callback once and in order, rolls back exactly on
  failure, and scopes exclude each other on a cooperative scheduler as long as the cache is not cleared. Observers keep consistent flags and
  see every write; the mutation observer refines an abstract observer with forgetful resets, unless a reset falls between the
  two steps of a settlement; a queries
  observer keeps its shape and reconciles by key. The request slot serves every accepted request once
  on a cooperative scheduler, and the page loop keeps pages and parameters aligned and bounded.
  Hydration, the persister and the persisted client are round trips, garbage collection of the storage
  is exact, a published state reaches its subscribers, a stopped save loop starts no
  save any more and finishes the one it is in. Batched
  notifications run once and in order, a collected stream is a fold, the query binding converges to the
  cache, and a spawned task refines an abstract task for every interleaving of worker and owner. Every
  spawned fetch, however it is interleaved, follows the script of what it meets at its polls, the activity
  counters are the numbers of fetches and mutations under way, and a fetch that was cancelled or
  invalidated never touches the cache again. Five
  theorems follow data through the whole system: a fetch from its spawning through retries to its owner,
  the cache and a binding's signal, whenever it is registered, a text from one client through storage to an observer
  after a restart, a text from one client over a channel to the screen of another, a page request from a
  binding to its signal, and a mutation to every reader of the queries it invalidates. Where the code
  departs from its documentation the departure is itself a theorem; among them, a fetch or a scoped
  mutation whose handle is dropped leaves its key in flight or its scope taken for good, and of two
  spawned fetches of one key the first to end takes the other out of the reach of cancellation.

  \<^bold>\<open>Interfaces.\<close> \<open>keyed_store\<close> is interpreted on \<open>dashmap\<close>; \<open>inv_machine\<close> on the channel, the client, the
  mutation cache, the query observer and the system of spawned fetches; \<open>aborting_loop\<close>, \<open>cache_loop\<close>
  and \<open>refetch_loop\<close> carry the bulk operations of the client and are interpreted on each of them; \<open>storage_contract\<close> is what the persister
  relies on of a \<open>QueryStorage\<close> and \<open>client_persister_contract\<close> what the persisted client relies on of a
  \<open>ClientPersister\<close>, interpreted on the in-memory implementations of the crate. \<open>simulation\<close> extends
  \<open>inv_machine\<close> by an abstraction to a specification and is interpreted on the client; \<open>spec_loop\<close> says
  what a loop over keys must do at each key to be one update of the abstract cache, and is interpreted
  on every bulk operation.

  \<^bold>\<open>Not modelled.\<close> The worker pool, executors and timers behind the runtimes, which are code of other
  crates: a task is polled in any order, and a sleep is a point where a script goes on. \<open>Debug\<close> printers,
  derived \<open>Clone\<close> implementations and plain getters; the crate root (\<open>lib.rs\<close>), which only re-exports.
  Tracing output is dropped.
\<close>

text \<open>What a client that was brought a text by hydration shows for it.\<close>

definition shown_after :: "instant \<Rightarrow> nat \<Rightarrow> 'v cache_entry \<Rightarrow> string \<Rightarrow> 'v dynval query_state" where
  "shown_after now age e txt =
     (let st = from_millis (millis_u64 (stale_time (ce_options e)))
      in if ce_is_stale e \<or> (0 < st \<and> st < from_millis age \<and> from_millis age \<le> now)
         then Stale (StrV txt) else Success (StrV txt))"

lemma hydrated_shown:
  assumes "client_wf c1" "codec_ok serde" "dm_get (cl_cache c1) (cache_key key) = Some e" "ce_data e = StrV txt"
    and "age = millis_u64 (elapsed now1 (ce_fetched_at e))" "age \<le> wall"
    and "dm_get (cl_cache c2) (cache_key key) = None" "cl_default_options c2 = None"
    and c3: "c3 = client_hydrate serde now2 (client_dehydrate serde now1 wall c1) HydrateOptions_default c2"
  shows "read_query_state T_String now2 key placeholder c3 = shown_after now2 age e txt"
    "get_query_data T_String key c3 = Some (StrV txt)"
proof -
  obtain e' where e': "dm_get (cl_cache c3) (cache_key key) = Some e'" "ce_data e' = StrV txt"
    "ce_type_id e' = T_String" "ce_is_stale e' = ce_is_stale e"
    "stale_time (ce_options e') = from_millis (millis_u64 (stale_time (ce_options e)))"
    "ce_fetched_at e' = restored_at now2 age"
    using hydrate_restores_entry [OF assms(1,2,7,8,3,4), of now1 wall now2] assms(5,6) by (auto simp: c3)
  then show "get_query_data T_String key c3 = Some (StrV txt)" by (simp add: get_query_data_def downcast_def)
  then show "read_query_state T_String now2 key placeholder c3 = shown_after now2 age e txt"
    using e' by (auto simp: read_query_state_def client_is_stale_def restored_at_def elapsed_def shown_after_def Let_def)
qed

text \<open>
  C18. A restart end to end. A text cached in one client, saved by the persisted client, restored into
  another client that lacks the key, is what an observer created there shows, and what the UI binding
  reads. It is shown as stale exactly when it was marked stale or was, at the time of saving, older
  than its stale time, in whole milliseconds; the time between saving and restoring does not count.
  The one exception is a clock that has not yet run for as long as the data is old: then the age is
  lost and only the mark counts.
\<close>

theorem restart_shows_data:
  assumes "client_wf c1" and "codec_ok serde"
    and "dm_get (cl_cache c1) (cache_key key) = Some e" and "ce_data e = StrV txt"
    and "age = millis_u64 (elapsed now1 (ce_fetched_at e))" and "age \<le> wall1" and "0 < wall1"
    and "wall2 - wall1 \<le> millis_u64 (po_max_age o')"
    and "dm_get (cl_cache c2) (cache_key key) = None" and "cl_default_options c2 = None"
    and "persist_query_client_save serde memory_client_persister o' now1 wall1 c1 s = (r1, s1)"
    and "persist_query_client_restore serde memory_client_persister o' now2 wall2 (c2, s1) = (r2, (c3, s2))"
  shows "ob_state (fst (QueryObserver_new T_String now2 key c3)) = shown_after now2 age e txt
   \<and> read_query_state T_String now2 key placeholder c3 = shown_after now2 age e txt"
proof -
  have "c3 = client_hydrate serde now2 (client_dehydrate serde now1 wall1 c1) HydrateOptions_default c2"
    using memc.save_restore [OF TrueI assms(11,12)] assms(7,8) by simp
  note shown = hydrated_shown [OF assms(1-6,9,10) this]
  have "ob_state (fst (QueryObserver_new T_String now2 key c3)) = read_query_state T_String now2 key placeholder c3"
    using shown(2) by (simp add: QueryObserver_new_def read_query_state_def client_subscribe_def get_query_data_def
        client_is_stale_def Let_def split: prod.splits)
  then show ?thesis using shown(1) by simp
qed

lemma demo_text_entry:
  fixes e defines "e \<equiv> the (dm_get (cl_cache demo_text_client) (cache_key (QueryKey_new ''t'')))"
  shows "dm_get (cl_cache demo_text_client) (cache_key (QueryKey_new ''t'')) = Some e"
    "ce_data e = StrV ''hello''" "ce_fetched_at e = 0" "\<not> ce_is_stale e" "stale_time (ce_options e) = from_millis 5"
  unfolding e_def demo_text_client_def
  by (simp_all add: set_query_data_def QueryKey_new_def QueryClient_new_def Let_def resolve_options_def
      QueryOptions_stale_time_def)

lemma demo_millis:
  "millis_u64 10000000 = 10" "millis_u64 (from_millis 5) = 5" "from_millis 5 = 5000000" "from_millis 10 = 10000000"
  by (simp_all add: millis_u64_def as_millis_def sat64_def u64_max_def from_millis_def)

theorem restart_shows_data_witness:
  "ob_state (fst (QueryObserver_new T_String 20000000 (QueryKey_new ''t'')
     (fst (snd (persist_query_client_restore None memory_client_persister PersistQueryClientOptions_new 20000000 1500
        (QueryClient_new :: nat client,
         snd (persist_query_client_save None memory_client_persister PersistQueryClientOptions_new 10000000 1000
                demo_text_client None)))))))
   = Stale (StrV ''hello'')"
proof -
  obtain r1 s1 where a: "persist_query_client_save None memory_client_persister PersistQueryClientOptions_new 10000000 1000
             demo_text_client None = (r1, s1)" by fastforce
  obtain r2 c3 s2 where b: "persist_query_client_restore None memory_client_persister PersistQueryClientOptions_new
     20000000 1500 (QueryClient_new :: nat client, s1) = (r2, (c3, s2))" by (metis prod.collapse)
  have age: "(1500::nat) - 1000 \<le> millis_u64 (po_max_age PersistQueryClientOptions_new)"
    by (simp add: PersistQueryClientOptions_new_def DEFAULT_MAX_AGE_def millis_u64_def as_millis_def sat64_def
        u64_max_def from_secs_def)
  note e = demo_text_entry
  show ?thesis
    using restart_shows_data [OF demo_text(1) _ e(1,2) refl _ _ age _ _ a b] a b e demo_millis
    by (simp add: codec_ok_def elapsed_def QueryClient_new_def shown_after_def)
qed

text \<open>
  C7. A mutation refreshes what depends on it. When a mutation succeeds, scoped or not, with any
  retries, optimistic update and other tasks in between, then in the client it leaves every cached query
  under one of its invalidated keys is stale for every reader: the UI binding and any observer show its
  data as stale at whatever time they look, and no fetch started before is still registered for it.
\<close>

theorem mutation_refreshes_queries:
  assumes "execute_mutation_full_tracked mu per_call now0 fs as cm = Some (Inr d, (c', m'), ds)"
    and "pat \<in> set (mu_invalidates_keys mu)" and "prefix (cache_key pat) (cache_key key)"
    and "get_query_data ty key c' = Some v"
  shows "read_query_state ty now key placeholder c' = Stale v
   \<and> (ob_key o' = key \<longrightarrow> ob_state (observer_update ty now c' o') = Stale v)
   \<and> \<not> is_in_flight key c'"
proof -
  obtain c0 where c': "c' = fold invalidate_queries (mu_invalidates_keys mu) c0"
    using mutation_success_client [OF assms(1)] by blast
  obtain e where e: "dm_get (cl_cache c0) (cache_key key) = Some e"
    using assms(4) by (auto simp: get_query_data_def c' invalidate_list split: option.splits)
  have hit: "\<exists>pat\<in>set (mu_invalidates_keys mu). prefix (cache_key pat) (cache_key key)" using assms(2,3) by blast
  have "client_is_stale now key c'" using e hit by (simp add: c' client_is_stale_def invalidate_list)
  moreover have "\<not> is_in_flight key c'"
    using e hit by (simp add: c' is_in_flight_def dm_contains_def invalidate_list)
  ultimately show ?thesis
    using assms(4) by (cases "ob_state o'") (auto simp: read_query_state_def observer_update_def)
qed

theorem mutation_refreshes_queries_witness:
  "\<exists>c' m'. execute_mutation_full_tracked (Mutation_new\<lparr>mu_invalidates_keys := [QueryKey_new ''t'']\<rparr>) None 0 []
       [\<lparr>ma_client = \<lambda>c. c, ma_cache = \<lambda>m. m, ma_result = Inr 1 :: (query_error, nat) result\<rparr>]
       (demo_text_client, MutationCache_new) = Some (Inr 1, (c', m'), [])
     \<and> read_query_state T_String 0 (QueryKey_new ''t'') None c' = Stale (StrV ''hello'')"
proof -
  let ?mu = "(Mutation_new :: nat mutation)\<lparr>mu_invalidates_keys := [QueryKey_new ''t'']\<rparr>"
  let ?as = "[\<lparr>ma_client = \<lambda>c. c, ma_cache = \<lambda>m. m, ma_result = Inr 1 :: (query_error, nat) result\<rparr>]"
  obtain m1 i where "mc_add (pending_entry ?mu 0) MutationCache_new = (m1, i)" by fastforce
  then obtain c' m' where run: "execute_mutation_full_tracked ?mu None 0 [] ?as (demo_text_client, MutationCache_new)
      = Some (Inr 1, (c', m'), [])" and c': "c' = invalidate_queries (QueryKey_new ''t'') demo_text_client"
    by (auto simp: execute_mutation_full_tracked_def run_acquired_def finish_mutation_def settle_mutation_success_def
        Mutation_new_def Let_def)
  have "get_query_data T_String (QueryKey_new ''t'') c' = Some (StrV ''hello'')"
    unfolding c' get_query_data_def invalidate_entry
    by (simp add: demo_text_client_def set_query_data_entry QueryClient_new_def QueryKey_new_def downcast_def Let_def)
  then have "read_query_state T_String 0 (QueryKey_new ''t'') None c' = Stale (StrV ''hello'')"
    using mutation_refreshes_queries [OF run, of "QueryKey_new ''t''" "QueryKey_new ''t''"] by simp
  then show ?thesis using run by blast
qed





end
